(* ===== verification/Argos_Align.thy ===== *)
theory Argos_Align
  imports Argos_Prelude
begin

text \<open>
  The two rounding helpers of \<open>src/storage/raw/format.rs\<close> that the allocator and the
  layout share.
\<close>

definition align_up :: "nat \<Rightarrow> nat \<Rightarrow> nat" where
  "align_up value alignment =
     (if alignment = 0 then value else sat_mul (div_ceil value alignment) alignment)"

definition align_down :: "nat \<Rightarrow> nat \<Rightarrow> nat" where
  "align_down value alignment =
     (case (if alignment = 0 then None else Some (value div alignment)) of
        Some blocks \<Rightarrow> sat_mul blocks alignment
      | None \<Rightarrow> value)"

lemma align_up_cases:
  assumes "0 < a" "align_up v a < u64_max"
  shows align_up_ge: "v \<le> align_up v a"
    and align_up_dvd: "a dvd align_up v a"
    and align_up_less: "align_up v a < v + a"
proof -
  from assms have eq: "align_up v a = div_ceil v a * a"
    by (auto simp: align_up_def sat_mul_def min_def split: if_splits)
  show "v \<le> align_up v a" "a dvd align_up v a" "align_up v a < v + a"
    using assms(1) by (auto simp: eq div_ceil_mult_ge div_ceil_mult_less)
qed

lemma align_up_aligned: "a dvd v \<Longrightarrow> 0 < a \<Longrightarrow> v \<le> u64_max \<Longrightarrow> align_up v a = v"
  by (simp add: align_up_def sat_mul_def div_ceil_exact)

lemma align_up_pos: "0 < a \<Longrightarrow> 0 < v \<Longrightarrow> v \<le> u64_max \<Longrightarrow> 0 < align_up v a"
  using div_ceil_mult_ge [of a v] by (cases "div_ceil v a") (auto simp: align_up_def sat_mul_def u64_max_def)

lemma align_up_ge': "0 < a \<Longrightarrow> v \<le> u64_max \<Longrightarrow> v \<le> align_up v a"
  using div_ceil_mult_ge [of a v] by (simp add: align_up_def sat_mul_def)

lemma align_down_eq: "0 < a \<Longrightarrow> v \<le> u64_max \<Longrightarrow> align_down v a = v div a * a"
  using order_trans [OF div_times_less_eq_dividend [of v a]]
  by (simp add: align_down_def sat_mul_def min_absorb1)

lemma align_down_dvd: "0 < a \<Longrightarrow> v \<le> u64_max \<Longrightarrow> a dvd align_down v a"
  by (simp add: align_down_eq)

lemma align_down_le: "v \<le> u64_max \<Longrightarrow> align_down v a \<le> v"
  by (cases "a = 0") (auto simp: align_down_def sat_mul_def intro: min.coboundedI1)

lemma align_down_gt: "0 < a \<Longrightarrow> v \<le> u64_max \<Longrightarrow> v < align_down v a + a"
  by (simp add: align_down_eq) (metis add.commute div_mod_decomp mod_less_divisor mult.commute
      nat_add_left_cancel_less)

end
