(* ===== verification/Argos_Error.thy ===== *)
theory Argos_Error
  imports Argos_Prelude
begin

text \<open>
  \<open>src/error.rs\<close>: the error type of the crate, its mapping to \<open>errno\<close> and the test that
  fences a device. The free text of a message is diagnostic only and is not modelled; a
  payload the code looks at, or a number it reports, is kept.
\<close>

datatype argos_error =
    Message
  | Io "int option"          \<comment> \<open>\<open>raw_os_error()\<close> of the wrapped error\<close>
  | Json
  | Erasure
  | NotFound
  | NoData
  | AlreadyExists
  | NotDirectory
  | IsDirectory
  | DirectoryNotEmpty
  | NotEnoughDisks nat nat   \<comment> \<open>need, have\<close>
  | DiskFull string nat nat  \<comment> \<open>disk id, required, available\<close>
  | QuotaExceeded nat nat nat \<comment> \<open>inode, used, limit\<close>
  | UnrecoverableStripe string
  | Invalid
  | NameTooLong
  | FileTooLarge
  | PermissionDenied
  | Conflict
  | InjectedCrash string     \<comment> \<open>the crash point\<close>
  | Unsupported
  | Checksum
  | CorruptedMetadata
  | IncompatibleFormat
  | MissingDevice string
  | DeviceTimeout string nat
  | DeviceFailed string
  | DeviceBusy string
  | DegradedPool
  | QuorumUnavailable nat nat          \<comment> \<open>need, have\<close>
  | RetryableQuorumUnavailable nat nat \<comment> \<open>need, have\<close>
  | IndeterminateCommit
  | CommittedDurabilityLoss
  | UnsafeMount
  | JournalReplayRequired
  | ReadonlyRequired

type_synonym 'a result = "argos_error + 'a"

text \<open>The \<open>libc\<close> error numbers of Linux that the mapping uses.\<close>

abbreviation (input) "ENOENT \<equiv> 2 :: int"
abbreviation (input) "EIO \<equiv> 5 :: int"
abbreviation (input) "ENXIO \<equiv> 6 :: int"
abbreviation (input) "EAGAIN \<equiv> 11 :: int"
abbreviation (input) "EACCES \<equiv> 13 :: int"
abbreviation (input) "EEXIST \<equiv> 17 :: int"
abbreviation (input) "ENODEV \<equiv> 19 :: int"
abbreviation (input) "ENOTDIR \<equiv> 20 :: int"
abbreviation (input) "EISDIR \<equiv> 21 :: int"
abbreviation (input) "EINVAL \<equiv> 22 :: int"
abbreviation (input) "EFBIG \<equiv> 27 :: int"
abbreviation (input) "ENOSPC \<equiv> 28 :: int"
abbreviation (input) "EROFS \<equiv> 30 :: int"
abbreviation (input) "ENAMETOOLONG \<equiv> 36 :: int"
abbreviation (input) "ENOTEMPTY \<equiv> 39 :: int"
abbreviation (input) "ENOTSUP \<equiv> 95 :: int"
abbreviation (input) "EREMOTEIO \<equiv> 121 :: int"
abbreviation (input) "EDQUOT \<equiv> 122 :: int"

definition is_fatal_device_error :: "argos_error \<Rightarrow> bool" where
  "is_fatal_device_error err =
     (case err of
        MissingDevice _ \<Rightarrow> True
      | DeviceTimeout _ _ \<Rightarrow> True
      | DeviceFailed _ \<Rightarrow> True
      | Io raw \<Rightarrow> raw \<in> {Some EIO, Some ENODEV, Some ENXIO, Some EREMOTEIO}
      | _ \<Rightarrow> False)"

definition errno :: "argos_error \<Rightarrow> int" where
  "errno err =
     (case err of
        NotFound \<Rightarrow> ENOENT
      | NoData \<Rightarrow> ENXIO
      | AlreadyExists \<Rightarrow> EEXIST
      | NotDirectory \<Rightarrow> ENOTDIR
      | IsDirectory \<Rightarrow> EISDIR
      | DirectoryNotEmpty \<Rightarrow> ENOTEMPTY
      | NotEnoughDisks _ _ \<Rightarrow> ENOSPC
      | DiskFull _ _ _ \<Rightarrow> ENOSPC
      | QuotaExceeded _ _ _ \<Rightarrow> EDQUOT
      | UnrecoverableStripe _ \<Rightarrow> EIO
      | Invalid \<Rightarrow> EINVAL
      | NameTooLong \<Rightarrow> ENAMETOOLONG
      | FileTooLarge \<Rightarrow> EFBIG
      | PermissionDenied \<Rightarrow> EACCES
      | Conflict \<Rightarrow> EAGAIN
      | InjectedCrash _ \<Rightarrow> EIO
      | Unsupported \<Rightarrow> ENOTSUP
      | Checksum \<Rightarrow> EIO
      | CorruptedMetadata \<Rightarrow> EIO
      | IncompatibleFormat \<Rightarrow> EINVAL
      | MissingDevice _ \<Rightarrow> ENODEV
      | DeviceTimeout _ _ \<Rightarrow> EIO
      | DeviceFailed _ \<Rightarrow> EIO
      | DeviceBusy _ \<Rightarrow> EAGAIN
      | DegradedPool \<Rightarrow> EIO
      | QuorumUnavailable _ _ \<Rightarrow> EROFS
      | RetryableQuorumUnavailable _ _ \<Rightarrow> EAGAIN
      | IndeterminateCommit \<Rightarrow> EIO
      | CommittedDurabilityLoss \<Rightarrow> EIO
      | UnsafeMount \<Rightarrow> EROFS
      | JournalReplayRequired \<Rightarrow> EAGAIN
      | ReadonlyRequired \<Rightarrow> EROFS
      | Io raw \<Rightarrow> (case raw of Some e \<Rightarrow> e | None \<Rightarrow> EIO)
      | _ \<Rightarrow> EIO)"

text \<open>
  A retryable outcome (\<open>EAGAIN\<close>) is never one that fences a device, unless the operating
  system itself reported \<open>EAGAIN\<close>, which is not fatal either.
\<close>

lemma fatal_device_error_not_retryable:
  "is_fatal_device_error err \<Longrightarrow> errno err \<noteq> EAGAIN"
  by (auto simp: is_fatal_device_error_def errno_def split: argos_error.splits option.splits)

end
