(* ===== verification/Argos_Allocator.thy ===== *)
theory Argos_Allocator
  imports Argos_Align Argos_Error "HOL-Library.Multiset"
begin

text \<open>
  \<open>src/storage/raw/allocator.rs\<close>: the per-device extent allocator of a raw pool. Each device
  has a bump pointer \<open>next_offset\<close> and a list of freed extents, kept sorted and merged by
  \<open>coalesce\<close>.

  After the operations come the invariant, the byte set a state can still hand out
  (\<open>free_space\<close>), the lemmas that relate each operation to that set, and the interface
  \<open>space_allocator\<close> with the history of live extents.
\<close>

section \<open>State\<close>

record raw_free_extent =
  fe_offset :: nat
  fe_length :: nat

record raw_allocator_state =
  block_size :: nat
  data_start :: nat
  data_end :: nat
  next_offset :: nat
  free_extents :: "raw_free_extent list"

record physical_extent =
  ext_disk_id :: string
  ext_offset :: nat
  ext_length :: nat
  ext_generation :: nat
  ext_flags :: nat

section \<open>Operations\<close>

definition init_allocator :: "nat \<Rightarrow> nat \<Rightarrow> nat \<Rightarrow> raw_allocator_state" where
  "init_allocator start len bs =
     \<lparr>block_size = bs, data_start = start, data_end = sat_add start len,
      next_offset = start, free_extents = []\<rparr>"

definition allocate ::
  "raw_allocator_state \<Rightarrow> string \<Rightarrow> nat \<Rightarrow> nat \<Rightarrow> (physical_extent \<times> raw_allocator_state) result"
where
  "allocate state disk_id len generation =
     (let bs = max (block_size state) 4096;
          len = align_up (max len 1) bs
      in case position (\<lambda>f. len \<le> fe_length f \<and> fe_offset f mod bs = 0) (free_extents state) of
           Some index \<Rightarrow>
             (let free = free_extents state ! index;
                  frees = (if fe_length free = len then remove_nth index (free_extents state)
                           else (free_extents state)
                             [index := \<lparr>fe_offset = sat_add (fe_offset free) len,
                                        fe_length = fe_length free - len\<rparr>])
              in Inr (\<lparr>ext_disk_id = disk_id, ext_offset = fe_offset free, ext_length = len,
                       ext_generation = generation, ext_flags = 0\<rparr>,
                      state\<lparr>free_extents := frees\<rparr>))
         | None \<Rightarrow>
             (let off = align_up (next_offset state) bs
              in case checked_add off len of
                   None \<Rightarrow> Inl Invalid
                 | Some end_off \<Rightarrow>
                     if data_end state < end_off
                     then Inl (DiskFull disk_id len (data_end state - off))
                     else Inr (\<lparr>ext_disk_id = disk_id, ext_offset = off, ext_length = len,
                                ext_generation = generation, ext_flags = 0\<rparr>,
                               state\<lparr>next_offset := end_off\<rparr>)))"

text \<open>The loop of \<open>coalesce\<close>; \<open>merged\<close> is kept with its last element first.\<close>

fun coalesce_loop :: "raw_free_extent list \<Rightarrow> raw_free_extent list \<Rightarrow> raw_free_extent list" where
  "coalesce_loop merged [] = rev merged"
| "coalesce_loop [] (extent # rest) = coalesce_loop [extent] rest"
| "coalesce_loop (prev # merged) (extent # rest) =
     (let last_end = sat_add (fe_offset prev) (fe_length prev)
      in if fe_offset extent \<le> last_end
         then coalesce_loop
                (prev\<lparr>fe_length := max last_end (sat_add (fe_offset extent) (fe_length extent))
                                   - fe_offset prev\<rparr> # merged) rest
         else coalesce_loop (extent # prev # merged) rest)"

definition coalesce :: "raw_allocator_state \<Rightarrow> raw_allocator_state" where
  "coalesce state =
     state\<lparr>free_extents := coalesce_loop [] (sort_key fe_offset (free_extents state))\<rparr>"

definition free :: "raw_allocator_state \<Rightarrow> physical_extent \<Rightarrow> raw_allocator_state result" where
  "free state extent =
     (if ext_offset extent < data_start state
         \<or> data_end state < sat_add (ext_offset extent) (ext_length extent)
      then Inl Invalid
      else if ext_length extent = 0 then Inr state
      else Inr (coalesce
             (state\<lparr>free_extents := free_extents state
                @ [\<lparr>fe_offset = ext_offset extent, fe_length = ext_length extent\<rparr>]\<rparr>)))"

fun validate_extents :: "nat \<Rightarrow> nat \<Rightarrow> nat \<Rightarrow> (nat \<times> nat) list \<Rightarrow> unit result" where
  "validate_extents start stop previous_end [] = Inr ()"
| "validate_extents start stop previous_end ((off, len) # rest) =
     (if off < start \<or> stop < sat_add off len then Inl CorruptedMetadata
      else if off < previous_end then Inl CorruptedMetadata
      else validate_extents start stop (sat_add off len) rest)"

definition extent_overlaps :: "nat \<times> nat \<Rightarrow> nat \<times> nat \<Rightarrow> bool" where
  "extent_overlaps a f \<longleftrightarrow>
     fst a < sat_add (fst f) (snd f) \<and> fst f < sat_add (fst a) (snd a)"

definition validate_allocations ::
  "raw_allocator_state \<Rightarrow> physical_extent list \<Rightarrow> unit result" where
  "validate_allocations state extents =
     (let allocated = sort_key fst (map (\<lambda>e. (ext_offset e, ext_length e)) extents);
          frees = sort_key fst (map (\<lambda>f. (fe_offset f, fe_length f)) (free_extents state))
      in rbind (validate_extents (data_start state) (data_end state) (data_start state) allocated)
           (\<lambda>_. rbind (validate_extents (data_start state) (data_end state) (data_start state) frees)
             (\<lambda>_. if \<exists>a \<in> set allocated. \<exists>f \<in> set frees. extent_overlaps a f
                  then Inl CorruptedMetadata else Inr ())))"

text \<open>
  The rollback of a failed shard write (\<open>write_shard_locked\<close> in
  \<open>src/volume/data_plane.rs\<close>): an extent at the bump pointer moves the pointer back, any
  other extent is freed, and the result of that \<open>free\<close> is discarded.
\<close>

definition release_failed_write ::
  "raw_allocator_state \<Rightarrow> physical_extent \<Rightarrow> raw_allocator_state" where
  "release_failed_write state extent =
     (if sat_add (ext_offset extent) (ext_length extent) = next_offset state
      then state\<lparr>next_offset := ext_offset extent\<rparr>
      else (case free state extent of Inr state' \<Rightarrow> state' | Inl _ \<Rightarrow> state))"

section \<open>Invariant and abstraction\<close>

definition alloc_block :: "raw_allocator_state \<Rightarrow> nat" where
  "alloc_block st = max (block_size st) 4096"

definition fe_end :: "raw_free_extent \<Rightarrow> nat" where
  "fe_end f = fe_offset f + fe_length f"

definition fe_bytes :: "raw_free_extent \<Rightarrow> nat set" where
  "fe_bytes f = {fe_offset f ..< fe_end f}"

definition ext_bytes :: "physical_extent \<Rightarrow> nat set" where
  "ext_bytes e = {ext_offset e ..< ext_offset e + ext_length e}"

text \<open>The bytes the allocator can still hand out.\<close>

definition free_space :: "raw_allocator_state \<Rightarrow> nat set" where
  "free_space st = (\<Union>f \<in> set (free_extents st). fe_bytes f) \<union> {next_offset st ..< data_end st}"

definition fe_separated :: "raw_free_extent list \<Rightarrow> bool" where
  "fe_separated fs \<longleftrightarrow> sorted_wrt (\<lambda>f g. fe_end f \<le> fe_offset g) fs"

definition alloc_inv :: "raw_allocator_state \<Rightarrow> bool" where
  "alloc_inv st \<longleftrightarrow>
     data_end st < u64_max \<and> data_start st \<le> next_offset st \<and> next_offset st \<le> data_end st
     \<and> alloc_block st dvd next_offset st
     \<and> fe_separated (free_extents st)
     \<and> (\<forall>f \<in> set (free_extents st).
          0 < fe_length f \<and> alloc_block st dvd fe_offset f \<and> alloc_block st dvd fe_length f
          \<and> data_start st \<le> fe_offset f \<and> fe_end f \<le> next_offset st)"

text \<open>An extent the allocator may have handed out from this state.\<close>

definition extent_valid :: "raw_allocator_state \<Rightarrow> physical_extent \<Rightarrow> bool" where
  "extent_valid st e \<longleftrightarrow>
     0 < ext_length e \<and> alloc_block st dvd ext_offset e \<and> alloc_block st dvd ext_length e
     \<and> data_start st \<le> ext_offset e \<and> ext_offset e + ext_length e \<le> next_offset st"

lemma alloc_block_pos [simp]: "0 < alloc_block st"
  by (simp add: alloc_block_def)

lemma alloc_block_update [simp]:
  "alloc_block (st\<lparr>free_extents := fs\<rparr>) = alloc_block st"
  "alloc_block (st\<lparr>next_offset := n\<rparr>) = alloc_block st"
  by (simp_all add: alloc_block_def)

lemma free_space_update:
  "free_space (st\<lparr>free_extents := fs\<rparr>)
     = (\<Union>f \<in> set fs. fe_bytes f) \<union> {next_offset st ..< data_end st}"
  by (simp add: free_space_def)

lemma alloc_inv_init:
  assumes "start + len < u64_max" "max bs 4096 dvd start"
  shows "alloc_inv (init_allocator start len bs)"
  using assms by (simp add: alloc_inv_def init_allocator_def alloc_block_def fe_separated_def sat_add_def)

subsection \<open>Coalescing\<close>

lemma fe_end_merge [simp]:
  "fe_end (p\<lparr>fe_length := n - fe_offset p\<rparr>) = max (fe_offset p) n"
  "fe_offset (p\<lparr>fe_length := n - fe_offset p\<rparr>) = fe_offset p"
  by (auto simp: fe_end_def)

lemma fe_bytes_merge:
  assumes "fe_offset p \<le> fe_offset e" "fe_offset e \<le> fe_end p"
  shows "fe_bytes (p\<lparr>fe_length := max (fe_end p) (fe_end e) - fe_offset p\<rparr>) = fe_bytes p \<union> fe_bytes e"
  using assms by (auto simp: fe_bytes_def fe_end_def)

lemma sat_fe_end: "fe_end f < u64_max \<Longrightarrow> sat_add (fe_offset f) (fe_length f) = fe_end f"
  by (simp add: fe_end_def sat_add_def)

text \<open>
  One pass over a list sorted by offset: the bytes covered are unchanged, the result is
  strictly separated, and every predicate on (start, end) that merging keeps holds of it.
\<close>

lemma coalesce_loop_correct:
  assumes "sorted (map fe_offset es)"
    and "\<forall>f \<in> set merged \<union> set es. fe_end f < u64_max \<and> Q (fe_offset f) (fe_end f)"
    and "sorted_wrt (\<lambda>f g. fe_end g < fe_offset f) merged"
    and "\<forall>p \<in> set merged. \<forall>e \<in> set es. fe_offset p \<le> fe_offset e"
    and merge: "\<And>a b c d. Q a b \<Longrightarrow> Q c d \<Longrightarrow> a \<le> c \<Longrightarrow> Q a (max b d)"
  shows "(\<Union>f \<in> set (coalesce_loop merged es). fe_bytes f)
           = (\<Union>f \<in> set merged \<union> set es. fe_bytes f)
       \<and> sorted_wrt (\<lambda>f g. fe_end f < fe_offset g) (coalesce_loop merged es)
       \<and> (\<forall>f \<in> set (coalesce_loop merged es). Q (fe_offset f) (fe_end f))"
  using assms(1-4)
proof (induction merged es rule: coalesce_loop.induct)
  case (1 merged)
  then show ?case by (simp add: sorted_wrt_rev)
next
  case (2 e es)
  then show ?case by simp
next
  case (3 p merged e es)
  have ends: "sat_add (fe_offset p) (fe_length p) = fe_end p"
    "sat_add (fe_offset e) (fe_length e) = fe_end e"
    using "3.prems"(2) by (simp_all add: sat_fe_end)
  have pe: "fe_offset p \<le> fe_offset e" using "3.prems"(4) by simp
  show ?case
  proof (cases "fe_offset e \<le> fe_end p")
    case True
    let ?p = "p\<lparr>fe_length := max (fe_end p) (fe_end e) - fe_offset p\<rparr>"
    have le: "fe_offset p \<le> fe_end p" by (simp add: fe_end_def)
    have p': "fe_end ?p = max (fe_end p) (fe_end e)" "fe_offset ?p = fe_offset p"
      using le by (simp_all add: max_def fe_end_def)
    have "Q (fe_offset p) (max (fe_end p) (fe_end e))"
      using "3.prems"(2) pe by (auto intro: merge [where c = "fe_offset e"])
    then have prem2: "\<forall>f \<in> set (?p # merged) \<union> set es. fe_end f < u64_max \<and> Q (fe_offset f) (fe_end f)"
      using "3.prems"(2) p' by (auto simp: max_def)
    have prem3: "sorted_wrt (\<lambda>f g. fe_end g < fe_offset f) (?p # merged)"
      using "3.prems"(3) by simp
    have prem4: "\<forall>q \<in> set (?p # merged). \<forall>x \<in> set es. fe_offset q \<le> fe_offset x"
      using "3.prems"(4) by simp
    have prem1: "sorted (map fe_offset es)" using "3.prems"(1) by simp
    have loop: "coalesce_loop (p # merged) (e # es) = coalesce_loop (?p # merged) es"
      using True by (simp add: ends)
    have IH: "(\<Union>f \<in> set (coalesce_loop (?p # merged) es). fe_bytes f)
           = (\<Union>f \<in> set (?p # merged) \<union> set es. fe_bytes f)
       \<and> sorted_wrt (\<lambda>f g. fe_end f < fe_offset g) (coalesce_loop (?p # merged) es)
       \<and> (\<forall>f \<in> set (coalesce_loop (?p # merged) es). Q (fe_offset f) (fe_end f))"
      using "3.IH"(1) True prem1 prem2 prem3 prem4 by (simp add: ends)
    have "fe_bytes ?p = fe_bytes p \<union> fe_bytes e" using pe True by (rule fe_bytes_merge)
    then show ?thesis using IH unfolding loop by auto
  next
    case False
    have "sorted_wrt (\<lambda>f g. fe_end g < fe_offset f) (e # p # merged)"
    proof -
      have "fe_end q < fe_offset e" if "q \<in> set merged" for q
      proof -
        have "fe_end q < fe_offset p" using "3.prems"(3) that by simp
        then show ?thesis using pe by simp
      qed
      then show ?thesis using False "3.prems"(3) by simp
    qed
    moreover have "\<forall>q \<in> set (e # p # merged). \<forall>x \<in> set es. fe_offset q \<le> fe_offset x"
      using "3.prems"(1,4) by simp
    ultimately have "(\<Union>f \<in> set (coalesce_loop (e # p # merged) es). fe_bytes f)
           = (\<Union>f \<in> set (e # p # merged) \<union> set es. fe_bytes f)
       \<and> sorted_wrt (\<lambda>f g. fe_end f < fe_offset g) (coalesce_loop (e # p # merged) es)
       \<and> (\<forall>f \<in> set (coalesce_loop (e # p # merged) es). Q (fe_offset f) (fe_end f))"
      using "3.IH"(2) False "3.prems"(1,2) by (simp add: ends)
    moreover have "coalesce_loop (p # merged) (e # es) = coalesce_loop (e # p # merged) es"
      using False by (simp add: ends)
    ultimately show ?thesis by auto
  qed
qed

lemma coalesce_fields [simp]:
  "data_start (coalesce st) = data_start st" "data_end (coalesce st) = data_end st"
  "next_offset (coalesce st) = next_offset st" "alloc_block (coalesce st) = alloc_block st"
  by (simp_all add: coalesce_def)

lemma coalesce_correct:
  assumes "\<forall>f \<in> set (free_extents st). fe_end f < u64_max \<and> Q (fe_offset f) (fe_end f)"
    and "\<And>a b c d. Q a b \<Longrightarrow> Q c d \<Longrightarrow> a \<le> c \<Longrightarrow> Q a (max b d)"
  shows "free_space (coalesce st) = free_space st"
    and "sorted_wrt (\<lambda>f g. fe_end f < fe_offset g) (free_extents (coalesce st))"
    and "\<forall>f \<in> set (free_extents (coalesce st)). Q (fe_offset f) (fe_end f)"
  using coalesce_loop_correct [of "sort_key fe_offset (free_extents st)" "[]" Q] assms
  by (simp_all add: coalesce_def free_space_def)

subsection \<open>Allocation\<close>

text \<open>Taking the front of one free extent keeps the list separated and removes exactly those bytes.\<close>

lemma fe_separated_append:
  "fe_separated (as @ bs) \<longleftrightarrow>
     fe_separated as \<and> fe_separated bs \<and> (\<forall>a \<in> set as. \<forall>b \<in> set bs. fe_end a \<le> fe_offset b)"
  by (auto simp: fe_separated_def sorted_wrt_append)

lemma fe_separated_Cons:
  "fe_separated (a # bs) \<longleftrightarrow> fe_separated bs \<and> (\<forall>b \<in> set bs. fe_end a \<le> fe_offset b)"
  by (auto simp: fe_separated_def)

lemma separated_bytes_disjoint:
  assumes "fe_separated (as @ f # bs)"
  shows "(\<Union>x \<in> set as \<union> set bs. fe_bytes x) \<inter> fe_bytes f = {}"
  using assms by (fastforce simp: fe_separated_append fe_separated_Cons fe_bytes_def)

definition fe_rest :: "raw_free_extent \<Rightarrow> nat \<Rightarrow> raw_free_extent list" where
  "fe_rest f n = (if fe_length f = n then []
                  else [\<lparr>fe_offset = fe_offset f + n, fe_length = fe_length f - n\<rparr>])"

lemma take_front_space:
  assumes sep: "fe_separated (as @ f # bs)" and n: "n \<le> fe_length f"
  shows "(\<Union>x \<in> set (as @ fe_rest f n @ bs). fe_bytes x)
           = (\<Union>x \<in> set (as @ f # bs). fe_bytes x) - {fe_offset f ..< fe_offset f + n}"
    and "fe_separated (as @ fe_rest f n @ bs)"
proof -
  have r: "(\<Union>x \<in> set (fe_rest f n). fe_bytes x) = fe_bytes f - {fe_offset f ..< fe_offset f + n}"
    using n by (auto simp: fe_rest_def fe_bytes_def fe_end_def)
  have sub: "{fe_offset f ..< fe_offset f + n} \<subseteq> fe_bytes f"
    using n by (auto simp: fe_bytes_def fe_end_def)
  show "(\<Union>x \<in> set (as @ fe_rest f n @ bs). fe_bytes x)
           = (\<Union>x \<in> set (as @ f # bs). fe_bytes x) - {fe_offset f ..< fe_offset f + n}"
    using separated_bytes_disjoint [OF sep] sub r by auto
  show "fe_separated (as @ fe_rest f n @ bs)"
    using sep n by (auto simp: fe_rest_def fe_separated_append fe_separated_Cons fe_end_def fe_separated_def [of "[]"])
qed

definition alloc_len :: "raw_allocator_state \<Rightarrow> nat \<Rightarrow> nat" where
  "alloc_len st n = align_up (max n 1) (alloc_block st)"

definition fits :: "raw_allocator_state \<Rightarrow> nat \<Rightarrow> raw_free_extent \<Rightarrow> bool" where
  "fits st n f \<longleftrightarrow> alloc_len st n \<le> fe_length f \<and> fe_offset f mod alloc_block st = 0"

lemmas allocate_alt = allocate_def [unfolded Let_def, folded alloc_block_def,
    folded alloc_len_def, folded fits_def]

text \<open>The two ways \<open>allocate\<close> succeeds.\<close>

lemma allocate_cases:
  assumes "alloc_inv st" "allocate st d n g = Inr (e, st')"
  obtains
    (reuse) as f bs where "free_extents st = as @ f # bs" "fits st n f"
      "e = \<lparr>ext_disk_id = d, ext_offset = fe_offset f, ext_length = alloc_len st n,
             ext_generation = g, ext_flags = 0\<rparr>"
      "st' = st\<lparr>free_extents := as @ fe_rest f (alloc_len st n) @ bs\<rparr>"
  | (bump) "\<forall>f \<in> set (free_extents st). \<not> fits st n f"
      "next_offset st + alloc_len st n \<le> data_end st"
      "e = \<lparr>ext_disk_id = d, ext_offset = next_offset st, ext_length = alloc_len st n,
             ext_generation = g, ext_flags = 0\<rparr>"
      "st' = st\<lparr>next_offset := next_offset st + alloc_len st n\<rparr>"
proof (cases "position (fits st n) (free_extents st)")
  case None
  have nxt: "align_up (next_offset st) (alloc_block st) = next_offset st"
    using assms(1) by (intro align_up_aligned) (auto simp: alloc_inv_def)
  have none: "\<forall>f \<in> set (free_extents st). \<not> fits st n f"
    using None by (simp add: position_None_iff)
  have eq: "allocate st d n g =
    (case checked_add (next_offset st) (alloc_len st n) of
       None \<Rightarrow> Inl Invalid
     | Some end_off \<Rightarrow>
         if data_end st < end_off then Inl (DiskFull d (alloc_len st n) (data_end st - next_offset st))
         else Inr (\<lparr>ext_disk_id = d, ext_offset = next_offset st, ext_length = alloc_len st n,
                     ext_generation = g, ext_flags = 0\<rparr>, st\<lparr>next_offset := end_off\<rparr>))"
    using None nxt
    by (simp add: allocate_alt split: option.split)
  show thesis
    using assms(2) none by (intro bump) (auto simp: eq split: option.splits if_splits)
next
  case (Some i)
  let ?f = "free_extents st ! i"
  have i: "i < length (free_extents st)" and fit: "fits st n ?f"
    using Some by (auto simp: position_Some_iff)
  have mem: "?f \<in> set (free_extents st)" using i by simp
  have "fe_end ?f < u64_max" using assms(1) mem by (force simp: alloc_inv_def)
  then have sat: "sat_add (fe_offset ?f) (alloc_len st n) = fe_offset ?f + alloc_len st n"
    using fit by (simp add: fe_end_def fits_def sat_add_def)
  let ?frees = "take i (free_extents st) @ fe_rest ?f (alloc_len st n) @ drop (Suc i) (free_extents st)"
  have "allocate st d n g =
     Inr (\<lparr>ext_disk_id = d, ext_offset = fe_offset ?f, ext_length = alloc_len st n,
            ext_generation = g, ext_flags = 0\<rparr>, st\<lparr>free_extents := ?frees\<rparr>)"
    using Some i sat
    by (simp add: allocate_alt fe_rest_def remove_nth_def upd_conv_take_nth_drop)
  then show thesis
    using assms(2) fit split_at_nth [OF i] by (intro reuse) auto
qed

lemma alloc_len_fits:
  assumes "alloc_inv st" "alloc_len st n \<le> m" "m < u64_max"
  shows "n \<le> alloc_len st n" "0 < alloc_len st n" "alloc_block st dvd alloc_len st n"
proof -
  have "alloc_len st n < u64_max" using assms by simp
  then have "max n 1 \<le> alloc_len st n" "alloc_block st dvd alloc_len st n"
    unfolding alloc_len_def by (rule align_up_ge [OF alloc_block_pos], rule align_up_dvd [OF alloc_block_pos])
  then show "n \<le> alloc_len st n" "0 < alloc_len st n" "alloc_block st dvd alloc_len st n" by auto
qed

lemma allocate_correct:
  assumes inv: "alloc_inv st" and ok: "allocate st d n g = Inr (e, st')"
  shows "alloc_inv st'" and "extent_valid st' e" and "n \<le> ext_length e"
    and "ext_bytes e \<subseteq> free_space st" and "free_space st' = free_space st - ext_bytes e"
    and "ext_generation e = g" and "ext_disk_id e = d"
    and "data_start st' = data_start st" "data_end st' = data_end st" "alloc_block st' = alloc_block st"
    and "next_offset st \<le> next_offset st'"
proof -
  let ?n = "alloc_len st n"
  have "alloc_inv st' \<and> extent_valid st' e \<and> n \<le> ext_length e \<and> ext_bytes e \<subseteq> free_space st
      \<and> free_space st' = free_space st - ext_bytes e \<and> ext_generation e = g \<and> ext_disk_id e = d
      \<and> data_start st' = data_start st \<and> data_end st' = data_end st
      \<and> alloc_block st' = alloc_block st \<and> next_offset st \<le> next_offset st'"
    using inv ok
  proof (cases rule: allocate_cases)
    case (reuse as f bs)
    have f: "?n \<le> fe_length f" "fe_length f < u64_max" "fe_end f \<le> next_offset st"
      "alloc_block st dvd fe_offset f" "alloc_block st dvd fe_length f" "data_start st \<le> fe_offset f"
      using inv reuse(1,2) by (auto simp: alloc_inv_def fits_def fe_end_def)
    note n = alloc_len_fits [OF inv f(1,2)]
    have sep: "fe_separated (as @ f # bs)" using inv reuse(1) by (simp add: alloc_inv_def)
    note front = take_front_space [OF sep f(1)]
    have bytes: "{fe_offset f ..< fe_offset f + ?n} \<inter> {next_offset st ..< data_end st} = {}"
      using f by (auto simp: fe_end_def)
    have sub: "{fe_offset f ..< fe_offset f + ?n} \<subseteq> fe_bytes f"
      using f(1) by (auto simp: fe_bytes_def fe_end_def)
    have "alloc_inv st'"
      using inv front(2) reuse(1) f n unfolding reuse(4) alloc_inv_def
      by (auto simp: fe_rest_def fe_end_def split: if_splits)
    moreover have "free_space st' = free_space st - ext_bytes e"
      using front(1) bytes sub unfolding reuse(3,4) free_space_update
      by (auto simp: free_space_def reuse(1) ext_bytes_def)
    moreover have "ext_bytes e \<subseteq> free_space st"
      using sub by (auto simp: ext_bytes_def reuse(1,3) free_space_def)
    ultimately show ?thesis
      using f n inv by (simp add: reuse(3,4) extent_valid_def fe_end_def)
  next
    case bump
    have "?n \<le> data_end st" "data_end st < u64_max"
      using inv bump(2) by (auto simp: alloc_inv_def)
    note n = alloc_len_fits [OF inv this]
    have "(\<Union>f \<in> set (free_extents st). fe_bytes f) \<inter> {next_offset st ..< next_offset st + ?n} = {}"
      using inv by (fastforce simp: alloc_inv_def fe_bytes_def)
    then show ?thesis
      using inv bump(2) n
      by (auto simp: bump(3,4) alloc_inv_def extent_valid_def free_space_def ext_bytes_def)
  qed
  then show "alloc_inv st'" and "extent_valid st' e" and "n \<le> ext_length e"
    and "ext_bytes e \<subseteq> free_space st" and "free_space st' = free_space st - ext_bytes e"
    and "ext_generation e = g" and "ext_disk_id e = d"
    and "data_start st' = data_start st" "data_end st' = data_end st" "alloc_block st' = alloc_block st"
    and "next_offset st \<le> next_offset st'"
    by auto
qed

lemma allocate_Inl_iff:
  assumes "alloc_inv st"
  shows "is_ok (allocate st d n g) \<longleftrightarrow>
           (\<exists>f \<in> set (free_extents st). alloc_len st n \<le> fe_length f)
           \<or> next_offset st + alloc_len st n \<le> data_end st"
proof -
  have al: "fits st n f \<longleftrightarrow> alloc_len st n \<le> fe_length f" if "f \<in> set (free_extents st)" for f
    using assms that by (auto simp: fits_def alloc_inv_def)
  have nxt: "align_up (next_offset st) (alloc_block st) = next_offset st"
    using assms by (intro align_up_aligned) (auto simp: alloc_inv_def)
  have "data_end st < u64_max" using assms by (simp add: alloc_inv_def)
  then show ?thesis
    using al nxt
    by (cases "position (fits st n) (free_extents st)")
       (auto simp: allocate_alt position_None_iff position_Some_iff checked_add_def is_ok_def
          split: option.splits if_splits)
qed

subsection \<open>Release\<close>

lemma fe_separatedI: "sorted_wrt (\<lambda>f g. fe_end f < fe_offset g) fs \<Longrightarrow> fe_separated fs"
  unfolding fe_separated_def by (erule sorted_wrt_mono_rel [rotated]) auto

definition fe_good :: "raw_allocator_state \<Rightarrow> nat \<Rightarrow> nat \<Rightarrow> bool" where
  "fe_good st a b \<longleftrightarrow> a < b \<and> alloc_block st dvd a \<and> alloc_block st dvd b
     \<and> data_start st \<le> a \<and> b \<le> next_offset st"

lemma fe_good_merge: "fe_good st a b \<Longrightarrow> fe_good st c d \<Longrightarrow> a \<le> c \<Longrightarrow> fe_good st a (max b d)"
  by (auto simp: fe_good_def max_def)

lemma fe_good_iff:
  "fe_good st (fe_offset f) (fe_end f) \<longleftrightarrow>
     0 < fe_length f \<and> alloc_block st dvd fe_offset f \<and> alloc_block st dvd fe_length f
     \<and> data_start st \<le> fe_offset f \<and> fe_end f \<le> next_offset st"
  by (auto simp: fe_good_def fe_end_def dvd_add_right_iff)

lemma alloc_inv_iff:
  "alloc_inv st \<longleftrightarrow>
     data_end st < u64_max \<and> data_start st \<le> next_offset st \<and> next_offset st \<le> data_end st
     \<and> alloc_block st dvd next_offset st \<and> fe_separated (free_extents st)
     \<and> (\<forall>f \<in> set (free_extents st). fe_good st (fe_offset f) (fe_end f))"
  unfolding alloc_inv_def fe_good_iff by (rule refl)

lemma free_correct:
  assumes inv: "alloc_inv st" and e: "extent_valid st e"
  shows "\<exists>st'. free st e = Inr st' \<and> alloc_inv st' \<and> free_space st' = free_space st \<union> ext_bytes e
           \<and> data_start st' = data_start st \<and> data_end st' = data_end st
           \<and> next_offset st' = next_offset st \<and> alloc_block st' = alloc_block st"
proof -
  let ?new = "\<lparr>fe_offset = ext_offset e, fe_length = ext_length e\<rparr>"
  let ?st = "st\<lparr>free_extents := free_extents st @ [?new]\<rparr>"
  have top: "next_offset st < u64_max" using inv by (simp add: alloc_inv_def)
  have good: "\<forall>f \<in> set (free_extents ?st). fe_end f < u64_max \<and> fe_good st (fe_offset f) (fe_end f)"
    using inv e top by (auto simp: alloc_inv_iff extent_valid_def fe_good_def fe_end_def)
  note co = coalesce_correct [of ?st "fe_good st", OF good fe_good_merge]
  have eq: "free st e = Inr (coalesce ?st)"
    using e inv by (auto simp: free_def extent_valid_def alloc_inv_def sat_add_def)
  have sep: "fe_separated (free_extents (coalesce ?st))"
    using co(2) by (rule fe_separatedI)
  have "fe_good (coalesce ?st) = fe_good st"
    by (auto simp: fe_good_def fun_eq_iff)
  then have "alloc_inv (coalesce ?st)"
    using inv sep co(3) by (simp add: alloc_inv_iff)
  moreover have "free_space (coalesce ?st) = free_space st \<union> ext_bytes e"
    by (subst co(1)) (auto simp: free_space_def ext_bytes_def fe_bytes_def fe_end_def)
  ultimately show ?thesis by (simp add: eq)
qed

lemma release_failed_write_correct:
  assumes inv: "alloc_inv st" and e: "extent_valid st e" and live: "ext_bytes e \<inter> free_space st = {}"
  shows "alloc_inv (release_failed_write st e)"
    and "free_space (release_failed_write st e) = free_space st \<union> ext_bytes e"
    and "data_start (release_failed_write st e) = data_start st"
    and "data_end (release_failed_write st e) = data_end st"
    and "alloc_block (release_failed_write st e) = alloc_block st"
proof -
  let ?st' = "release_failed_write st e"
  have top: "next_offset st < u64_max" using inv by (simp add: alloc_inv_def)
  have "alloc_inv ?st' \<and> free_space ?st' = free_space st \<union> ext_bytes e
    \<and> data_start ?st' = data_start st \<and> data_end ?st' = data_end st \<and> alloc_block ?st' = alloc_block st"
  proof (cases "ext_offset e + ext_length e = next_offset st")
    case True
    have eq: "?st' = st\<lparr>next_offset := ext_offset e\<rparr>"
      using True top by (simp add: release_failed_write_def sat_add_def)
    have low: "fe_end f \<le> ext_offset e" if f: "f \<in> set (free_extents st)" for f
    proof (rule ccontr)
      assume over: "\<not> fe_end f \<le> ext_offset e"
      have "fe_end f \<le> next_offset st" "fe_offset f < fe_end f" "0 < ext_length e"
        using f inv e by (auto simp: alloc_inv_iff fe_good_def extent_valid_def)
      with over True have "max (fe_offset f) (ext_offset e) \<in> ext_bytes e \<inter> fe_bytes f"
        by (simp add: ext_bytes_def fe_bytes_def)
      then show False using live f by (auto simp: free_space_def)
    qed
    have "alloc_inv ?st'"
      using inv e low True unfolding eq alloc_inv_iff fe_good_def extent_valid_def by simp
    moreover have "free_space ?st' = free_space st \<union> ext_bytes e"
    proof -
      have "{ext_offset e ..< data_end st} = {next_offset st ..< data_end st} \<union> ext_bytes e"
        using True inv by (auto simp: ext_bytes_def alloc_inv_def)
      then show ?thesis unfolding eq free_space_def by auto
    qed
    ultimately show ?thesis by (simp add: eq)
  next
    case False
    have "ext_offset e + ext_length e \<le> next_offset st" using e by (simp add: extent_valid_def)
    then have "sat_add (ext_offset e) (ext_length e) \<noteq> next_offset st"
      using False top by (simp add: sat_add_def)
    moreover obtain st' where "free st e = Inr st'" "alloc_inv st'"
      "free_space st' = free_space st \<union> ext_bytes e" "data_start st' = data_start st"
      "data_end st' = data_end st" "alloc_block st' = alloc_block st"
      using free_correct [OF inv e] by blast
    ultimately show ?thesis by (simp add: release_failed_write_def)
  qed
  then show "alloc_inv ?st'" "free_space ?st' = free_space st \<union> ext_bytes e"
    "data_start ?st' = data_start st" "data_end ?st' = data_end st" "alloc_block ?st' = alloc_block st"
    by auto
qed

section \<open>Validation\<close>

definition span :: "nat \<times> nat \<Rightarrow> nat set" where
  "span p = {fst p ..< fst p + snd p}"

definition disjoint_spans :: "(nat \<times> nat) list \<Rightarrow> bool" where
  "disjoint_spans ps \<longleftrightarrow> sorted_wrt (\<lambda>a b. span a \<inter> span b = {}) ps"

definition spans_in :: "nat \<Rightarrow> nat \<Rightarrow> (nat \<times> nat) list \<Rightarrow> bool" where
  "spans_in start stop ps \<longleftrightarrow> (\<forall>p \<in> set ps. start \<le> fst p \<and> fst p + snd p \<le> stop)"

lemma disjoint_spans_sort [simp]: "disjoint_spans (sort_key k ps) = disjoint_spans ps"
  unfolding disjoint_spans_def by (rule sorted_wrt_perm) (auto simp: symp_def)

lemma spans_in_sort [simp]: "spans_in a b (sort_key k ps) = spans_in a b ps"
  by (simp add: spans_in_def)

lemma span_disjoint_iff:
  assumes "0 < snd a" "0 < snd b" "fst a \<le> fst b"
  shows "span a \<inter> span b = {} \<longleftrightarrow> fst a + snd a \<le> fst b"
proof
  assume "span a \<inter> span b = {}"
  moreover have "fst b \<in> span b" using assms by (simp add: span_def)
  ultimately have "fst b \<notin> span a" by blast
  then show "fst a + snd a \<le> fst b" using assms by (simp add: span_def)
qed (auto simp: span_def)

lemma validate_extents_prev:
  assumes "sorted (map fst ps)" "\<forall>p \<in> set ps. 0 < snd p" "stop < u64_max"
  shows "validate_extents start stop prev ps = Inr () \<longleftrightarrow>
           spans_in start stop ps \<and> disjoint_spans ps \<and> (\<forall>p \<in> set ps. prev \<le> fst p)"
  using assms
proof (induction start stop prev ps rule: validate_extents.induct)
  case (1 start stop prev)
  then show ?case by (simp add: spans_in_def disjoint_spans_def)
next
  case (2 start stop prev off len rest)
  show ?case
  proof (cases "start \<le> off \<and> off + len \<le> stop \<and> prev \<le> off")
    case True
    then have sat: "sat_add off len = off + len" using "2.prems"(3) by (simp add: sat_add_def)
    have "validate_extents start stop (off + len) rest = Inr () \<longleftrightarrow>
        spans_in start stop rest \<and> disjoint_spans rest \<and> (\<forall>p \<in> set rest. off + len \<le> fst p)"
      using "2.IH" True sat "2.prems" by simp
    moreover have "span (off, len) \<inter> span p = {} \<longleftrightarrow> off + len \<le> fst p" if "p \<in> set rest" for p
      using span_disjoint_iff [of "(off, len)" p] "2.prems"(1,2) that by auto
    moreover have "prev \<le> fst p" if "p \<in> set rest" for p
      using "2.prems"(1) True that by (auto intro: order_trans)
    ultimately show ?thesis
      using True by (auto simp: sat spans_in_def disjoint_spans_def)
  next
    case False
    moreover have "stop < sat_add off len \<longleftrightarrow> stop < off + len"
      using "2.prems"(3) by (auto simp: sat_add_def)
    ultimately show ?thesis by (auto simp: spans_in_def)
  qed
qed

lemma validate_extents_iff:
  assumes "\<forall>p \<in> set ps. 0 < snd p" "stop < u64_max"
  shows "validate_extents start stop start (sort_key fst ps) = Inr () \<longleftrightarrow>
           spans_in start stop ps \<and> disjoint_spans ps"
  using validate_extents_prev [of "sort_key fst ps" stop start start] assms
  by (auto simp: spans_in_def)

lemma extent_overlaps_iff:
  assumes "spans_in start stop [a, b]" "stop < u64_max" "0 < snd a" "0 < snd b"
  shows "extent_overlaps a b \<longleftrightarrow> span a \<inter> span b \<noteq> {}"
proof -
  have "extent_overlaps a b \<longleftrightarrow> fst a < fst b + snd b \<and> fst b < fst a + snd a"
    using assms by (simp add: extent_overlaps_def spans_in_def sat_add_def)
  also have "\<dots> \<longleftrightarrow> span a \<inter> span b \<noteq> {}"
    using span_disjoint_iff [of a b] span_disjoint_iff [of b a] assms(3,4)
    by (cases "fst a \<le> fst b") (auto simp: Int_commute)
  finally show ?thesis .
qed

abbreviation ext_pair :: "physical_extent \<Rightarrow> nat \<times> nat" where
  "ext_pair e \<equiv> (ext_offset e, ext_length e)"

abbreviation fe_pair :: "raw_free_extent \<Rightarrow> nat \<times> nat" where
  "fe_pair f \<equiv> (fe_offset f, fe_length f)"

lemma validate_allocations_exact:
  assumes "data_end st < u64_max"
    and "\<forall>e \<in> set es. 0 < ext_length e" "\<forall>f \<in> set (free_extents st). 0 < fe_length f"
  shows "validate_allocations st es = Inr () \<longleftrightarrow>
           spans_in (data_start st) (data_end st) (map ext_pair es @ map fe_pair (free_extents st))
           \<and> disjoint_spans (map ext_pair es @ map fe_pair (free_extents st))"
proof -
  let ?as = "map ext_pair es" and ?fs = "map fe_pair (free_extents st)"
  have pos: "\<forall>p \<in> set ?as. 0 < snd p" "\<forall>p \<in> set ?fs. 0 < snd p" using assms(2,3) by auto
  have app: "spans_in (data_start st) (data_end st) (?as @ ?fs) \<longleftrightarrow>
      spans_in (data_start st) (data_end st) ?as \<and> spans_in (data_start st) (data_end st) ?fs"
    by (simp add: spans_in_def ball_Un)
  have cross: "disjoint_spans (?as @ ?fs) \<longleftrightarrow> disjoint_spans ?as \<and> disjoint_spans ?fs
      \<and> (\<forall>a \<in> set ?as. \<forall>f \<in> set ?fs. span a \<inter> span f = {})"
    by (simp add: disjoint_spans_def sorted_wrt_append)
  have over: "extent_overlaps a f \<longleftrightarrow> span a \<inter> span f \<noteq> {}"
    if "spans_in (data_start st) (data_end st) ?as" "spans_in (data_start st) (data_end st) ?fs"
      "a \<in> set ?as" "f \<in> set ?fs" for a f
    using that pos
    by (intro extent_overlaps_iff [OF _ assms(1), of "data_start st"]) (auto simp: spans_in_def)
  note val = validate_extents_iff [OF pos(1) assms(1), of "data_start st"]
    validate_extents_iff [OF pos(2) assms(1), of "data_start st"]
  have scan: "(\<exists>a \<in> set ?as. \<exists>f \<in> set ?fs. extent_overlaps a f)
      \<longleftrightarrow> \<not> (\<forall>a \<in> set ?as. \<forall>f \<in> set ?fs. span a \<inter> span f = {})"
    if "spans_in (data_start st) (data_end st) ?as" "spans_in (data_start st) (data_end st) ?fs"
    using over [OF that] by blast
  have "validate_allocations st es = Inr () \<longleftrightarrow>
      spans_in (data_start st) (data_end st) ?as \<and> disjoint_spans ?as
      \<and> spans_in (data_start st) (data_end st) ?fs \<and> disjoint_spans ?fs
      \<and> \<not> (\<exists>a \<in> set ?as. \<exists>f \<in> set ?fs. extent_overlaps a f)"
    unfolding validate_allocations_def Let_def rbind_eq_Inr_iff by (auto simp: val)
  then show ?thesis using scan unfolding app cross by blast
qed

section \<open>The allocator as an interface\<close>

text \<open>
  What the raw store relies on: an allocation takes its bytes out of the free space, a
  release of a live extent puts exactly its bytes back, and both keep every other live extent
  inside the region the allocator manages.
\<close>

locale space_allocator =
  fixes inv :: "'s \<Rightarrow> bool"
    and space :: "'s \<Rightarrow> nat set"
    and valid :: "'s \<Rightarrow> 'e \<Rightarrow> bool"
    and bytes :: "'e \<Rightarrow> nat set"
    and alloc :: "'s \<Rightarrow> 'r \<Rightarrow> 'e \<Rightarrow> 's \<Rightarrow> bool"
    and release :: "'s \<Rightarrow> 'e \<Rightarrow> 's \<Rightarrow> bool"
  assumes alloc_inv: "inv s \<Longrightarrow> alloc s r e s' \<Longrightarrow> inv s'"
    and alloc_valid: "inv s \<Longrightarrow> alloc s r e s' \<Longrightarrow> valid s' e"
    and alloc_from: "inv s \<Longrightarrow> alloc s r e s' \<Longrightarrow> bytes e \<subseteq> space s"
    and alloc_space: "inv s \<Longrightarrow> alloc s r e s' \<Longrightarrow> space s' = space s - bytes e"
    and alloc_keeps: "inv s \<Longrightarrow> alloc s r e s' \<Longrightarrow> valid s x \<Longrightarrow> valid s' x"
    and release_inv:
      "inv s \<Longrightarrow> valid s e \<Longrightarrow> bytes e \<inter> space s = {} \<Longrightarrow> release s e s' \<Longrightarrow> inv s'"
    and release_space:
      "inv s \<Longrightarrow> valid s e \<Longrightarrow> bytes e \<inter> space s = {} \<Longrightarrow> release s e s'
        \<Longrightarrow> space s' = space s \<union> bytes e"
    and release_keeps:
      "inv s \<Longrightarrow> valid s e \<Longrightarrow> bytes e \<inter> space s = {} \<Longrightarrow> release s e s'
        \<Longrightarrow> valid s x \<Longrightarrow> bytes x \<inter> bytes e = {} \<Longrightarrow> valid s' x"
begin

definition live_ok :: "nat set \<Rightarrow> 's \<Rightarrow> 'e list \<Rightarrow> bool" where
  "live_ok whole s live \<longleftrightarrow>
     inv s \<and> (\<forall>e \<in> set live. valid s e \<and> bytes e \<inter> space s = {})
     \<and> sorted_wrt (\<lambda>a b. bytes a \<inter> bytes b = {}) live
     \<and> space s \<union> (\<Union>e \<in> set live. bytes e) = whole"

lemma live_ok_alloc:
  assumes "live_ok whole s live" "alloc s r e s'"
  shows "live_ok whole s' (e # live)"
proof -
  have inv: "inv s" using assms(1) by (simp add: live_ok_def)
  note laws = alloc_inv [OF inv assms(2)] alloc_valid [OF inv assms(2)] alloc_from [OF inv assms(2)]
    alloc_space [OF inv assms(2)]
  have disj: "bytes x \<inter> space s = {}" if "x \<in> set live" for x
    using assms(1) that by (simp add: live_ok_def)
  then have "bytes e \<inter> bytes x = {}" "bytes x \<inter> space s' = {}" if "x \<in> set live" for x
    using that laws(3,4) by blast+
  moreover have "valid s' x" if "x \<in> set live" for x
    using assms(1) that by (intro alloc_keeps [OF inv assms(2)]) (simp add: live_ok_def)
  moreover have "space s' \<union> (\<Union>x \<in> set (e # live). bytes x) = whole"
    using assms(1) laws(3,4) by (auto simp: live_ok_def)
  ultimately show ?thesis
    using assms(1) laws by (auto simp: live_ok_def)
qed

lemma live_ok_release:
  assumes ok: "live_ok whole s (as @ e # bs)" and rel: "release s e s'"
  shows "live_ok whole s' (as @ bs)"
proof -
  have inv: "inv s" and val: "valid s e" and out: "bytes e \<inter> space s = {}"
    using ok by (auto simp: live_ok_def)
  have "symp (\<lambda>a b. bytes a \<inter> bytes b = {})" by (auto simp: symp_def)
  from sorted_wrt_sym_insert [OF this, of as e bs] ok
  have pair: "sorted_wrt (\<lambda>a b. bytes a \<inter> bytes b = {}) (as @ bs)"
    and others: "\<forall>x \<in> set (as @ bs). bytes e \<inter> bytes x = {}"
    by (auto simp: live_ok_def)
  have "valid s' x \<and> bytes x \<inter> space s' = {}" if "x \<in> set (as @ bs)" for x
  proof -
    have x: "valid s x" "bytes x \<inter> space s = {}" "bytes x \<inter> bytes e = {}"
      using ok that others by (auto simp: live_ok_def)
    then show ?thesis
      using release_keeps [OF inv val out rel x(1,3)] release_space [OF inv val out rel] by auto
  qed
  moreover have "space s' \<union> (\<Union>x \<in> set (as @ bs). bytes x) = whole"
    using ok by (auto simp: live_ok_def release_space [OF inv val out rel])
  ultimately show ?thesis
    using pair release_inv [OF inv val out rel] unfolding live_ok_def by blast
qed

end

lemma extent_valid_cong:
  "next_offset st \<le> next_offset st' \<Longrightarrow> data_start st' = data_start st
    \<Longrightarrow> alloc_block st' = alloc_block st \<Longrightarrow> extent_valid st x \<Longrightarrow> extent_valid st' x"
  by (simp add: extent_valid_def)

lemma release_failed_write_keeps:
  assumes "extent_valid st e" "extent_valid st x" "ext_bytes x \<inter> ext_bytes e = {}" "alloc_inv st"
  shows "extent_valid (release_failed_write st e) x"
proof (cases "sat_add (ext_offset e) (ext_length e) = next_offset st")
  case True
  then have end_e: "ext_offset e + ext_length e = next_offset st"
    using assms(1,4) by (simp add: extent_valid_def alloc_inv_def sat_add_def)
  have pos: "0 < ext_length e" "0 < ext_length x" "ext_offset x + ext_length x \<le> next_offset st"
    using assms(1,2) by (simp_all add: extent_valid_def)
  have "ext_offset x + ext_length x \<le> ext_offset e"
  proof (rule ccontr)
    assume "\<not> ?thesis"
    then have "max (ext_offset x) (ext_offset e) \<in> ext_bytes x \<inter> ext_bytes e"
      using end_e pos by (simp add: ext_bytes_def)
    then show False using assms(3) by simp
  qed
  then show ?thesis
    using True assms(2) by (simp add: release_failed_write_def extent_valid_def)
next
  case False
  then show ?thesis
    using free_correct [OF assms(4,1)] assms(2)
    by (auto simp: release_failed_write_def intro: extent_valid_cong [of st])
qed

interpretation raw: space_allocator alloc_inv free_space extent_valid ext_bytes
  "\<lambda>st (d, n, g) e st'. allocate st d n g = Inr (e, st')" "\<lambda>st e st'. free st e = Inr st'"
proof (unfold_locales, goal_cases)
  case (6 s e s')
  then show ?case using free_correct [of s e] by auto
next
  case (7 s e s')
  then show ?case using free_correct [of s e] by auto
next
  case (8 s e s' x)
  then show ?case using free_correct [of s e] by (auto intro: extent_valid_cong [of s])
next
  case (5 s r e s' x)
  then show ?case
    by (cases r) (auto intro: extent_valid_cong [of s] simp: allocate_correct)
qed (auto simp: allocate_correct dest: allocate_correct(4))

interpretation rollback: space_allocator alloc_inv free_space extent_valid ext_bytes
  "\<lambda>st (d, n, g) e st'. allocate st d n g = Inr (e, st')" "\<lambda>st e st'. st' = release_failed_write st e"
proof (unfold_locales, goal_cases)
  case (1 s r e s')
  then show ?case by (rule raw.alloc_inv)
next
  case (2 s r e s')
  then show ?case by (rule raw.alloc_valid)
next
  case (3 s r e s')
  then show ?case by (rule raw.alloc_from)
next
  case (4 s r e s')
  then show ?case by (rule raw.alloc_space)
next
  case (5 s r e s' x)
  then show ?case by (rule raw.alloc_keeps)
qed (simp_all add: release_failed_write_correct release_failed_write_keeps)

section \<open>Histories\<close>

text \<open>
  The states a device's allocator goes through, with the extents its shards hold: allocations,
  frees of extents no shard uses any more, and rollbacks of failed writes.
\<close>

inductive alloc_history ::
  "raw_allocator_state \<Rightarrow> raw_allocator_state \<Rightarrow> physical_extent list \<Rightarrow> bool"
  for st0 where
  init: "alloc_history st0 st0 []"
| alloc: "alloc_history st0 st live \<Longrightarrow> allocate st d n g = Inr (e, st')
    \<Longrightarrow> alloc_history st0 st' (e # live)"
| free: "alloc_history st0 st (as @ e # bs) \<Longrightarrow> free st e = Inr st'
    \<Longrightarrow> alloc_history st0 st' (as @ bs)"
| rollback: "alloc_history st0 st (as @ e # bs)
    \<Longrightarrow> alloc_history st0 (release_failed_write st e) (as @ bs)"

lemma alloc_history_live_ok:
  assumes "alloc_inv st0" "alloc_history st0 st live"
  shows "raw.live_ok (free_space st0) st live"
  using assms(2)
proof (induction rule: alloc_history.induct)
  case init
  then show ?case using assms(1) by (simp add: raw.live_ok_def)
next
  case (alloc st live d n g e st')
  then show ?case using raw.live_ok_alloc [of _ st live "(d, n, g)" e st'] by simp
next
  case (free st as e bs st')
  show ?case by (rule raw.live_ok_release [OF free.IH free.hyps(2)])
next
  case (rollback st as e bs)
  show ?case by (rule rollback.live_ok_release [OF rollback.IH refl])
qed

lemma live_ok_validates:
  assumes "raw.live_ok whole st live"
  shows "validate_allocations st live = Inr ()"
proof -
  have inv: "alloc_inv st" and live: "\<forall>e \<in> set live. extent_valid st e \<and> ext_bytes e \<inter> free_space st = {}"
    and pair: "sorted_wrt (\<lambda>a b. ext_bytes a \<inter> ext_bytes b = {}) live"
    using assms by (auto simp: raw.live_ok_def)
  have spans: "span (ext_pair e) = ext_bytes e" "span (fe_pair f) = fe_bytes f" for e f
    by (auto simp: span_def ext_bytes_def fe_bytes_def fe_end_def)
  have "sorted_wrt (\<lambda>f g. fe_bytes f \<inter> fe_bytes g = {}) (free_extents st)"
    using inv unfolding alloc_inv_def fe_separated_def
    by (auto elim!: sorted_wrt_mono_rel [rotated] simp: fe_bytes_def)
  moreover have "ext_bytes e \<inter> fe_bytes f = {}" if "e \<in> set live" "f \<in> set (free_extents st)" for e f
    using live that by (fastforce simp: free_space_def)
  ultimately have "disjoint_spans (map ext_pair live @ map fe_pair (free_extents st))"
    using pair by (simp add: disjoint_spans_def sorted_wrt_append sorted_wrt_map spans)
  moreover have "spans_in (data_start st) (data_end st) (map ext_pair live @ map fe_pair (free_extents st))"
  proof -
    have "data_start st \<le> ext_offset e \<and> ext_offset e + ext_length e \<le> data_end st" if "e \<in> set live" for e
      using live that inv by (force simp: extent_valid_def alloc_inv_iff dest: order_trans)
    moreover have "data_start st \<le> fe_offset f \<and> fe_end f \<le> data_end st"
      if "f \<in> set (free_extents st)" for f
      using that inv by (force simp: fe_good_def alloc_inv_iff dest: order_trans)
    ultimately show ?thesis by (auto simp: spans_in_def fe_end_def)
  qed
  moreover have "\<forall>e \<in> set live. 0 < ext_length e" "\<forall>f \<in> set (free_extents st). 0 < fe_length f"
    "data_end st < u64_max"
    using inv live by (auto simp: alloc_inv_def extent_valid_def)
  ultimately show ?thesis by (simp add: validate_allocations_exact)
qed

section \<open>Properties\<close>

text \<open>C4. Whatever sequence of allocations, frees and write rollbacks a device has seen, the
  extents its shards hold are pairwise disjoint and disjoint from the free space, no byte has
  leaked (free space and live extents make up the initial free space), and the consistency
  check \<open>validate_allocations\<close> that a mount runs accepts the state.\<close>

theorem alloc_history_safe:
  assumes "alloc_inv st0" "alloc_history st0 st live"
  shows "alloc_inv st
    \<and> sorted_wrt (\<lambda>a b. ext_bytes a \<inter> ext_bytes b = {}) live
    \<and> (\<forall>e \<in> set live. ext_bytes e \<inter> free_space st = {})
    \<and> free_space st \<union> (\<Union>e \<in> set live. ext_bytes e) = free_space st0
    \<and> validate_allocations st live = Inr ()"
proof -
  note ok = alloc_history_live_ok [OF assms]
  show ?thesis
    using ok live_ok_validates [OF ok] unfolding raw.live_ok_def by blast
qed

definition demo_extent :: "nat \<Rightarrow> nat \<Rightarrow> nat \<Rightarrow> physical_extent" where
  "demo_extent off len g =
     \<lparr>ext_disk_id = ''d0'', ext_offset = off, ext_length = len, ext_generation = g, ext_flags = 0\<rparr>"

definition demo_state :: "nat \<Rightarrow> raw_free_extent list \<Rightarrow> raw_allocator_state" where
  "demo_state nxt fs = \<lparr>block_size = 512, data_start = 8192, data_end = 49152, next_offset = nxt,
     free_extents = fs\<rparr>"

lemmas alloc_eval = demo_state_def demo_extent_def allocate_def free_def coalesce_def align_up_def
  div_ceil_def sat_mul_def sat_add_def checked_add_def u64_max_def Let_def alloc_inv_def alloc_block_def
  fe_separated_def fe_end_def extent_valid_def

lemma demo_history:
  "alloc_inv (demo_state 8192 [])"
  "alloc_history (demo_state 8192 [])
     (demo_state 20480 [\<lparr>fe_offset = 8192, fe_length = 8192\<rparr>]) [demo_extent 16384 4096 2]"
proof -
  show "alloc_inv (demo_state 8192 [])" by (simp add: alloc_eval)
  have "allocate (demo_state 8192 []) ''d0'' 5000 1 = Inr (demo_extent 8192 8192 1, demo_state 16384 [])"
    "allocate (demo_state 16384 []) ''d0'' 7 2 = Inr (demo_extent 16384 4096 2, demo_state 20480 [])"
    "free (demo_state 20480 []) (demo_extent 8192 8192 1)
      = Inr (demo_state 20480 [\<lparr>fe_offset = 8192, fe_length = 8192\<rparr>])"
    by (simp_all add: alloc_eval)
  note steps = this
  have "alloc_history (demo_state 8192 []) (demo_state 20480 [])
      [demo_extent 16384 4096 2, demo_extent 8192 8192 1]"
    using steps(1,2) by (meson alloc_history.intros)
  then show "alloc_history (demo_state 8192 [])
     (demo_state 20480 [\<lparr>fe_offset = 8192, fe_length = 8192\<rparr>]) [demo_extent 16384 4096 2]"
    using alloc_history.free [of "demo_state 8192 []" "demo_state 20480 []" "[demo_extent 16384 4096 2]"
        "demo_extent 8192 8192 1" "[]"] steps(3) by simp
qed

theorem alloc_history_safe_witness:
  "validate_allocations (demo_state 20480 [\<lparr>fe_offset = 8192, fe_length = 8192\<rparr>])
     [demo_extent 16384 4096 2] = Inr ()"
  using alloc_history_safe [OF demo_history] by blast



text \<open>C16. Freeing an extent the allocator handed out always succeeds, keeps the invariant (the
  free list stays sorted, merged and aligned) and adds exactly the bytes of the extent to the
  free space.\<close>

theorem free_spec:
  assumes "alloc_inv st" "extent_valid st e"
  shows "\<exists>st'. free st e = Inr st' \<and> alloc_inv st' \<and> free_space st' = free_space st \<union> ext_bytes e
           \<and> next_offset st' = next_offset st"
  using free_correct [OF assms] by blast

theorem free_spec_witness:
  "\<exists>st'. free (demo_state 20480 [\<lparr>fe_offset = 8192, fe_length = 4096\<rparr>]) (demo_extent 12288 4096 3) = Inr st'
     \<and> alloc_inv st'"
proof -
  have "alloc_inv (demo_state 20480 [\<lparr>fe_offset = 8192, fe_length = 4096\<rparr>])"
    "extent_valid (demo_state 20480 [\<lparr>fe_offset = 8192, fe_length = 4096\<rparr>]) (demo_extent 12288 4096 3)"
    by (simp_all add: alloc_eval)
  then show ?thesis using free_spec by blast
qed

text \<open>C17. \<open>validate_allocations\<close> is exact: with non-empty extents in a region below the largest
  offset, it accepts a state exactly when every live and free extent lies in the data region
  and no two of them share a byte.\<close>

theorem validate_allocations_iff:
  assumes "data_end st < u64_max"
    and "\<forall>e \<in> set es. 0 < ext_length e" "\<forall>f \<in> set (free_extents st). 0 < fe_length f"
  shows "validate_allocations st es = Inr () \<longleftrightarrow>
     (let ps = map ext_pair es @ map fe_pair (free_extents st)
      in spans_in (data_start st) (data_end st) ps \<and> disjoint_spans ps)"
  unfolding Let_def by (rule validate_allocations_exact [OF assms])

theorem validate_allocations_iff_witness:
  "validate_allocations (demo_state 20480 [\<lparr>fe_offset = 8192, fe_length = 8192\<rparr>])
     [demo_extent 16384 4096 2, demo_extent 18432 2048 2] \<noteq> Inr ()"
proof -
  have "18432 \<in> span (16384, 4096) \<inter> span (18432, 2048)" by (simp add: span_def)
  then have "\<not> disjoint_spans [(16384, 4096), (18432, 2048), (8192, 8192)]"
    by (auto simp: disjoint_spans_def)
  then show ?thesis
    using validate_allocations_iff [of "demo_state 20480 [\<lparr>fe_offset = 8192, fe_length = 8192\<rparr>]"
        "[demo_extent 16384 4096 2, demo_extent 18432 2048 2]"]
    by (simp add: demo_state_def demo_extent_def u64_max_def Let_def)
qed

end
