(* ===== verification/Argos_BTree.thy ===== *)
theory Argos_BTree
  imports Argos_Prelude
begin

text \<open>
  \<open>std::collections::BTreeMap\<close> and \<open>BTreeSet\<close> as the crate uses them: an association
  list whose keys are strictly increasing, so that iteration order is the list order.
  The interface the components rely on is the locale \<open>ordered_map\<close>; its interpretation
  at the end discharges it for the list model.
\<close>

type_synonym ('k, 'v) btree = "('k \<times> 'v) list"

section \<open>Operations\<close>

abbreviation bt_get :: "('k, 'v) btree \<Rightarrow> 'k \<Rightarrow> 'v option" where
  "bt_get m \<equiv> map_of m"

fun bt_insert :: "'k::linorder \<Rightarrow> 'v \<Rightarrow> ('k, 'v) btree \<Rightarrow> ('k, 'v) btree" where
  "bt_insert k v [] = [(k, v)]"
| "bt_insert k v ((k', v') # m) =
     (if k < k' then (k, v) # (k', v') # m
      else if k = k' then (k, v) # m
      else (k', v') # bt_insert k v m)"

definition bt_remove :: "'k \<Rightarrow> ('k, 'v) btree \<Rightarrow> ('k, 'v) btree" where
  "bt_remove k m = filter (\<lambda>(k', _). k' \<noteq> k) m"

definition bt_contains :: "'k \<Rightarrow> ('k, 'v) btree \<Rightarrow> bool" where
  "bt_contains k m \<longleftrightarrow> map_of m k \<noteq> None"

abbreviation bt_keys :: "('k, 'v) btree \<Rightarrow> 'k list" where
  "bt_keys m \<equiv> map fst m"

abbreviation bt_values :: "('k, 'v) btree \<Rightarrow> 'v list" where
  "bt_values m \<equiv> map snd m"

definition bt_ok :: "('k::linorder, 'v) btree \<Rightarrow> bool" where
  "bt_ok m \<longleftrightarrow> sorted_wrt (<) (map fst m)"

text \<open>\<open>get_mut\<close> followed by an assignment through the reference.\<close>

definition bt_update :: "'k::linorder \<Rightarrow> ('v \<Rightarrow> 'v) \<Rightarrow> ('k, 'v) btree \<Rightarrow> ('k, 'v) btree" where
  "bt_update k f m = (case map_of m k of None \<Rightarrow> m | Some v \<Rightarrow> bt_insert k (f v) m)"

text \<open>\<open>BTreeSet\<close>: the sorted list of its elements.\<close>

fun bs_insert :: "'k::linorder \<Rightarrow> 'k list \<Rightarrow> 'k list" where
  "bs_insert k [] = [k]"
| "bs_insert k (k' # s) = (if k < k' then k # k' # s else if k = k' then k' # s
                           else k' # bs_insert k s)"

text \<open>Inserting the pairs of a sequence one after another, and \<open>entry(k).or_default()\<close> changed
  through the reference by \<open>f\<close>.\<close>

definition insert_all :: "('k::linorder \<times> 'v) list \<Rightarrow> ('k, 'v) btree \<Rightarrow> ('k, 'v) btree" where
  "insert_all xs m = fold (\<lambda>(k, v). bt_insert k v) xs m"

definition entry_or_default ::
  "'k::linorder \<Rightarrow> ('v list \<Rightarrow> 'v list) \<Rightarrow> ('k, 'v list) btree \<Rightarrow> ('k, 'v list) btree" where
  "entry_or_default k f m = bt_insert k (f (case map_of m k of Some v \<Rightarrow> v | None \<Rightarrow> [])) m"

section \<open>Facts\<close>

lemma bt_ok_Nil [simp]: "bt_ok []"
  by (simp add: bt_ok_def)

lemma bt_ok_Cons: "bt_ok ((k, v) # m) \<longleftrightarrow> (\<forall>k' \<in> fst ` set m. k < k') \<and> bt_ok m"
  by (auto simp: bt_ok_def)

lemma bt_ok_distinct: "bt_ok m \<Longrightarrow> distinct (map fst m)"
  unfolding bt_ok_def by (simp add: strict_sorted_iff)

lemma set_bt_insert: "fst ` set (bt_insert k v m) = insert k (fst ` set m)"
  by (induction k v m rule: bt_insert.induct) auto

lemma bt_ok_insert [simp]: "bt_ok m \<Longrightarrow> bt_ok (bt_insert k v m)"
  by (induction k v m rule: bt_insert.induct) (auto simp: bt_ok_Cons set_bt_insert)

lemma bt_ok_remove [simp]: "bt_ok m \<Longrightarrow> bt_ok (bt_remove k m)"
  by (induction m) (auto simp: bt_ok_Cons bt_remove_def)

lemma bt_get_insert [simp]: "map_of (bt_insert k v m) = (map_of m)(k \<mapsto> v)"
  by (induction m) (auto simp: fun_eq_iff)

lemma bt_get_remove [simp]: "map_of (bt_remove k m) = (map_of m)(k := None)"
  by (induction m) (auto simp: fun_eq_iff bt_remove_def)

lemma bt_get_update: "map_of (bt_update k f m) = (map_of m)(k := map_option f (map_of m k))"
  by (auto simp: bt_update_def fun_eq_iff split: option.splits)

lemma bt_ok_update [simp]: "bt_ok m \<Longrightarrow> bt_ok (bt_update k f m)"
  by (simp add: bt_update_def split: option.splits)

lemma bt_get_in_set: "bt_ok m \<Longrightarrow> map_of m k = Some v \<longleftrightarrow> (k, v) \<in> set m"
  by (simp add: bt_ok_distinct)

lemma bt_insert_below:
  "bt_ok ((k, v) # m) \<Longrightarrow> bt_insert k v m = (k, v) # m"
  by (cases m) (auto simp: bt_ok_Cons)

lemma bt_get_below: "bt_ok ((k', v') # m) \<Longrightarrow> k < k' \<Longrightarrow> map_of ((k', v') # m) k = None"
  by (auto simp: bt_ok_Cons map_of_eq_None_iff)

text \<open>Strictly sorted lists with the same lookups are equal.\<close>

lemma bt_ext:
  assumes "bt_ok m" "bt_ok n" "map_of m = map_of n"
  shows "m = n"
proof -
  have "set m = set n"
    using assms by (auto simp: bt_get_in_set [symmetric])
  moreover have "sorted_wrt (\<lambda>x y. fst x < fst y) m" "sorted_wrt (\<lambda>x y. fst x < fst y) n"
    using assms by (simp_all add: bt_ok_def sorted_wrt_map)
  ultimately show ?thesis
  proof (induction m arbitrary: n)
    case Nil
    then show ?case by simp
  next
    case (Cons x m)
    then obtain y n' where n: "n = y # n'" by (cases n) auto
    have "x = y"
    proof (rule ccontr)
      assume "x \<noteq> y"
      then have "x \<in> set n'" "y \<in> set m" using Cons.prems(1) n by auto
      then show False using Cons.prems(2,3) n by fastforce
    qed
    moreover have "x \<notin> set m" "y \<notin> set n'" using Cons.prems(2,3) n by auto
    ultimately have "set m = set n'" using Cons.prems(1) n by auto
    with Cons.IH Cons.prems(2,3) n \<open>x = y\<close> show ?case by simp
  qed
qed

lemma bt_ok_filter: "bt_ok m \<Longrightarrow> bt_ok (filter P m)"
  by (induction m) (auto simp: bt_ok_Cons)

lemma insert_all_simps [simp]:
  "insert_all [] m = m" "insert_all ((k, v) # xs) m = insert_all xs (bt_insert k v m)"
  by (simp_all add: insert_all_def)

lemma insert_all_append: "insert_all (xs @ ys) m = insert_all ys (insert_all xs m)"
  by (simp add: insert_all_def)

lemma bt_ok_insert_all [simp]: "bt_ok m \<Longrightarrow> bt_ok (insert_all xs m)"
  by (induction xs arbitrary: m) auto

lemma bt_get_insert_all: "map_of (insert_all xs m) = map_of m ++ map_of (rev xs)"
proof (induction xs arbitrary: m)
  case (Cons x xs)
  then show ?case by (cases x) (simp add: map_add_def fun_eq_iff split: option.split)
qed simp

text \<open>Whatever order the pairs of a map come in, inserting them all gives the map.\<close>

lemma insert_all_eq:
  assumes "bt_ok m" "set xs = set m"
  shows "insert_all xs [] = m"
proof (rule bt_ext)
  show "bt_ok (insert_all xs [])" by simp
  show "map_of (insert_all xs []) = map_of m"
  proof
    fix k
    show "map_of (insert_all xs []) k = map_of m k"
    proof (cases "map_of (rev xs) k")
      case None
      then have "k \<notin> fst ` set m" using assms(2) by (simp add: map_of_eq_None_iff)
      then have "map_of m k = None" by (simp add: map_of_eq_None_iff)
      then show ?thesis using None by (simp add: bt_get_insert_all map_add_def)
    next
      case (Some v)
      then have "(k, v) \<in> set m" using map_of_SomeD assms(2) by fastforce
      then have "map_of m k = Some v" by (simp add: bt_get_in_set [OF assms(1)])
      then show ?thesis using Some by (simp add: bt_get_insert_all map_add_def)
    qed
  qed
qed (rule assms(1))

lemma bt_ok_entry_or_default [simp]: "bt_ok m \<Longrightarrow> bt_ok (entry_or_default k f m)"
  by (simp add: entry_or_default_def)

lemma bt_get_entry_or_default:
  "map_of (entry_or_default k f m) i =
     (if i = k then Some (f (case map_of m k of Some v \<Rightarrow> v | None \<Rightarrow> [])) else map_of m i)"
  by (simp add: entry_or_default_def)

lemma set_bs_insert [simp]: "set (bs_insert k s) = insert k (set s)"
  by (induction s) auto

lemma sorted_bs_insert: "sorted_wrt (<) s \<Longrightarrow> sorted_wrt (<) (bs_insert k s)"
  by (induction s) auto

section \<open>The interface\<close>

locale ordered_map =
  fixes empty :: "'m"
    and get :: "'m \<Rightarrow> 'k::linorder \<Rightarrow> 'v option"
    and insert :: "'k \<Rightarrow> 'v \<Rightarrow> 'm \<Rightarrow> 'm"
    and remove :: "'k \<Rightarrow> 'm \<Rightarrow> 'm"
    and keys :: "'m \<Rightarrow> 'k list"
    and ok :: "'m \<Rightarrow> bool"
  assumes ok_empty: "ok empty"
    and ok_insert: "ok m \<Longrightarrow> ok (insert k v m)"
    and ok_remove: "ok m \<Longrightarrow> ok (remove k m)"
    and get_empty: "get empty k = None"
    and get_insert: "ok m \<Longrightarrow> get (insert k v m) k' = (if k' = k then Some v else get m k')"
    and get_remove: "ok m \<Longrightarrow> get (remove k m) k' = (if k' = k then None else get m k')"
    and keys_sorted: "ok m \<Longrightarrow> sorted_wrt (<) (keys m)"
    and keys_dom: "ok m \<Longrightarrow> set (keys m) = dom (get m)"
    and ext: "ok m \<Longrightarrow> ok n \<Longrightarrow> (\<And>k. get m k = get n k) \<Longrightarrow> m = n"
begin

lemma insert_insert: "ok m \<Longrightarrow> insert k v (insert k w m) = insert k v m"
  by (rule ext) (auto simp: ok_insert get_insert)

lemma insert_commute: "ok m \<Longrightarrow> k \<noteq> k' \<Longrightarrow> insert k v (insert k' w m) = insert k' w (insert k v m)"
  by (rule ext) (auto simp: ok_insert get_insert)

lemma insert_get: "ok m \<Longrightarrow> get m k = Some v \<Longrightarrow> insert k v m = m"
  by (rule ext) (auto simp: ok_insert get_insert)

lemma remove_insert: "ok m \<Longrightarrow> get m k = None \<Longrightarrow> remove k (insert k v m) = m"
  by (rule ext) (auto simp: ok_insert ok_remove get_insert get_remove)

lemma remove_absent: "ok m \<Longrightarrow> get m k = None \<Longrightarrow> remove k m = m"
  by (rule ext) (auto simp: ok_remove get_remove)

lemma distinct_keys: "ok m \<Longrightarrow> distinct (keys m)"
  using keys_sorted by (auto simp: strict_sorted_iff)

end

interpretation bt: ordered_map "[]" map_of bt_insert bt_remove "map fst" bt_ok
proof unfold_locales
  fix m n :: "('a \<times> 'b) list"
  assume "bt_ok m" "bt_ok n" and eq: "\<And>k. map_of m k = map_of n k"
  then show "m = n" by (intro bt_ext) (auto simp: fun_eq_iff)
qed (auto simp: dom_map_of_conv_image_fst, simp add: bt_ok_def)

end
