(* ===== verification/Argos_Types.thy ===== *)
theory Argos_Types
  imports Argos_Error Argos_BTree Argos_Allocator Complex_Main
begin

text \<open>
  \<open>src/model/types.rs\<close>: the enums and structs of the metadata document. Enums are datatypes,
  structs are records (a field carries the initial of its struct, so that fields of the same
  name in two structs stay apart). Times and rates (\<open>f64\<close>) are rationals: the model only
  stores, compares and takes the maximum of them. \<open>u64\<close>/\<open>usize\<close> fields are naturals, \<open>u32\<close> mode and id fields are
  32-bit words, and ACL permissions are 16-bit words.
\<close>

section \<open>Strings\<close>

text \<open>\<open>str::to_ascii_lowercase\<close>\<close>

definition ascii_lower_char :: "char \<Rightarrow> char" where
  "ascii_lower_char c =
     (let n = (of_char c :: nat) in if 65 \<le> n \<and> n \<le> 90 then char_of (n + 32) else c)"

definition to_ascii_lowercase :: "string \<Rightarrow> string" where
  "to_ascii_lowercase = map ascii_lower_char"

type_synonym f64 = rat

type_synonym inode_id = nat

section \<open>Enums and their text forms\<close>

datatype fault_point =
  BeforeDataWrite | AfterDataWriteBeforeFlush | AfterDataFlushBeforeJournalCommit
  | AfterJournalCommitBeforeMetadataCommit | AfterMetadataCommitBeforeSuperblockUpdate
  | AfterPartialJournalFanout | DuringReplay

fun fault_point_as_str :: "fault_point \<Rightarrow> string" where
  "fault_point_as_str BeforeDataWrite = ''before-data-write''"
| "fault_point_as_str AfterDataWriteBeforeFlush = ''after-data-write-before-flush''"
| "fault_point_as_str AfterDataFlushBeforeJournalCommit = ''after-data-flush-before-journal-commit''"
| "fault_point_as_str AfterJournalCommitBeforeMetadataCommit =
     ''after-journal-commit-before-metadata-commit''"
| "fault_point_as_str AfterMetadataCommitBeforeSuperblockUpdate =
     ''after-metadata-commit-before-superblock-update''"
| "fault_point_as_str AfterPartialJournalFanout = ''after-partial-journal-fanout''"
| "fault_point_as_str DuringReplay = ''during-replay''"

datatype backend_kind = Host | LoopBlock | RawBlock

fun backend_as_str :: "backend_kind \<Rightarrow> string" where
  "backend_as_str Host = ''host''"
| "backend_as_str LoopBlock = ''loop''"
| "backend_as_str RawBlock = ''raw''"

definition backend_from_str :: "string \<Rightarrow> string + backend_kind" where
  "backend_from_str value =
     (let s = to_ascii_lowercase value
      in if s = ''host'' \<or> s = ''hostfs'' then Inr Host
         else if s = ''loop'' \<or> s = ''loop-block'' \<or> s = ''loopblock'' then Inr LoopBlock
         else if s = ''raw'' \<or> s = ''raw-block'' \<or> s = ''rawblock'' then Inr RawBlock
         else Inl (''unknown backend: '' @ s))"

datatype compression = NoCompression | Lz4 | Zstd

fun compression_as_str :: "compression \<Rightarrow> string" where
  "compression_as_str NoCompression = ''none''"
| "compression_as_str Lz4 = ''lz4''"
| "compression_as_str Zstd = ''zstd''"

definition compression_from_str :: "string \<Rightarrow> string + compression" where
  "compression_from_str value =
     (let s = to_ascii_lowercase value
      in if s = ''none'' then Inr NoCompression
         else if s = ''lz4'' then Inr Lz4
         else if s = ''zstd'' then Inr Zstd
         else Inl (''unknown compression codec: '' @ s))"

datatype storage_tier = Hot | Warm | Cold

definition storage_tier_from_str :: "string \<Rightarrow> string + storage_tier" where
  "storage_tier_from_str value =
     (let s = to_ascii_lowercase value
      in if s = ''hot'' then Inr Hot
         else if s = ''warm'' then Inr Warm
         else if s = ''cold'' then Inr Cold
         else Inl (''unknown tier: '' @ s))"

datatype disk_status = Online | Degraded | Draining | Failed | Offline | Removed

definition disk_status_from_str :: "string \<Rightarrow> string + disk_status" where
  "disk_status_from_str value =
     (let s = to_ascii_lowercase value
      in if s = ''online'' then Inr Online
         else if s = ''degraded'' then Inr Degraded
         else if s = ''draining'' then Inr Draining
         else if s = ''failed'' then Inr Failed
         else if s = ''offline'' then Inr Offline
         else if s = ''removed'' then Inr Removed
         else Inl (''unknown disk status: '' @ s))"

datatype disk_class = Hdd | Ssd | Nvme | UnknownClass

datatype capacity_source = AutoProbe | UserOverride

datatype io_mode = Buffered | Direct | IoUring

definition io_mode_from_str :: "string \<Rightarrow> string + io_mode" where
  "io_mode_from_str value =
     (let s = to_ascii_lowercase value
      in if s = ''buffered'' then Inr Buffered
         else if s = ''direct'' then Inr Direct
         else if s = ''io-uring'' \<or> s = ''iouring'' then Inr IoUring
         else Inl (''unknown I/O mode: '' @ s))"

section \<open>Access control lists\<close>

datatype posix_acl_tag = UserObj | User | GroupObj | Group | Mask | Other

record posix_acl_entry =
  a_tag :: posix_acl_tag
  a_id :: "32 word option"
  a_perms :: "16 word"

record posix_acl =
  a_entries :: "posix_acl_entry list"

datatype nfs4_ace_type = Allow | Deny

record nfs4_ace =
  ace_type :: nfs4_ace_type
  ace_principal :: string
  ace_flags :: "string list"
  ace_permissions :: "string list"

record nfs4_acl =
  n_entries :: "nfs4_ace list"

section \<open>Configuration and layouts\<close>

record encryption_config =
  e_enabled :: bool
  e_kdf :: string
  e_salt_hex :: string
  e_key_check_nonce_hex :: string
  e_key_check_ciphertext_hex :: string

definition default_encryption_config :: encryption_config where
  "default_encryption_config =
     \<lparr>e_enabled = False, e_kdf = ''argon2id'', e_salt_hex = [], e_key_check_nonce_hex = [],
      e_key_check_ciphertext_hex = []\<rparr>"

record volume_config =
  c_k :: nat
  c_m :: nat
  c_chunk_size :: nat
  c_compression :: compression
  c_compression_level :: int
  c_l2_cache_bytes :: nat
  c_fsname :: string
  c_io_mode :: io_mode
  c_direct_io :: bool
  c_zero_copy :: bool
  c_numa_aware :: bool
  c_defer_journal_flush :: bool
  c_defer_metadata_commit :: bool
  c_defer_data_flush :: bool
  c_deferred_commit_interval_ms :: nat
  c_deferred_commit_max_transactions :: nat

definition default_volume_config :: volume_config where
  "default_volume_config =
     \<lparr>c_k = 4, c_m = 2, c_chunk_size = 256 * 1024, c_compression = Zstd, c_compression_level = 3,
      c_l2_cache_bytes = 4 * 1024 * 1024 * 1024, c_fsname = ''argosfs'', c_io_mode = Buffered,
      c_direct_io = False, c_zero_copy = True, c_numa_aware = True, c_defer_journal_flush = False,
      c_defer_metadata_commit = False, c_defer_data_flush = False,
      c_deferred_commit_interval_ms = 5000, c_deferred_commit_max_transactions = 128\<rparr>"

record layout_config =
  l_id :: string
  l_k :: nat
  l_m :: nat
  l_chunk_size :: nat
  l_created_txid :: nat
  l_sealed :: bool

record reshape_state =
  r_id :: string
  r_target_layout :: string
  r_from_layouts :: "string list"
  r_cursor :: "inode_id option"
  r_rewritten_files :: nat
  r_complete :: bool

section \<open>Disks\<close>

record health_counters =
  h_reallocated_sectors :: nat
  h_pending_sectors :: nat
  h_crc_errors :: nat
  h_io_errors :: nat
  h_latency_ms :: f64
  h_wear_percent :: f64
  h_temperature_c :: f64
  h_last_smart_refresh_at :: f64
  h_smart_device_type :: string
  h_smart_fields_observed :: "string list"
  h_smart_fields_missing :: "string list"
  h_smart_status_failed :: bool
  h_smart_evidence_score :: f64
  h_smart_evidence_updated_at :: f64
  h_recent_reallocated_delta :: nat
  h_recent_reallocated_delta_at :: f64
  h_recent_crc_delta :: nat
  h_recent_crc_delta_at :: f64
  h_recent_io_error_delta :: nat
  h_recent_io_error_delta_at :: f64

record disk_probe =
  p_class :: disk_class
  p_backing_device :: "string option"
  p_backing_fs_id :: "string option"
  p_sysfs_block :: "string option"
  p_rotational :: "bool option"
  p_numa_node :: "int option"
  p_capacity_bytes :: nat
  p_available_bytes :: nat
  p_measured_read_mib_s :: f64
  p_measured_write_mib_s :: f64
  p_measured_read_latency_ms :: f64
  p_measured_write_latency_ms :: f64
  p_recommended_weight :: f64
  p_recommended_tier :: storage_tier

record disk =
  d_id :: string
  d_path :: string
  d_tier :: storage_tier
  d_weight :: f64
  d_status :: disk_status
  d_manually_offline :: bool
  d_capacity_bytes :: nat
  d_capacity_source :: capacity_source
  d_used_bytes :: nat
  d_health :: health_counters
  d_class :: disk_class
  d_backing_device :: "string option"
  d_backing_fs_id :: "string option"
  d_failure_domain :: string
  d_sysfs_block :: "string option"
  d_rotational :: "bool option"
  d_numa_node :: "int option"
  d_read_latency_ewma_ms :: f64
  d_write_latency_ewma_ms :: f64
  d_observed_read_mib_s :: f64
  d_observed_write_mib_s :: f64
  d_io_samples :: nat
  d_last_probe :: disk_probe
  d_created_at :: f64

section \<open>Files\<close>

datatype shard_location = HostPath string string | RawExtent physical_extent

record shard =
  s_slot :: nat
  s_disk_id :: string
  s_location :: "shard_location option"
  s_relpath :: string
  s_sha256 :: string
  s_checksum_block_size :: nat
  s_subblock_sha256 :: "string list"
  s_size :: nat

record file_block =
  b_layout_id :: string
  b_stripe_id :: string
  b_raw_offset :: nat
  b_raw_size :: nat
  b_raw_sha256 :: string
  b_codec :: compression
  b_encrypted :: bool
  b_nonce_hex :: string
  b_compressed_size :: nat
  b_shard_size :: nat
  b_shards :: "shard list"
  b_storage_class :: storage_tier

datatype node_kind = File | Directory | Symlink | Special

record inode =
  i_id :: inode_id
  i_kind :: node_kind
  i_mode :: "32 word"
  i_uid :: "32 word"
  i_gid :: "32 word"
  i_nlink :: "32 word"
  i_size :: nat
  i_rdev :: nat
  i_atime :: f64
  i_mtime :: f64
  i_ctime :: f64
  i_entries :: "(string, inode_id) btree"
  i_target :: "string option"
  i_inline_data :: "8 word list option"
  i_inline_sha256 :: string
  i_blocks :: "file_block list"
  i_xattrs :: "(string, string) btree"
  i_quota_bytes :: "nat option"
  i_posix_acl_access :: "posix_acl option"
  i_posix_acl_default :: "posix_acl option"
  i_nfs4_acl :: "nfs4_acl option"
  i_access_count :: nat
  i_write_count :: nat
  i_read_bytes :: nat
  i_write_bytes :: nat
  i_storage_class :: storage_tier
  i_boot_critical :: bool
  i_workload_score :: f64
  i_last_accessed_at :: f64
  i_last_written_at :: f64

section \<open>Volume metadata\<close>

record raw_pool_metadata =
  rp_pool_name :: string
  rp_format_version :: nat
  rp_clean :: bool
  rp_dirty_since_txid :: nat
  rp_mount_generation :: nat
  rp_allocators :: "(string, raw_allocator_state) btree"

record metadata_integrity =
  mi_generation :: nat
  mi_previous_meta_hash :: string
  mi_meta_hash :: string

record metadata =
  m_format :: string
  m_uuid :: string
  m_backend :: backend_kind
  m_raw_pool :: raw_pool_metadata
  m_created_at :: f64
  m_updated_at :: f64
  m_txid :: nat
  m_next_inode :: inode_id
  m_next_stripe :: nat
  m_config :: volume_config
  m_layouts :: "(string, layout_config) btree"
  m_current_write_layout :: string
  m_reshape :: "reshape_state option"
  m_encryption :: encryption_config
  m_integrity :: metadata_integrity
  m_disks :: "(string, disk) btree"
  m_inodes :: "(inode_id, inode) btree"

section \<open>Lemmas\<close>

lemma to_ascii_lowercase_idem [simp]: "to_ascii_lowercase (to_ascii_lowercase s) = to_ascii_lowercase s"
proof -
  have "ascii_lower_char (ascii_lower_char c) = ascii_lower_char c" for c
    by (auto simp: ascii_lower_char_def Let_def)
  then show ?thesis by (simp add: to_ascii_lowercase_def)
qed

text \<open>The command-line spelling of a backend is accepted back as that backend, in any letter case.\<close>

lemma backend_from_str_as_str:
  "to_ascii_lowercase s = backend_as_str b \<longleftrightarrow>
     backend_from_str s = Inr b
     \<and> to_ascii_lowercase s \<notin> {''hostfs'', ''loop-block'', ''loopblock'', ''raw-block'', ''rawblock''}"
  by (cases b) (auto simp: backend_from_str_def Let_def split: if_splits)

text \<open>A file and an empty volume, for the examples of the later theories.\<close>

definition demo_inode :: inode where
  "demo_inode = \<lparr>i_id = 7, i_kind = File, i_mode = 33184, i_uid = 1, i_gid = 2, i_nlink = 1,
     i_size = 0, i_rdev = 0, i_atime = 0, i_mtime = 0, i_ctime = 0, i_entries = [], i_target = None,
     i_inline_data = None, i_inline_sha256 = [], i_blocks = [], i_xattrs = [], i_quota_bytes = None,
     i_posix_acl_access = None, i_posix_acl_default = None, i_nfs4_acl = None, i_access_count = 0,
     i_write_count = 0, i_read_bytes = 0, i_write_bytes = 0, i_storage_class = Warm,
     i_boot_critical = False, i_workload_score = 0, i_last_accessed_at = 0, i_last_written_at = 0\<rparr>"

definition demo_metadata :: metadata where
  "demo_metadata =
     \<lparr>m_format = ''argosfs-rust-v1'', m_uuid = ''u'', m_backend = Host,
      m_raw_pool = \<lparr>rp_pool_name = [], rp_format_version = 0, rp_clean = True, rp_dirty_since_txid = 0,
        rp_mount_generation = 0, rp_allocators = []\<rparr>,
      m_created_at = 0, m_updated_at = 0, m_txid = 4, m_next_inode = 2, m_next_stripe = 1,
      m_config = default_volume_config, m_layouts = [], m_current_write_layout = [], m_reshape = None,
      m_encryption = default_encryption_config,
      m_integrity = \<lparr>mi_generation = 0, mi_previous_meta_hash = [], mi_meta_hash = []\<rparr>,
      m_disks = [], m_inodes = []\<rparr>"

end
