(* ===== verification/Argos_Text.thy ===== *)
theory Argos_Text
  imports Argos_Prelude
begin

text \<open>
  The parts of Rust's string library the sources use. A \<open>&str\<close> is the list of its UTF-8 bytes,
  each byte a \<^typ>\<open>char\<close>; a byte slice is a list of 8-bit words. \<open>split\<close>, \<open>join\<close>, \<open>trim\<close>,
  \<open>from_utf8\<close>, decimal printing and \<open>parse::<u32>\<close> follow the documentation of the standard
  library.
\<close>

section \<open>Definitions\<close>

definition str_bytes :: "string \<Rightarrow> 8 word list" where
  "str_bytes = map (\<lambda>c. of_nat (of_char c))"

definition bytes_str :: "8 word list \<Rightarrow> string" where
  "bytes_str = map (\<lambda>b. char_of (unat b))"

text \<open>\<open>str::split(c)\<close> yields at least one piece.\<close>

fun split_on :: "char \<Rightarrow> string \<Rightarrow> string list" where
  "split_on c [] = [[]]"
| "split_on c (x # xs) =
     (if x = c then [] # split_on c xs
      else (case split_on c xs of [] \<Rightarrow> [[x]] | p # ps \<Rightarrow> (x # p) # ps))"

text \<open>\<open>slice::join\<close>\<close>

fun join :: "string \<Rightarrow> string list \<Rightarrow> string" where
  "join sep [] = []"
| "join sep [p] = p"
| "join sep (p # q # ps) = p @ sep @ join sep (q # ps)"

text \<open>
  The length of the white-space character a byte string starts with, 0 for none
  (\<open>White_Space\<close> of Unicode, in UTF-8).
\<close>

definition ws_len :: "nat list \<Rightarrow> nat" where
  "ws_len bs =
     (case bs of
        [] \<Rightarrow> 0
      | a # r \<Rightarrow>
          if (9 \<le> a \<and> a \<le> 13) \<or> a = 32 then 1
          else (case r of
                  [] \<Rightarrow> 0
                | b # r' \<Rightarrow>
                    if a = 194 \<and> (b = 133 \<or> b = 160) then 2
                    else (case r' of
                            [] \<Rightarrow> 0
                          | c # _ \<Rightarrow>
                              if (a = 225 \<and> b = 154 \<and> c = 128)
                                 \<or> (a = 226 \<and> b = 128 \<and> (128 \<le> c \<and> c \<le> 138 \<or> c = 168 \<or> c = 169 \<or> c = 175))
                                 \<or> (a = 226 \<and> b = 129 \<and> c = 159)
                                 \<or> (a = 227 \<and> b = 128 \<and> c = 128)
                              then 3 else 0)))"

definition nat_bytes :: "string \<Rightarrow> nat list" where
  "nat_bytes = map of_char"

function trim_start :: "string \<Rightarrow> string" where
  "trim_start s =
     (let n = ws_len (nat_bytes s)
      in if n = 0 \<or> s = [] then s else trim_start (drop n s))"
  by auto
termination
  by (relation "measure length") (auto simp: ws_len_def)

definition ws_suffix_len :: "string \<Rightarrow> nat" where
  "ws_suffix_len s =
     (let at = (\<lambda>n. n \<le> length s \<and> ws_len (nat_bytes (drop (length s - n) s)) = n)
      in if at 1 then 1 else if at 2 then 2 else if at 3 then 3 else 0)"

function trim_end :: "string \<Rightarrow> string" where
  "trim_end s =
     (let n = ws_suffix_len s
      in if n = 0 \<or> s = [] then s else trim_end (take (length s - n) s))"
  by auto
termination
  by (relation "measure length") (auto simp: ws_suffix_len_def Let_def split: if_splits)

definition trim :: "string \<Rightarrow> string" where
  "trim s = trim_end (trim_start s)"

declare trim_start.simps [simp del] trim_end.simps [simp del]

text \<open>\<open>str::from_utf8\<close>: well-formed UTF-8 byte sequences (Unicode table 3-7).\<close>

definition cont :: "nat \<Rightarrow> nat \<Rightarrow> nat \<Rightarrow> bool" where
  "cont lo hi b \<longleftrightarrow> lo \<le> b \<and> b \<le> hi"

fun valid_utf8 :: "nat list \<Rightarrow> bool" where
  "valid_utf8 [] = True"
| "valid_utf8 (a # r) =
     (if a < 128 then valid_utf8 r
      else if cont 194 223 a then
        (case r of b # r' \<Rightarrow> cont 128 191 b \<and> valid_utf8 r' | _ \<Rightarrow> False)
      else if cont 224 239 a then
        (case r of
           b # c # r' \<Rightarrow>
             cont (if a = 224 then 160 else 128) (if a = 237 then 159 else 191) b
             \<and> cont 128 191 c \<and> valid_utf8 r'
         | _ \<Rightarrow> False)
      else if cont 240 244 a then
        (case r of
           b # c # d # r' \<Rightarrow>
             cont (if a = 240 then 144 else 128) (if a = 244 then 143 else 191) b
             \<and> cont 128 191 c \<and> cont 128 191 d \<and> valid_utf8 r'
         | _ \<Rightarrow> False)
      else False)"

definition from_utf8 :: "8 word list \<Rightarrow> string option" where
  "from_utf8 bs = (if valid_utf8 (map unat bs) then Some (bytes_str bs) else None)"

text \<open>\<open>to_string\<close> of an unsigned integer and \<open>parse::<u32>\<close> (an optional leading \<open>+\<close>, at least
  one digit, no overflow).\<close>

definition digit_char :: "nat \<Rightarrow> char" where
  "digit_char d = char_of (48 + d)"

fun dec :: "nat \<Rightarrow> string" where
  "dec n = (if n < 10 then [digit_char n] else dec (n div 10) @ [digit_char (n mod 10)])"

declare dec.simps [simp del]

definition digit_val :: "char \<Rightarrow> nat option" where
  "digit_val c =
     (let n = (of_char c :: nat) in if 48 \<le> n \<and> n \<le> 57 then Some (n - 48) else None)"

fun parse_digits :: "nat \<Rightarrow> nat \<Rightarrow> string \<Rightarrow> nat option" where
  "parse_digits limit acc [] = Some acc"
| "parse_digits limit acc (c # cs) =
     (case digit_val c of
        None \<Rightarrow> None
      | Some d \<Rightarrow> if limit < 10 * acc + d then None else parse_digits limit (10 * acc + d) cs)"

definition parse_uint :: "nat \<Rightarrow> string \<Rightarrow> nat option" where
  "parse_uint limit s =
     (case s of
        [] \<Rightarrow> None
      | c # cs \<Rightarrow>
          if c = CHR ''+'' then (if cs = [] then None else parse_digits limit 0 cs)
          else parse_digits limit 0 s)"

definition parse_u32 :: "string \<Rightarrow> 32 word option" where
  "parse_u32 s = map_option of_nat (parse_uint (2 ^ 32 - 1) s)"

definition dec_u32 :: "32 word \<Rightarrow> string" where
  "dec_u32 w = dec (unat w)"

section \<open>Lemmas\<close>

lemma bytes_str_bytes [simp]: "bytes_str (str_bytes s) = s"
  by (simp add: bytes_str_def str_bytes_def o_def unat_of_nat map_idI
      of_char_mod_256 [where 'a = nat, simplified])

lemma split_on_nonempty [simp]: "split_on c s \<noteq> []"
  by (induction s) (auto split: list.splits)

lemma split_on_absent: "c \<notin> set s \<Longrightarrow> split_on c s = [s]"
  by (induction s) auto

lemma split_on_append: "c \<notin> set p \<Longrightarrow> split_on c (p @ c # s) = p # split_on c s"
  by (induction p) auto

lemma split_on_join:
  "ps \<noteq> [] \<Longrightarrow> \<forall>p \<in> set ps. c \<notin> set p \<Longrightarrow> split_on c (join [c] ps) = ps"
  by (induction "[c]" ps rule: join.induct) (auto simp: split_on_absent split_on_append)

lemma join_split_on: "join [c] (split_on c s) = s"
proof (induction s)
  case (Cons x xs)
  obtain p ps where sp: "split_on c xs = p # ps" by (cases "split_on c xs") auto
  then show ?case using Cons by (cases ps) auto
qed simp

lemma split_on_pieces: "p \<in> set (split_on c s) \<Longrightarrow> c \<notin> set p"
  by (induction s arbitrary: p) (auto split: list.splits if_splits)

definition plain :: "char \<Rightarrow> bool" where
  "plain c \<longleftrightarrow> (let n = (of_char c :: nat) in 33 \<le> n \<and> n < 128)"

lemma ws_len_plain: "plain c \<Longrightarrow> ws_len (nat_bytes (c # s)) = 0"
  by (auto simp: ws_len_def plain_def nat_bytes_def Let_def split: list.splits)

lemma trim_start_plain: "plain c \<Longrightarrow> trim_start (c # s) = c # s"
  by (subst trim_start.simps) (simp add: ws_len_plain)

lemma ws_len_last:
  assumes "ws_len (map of_char (t @ [c])) = Suc (length t)" "plain c"
  shows False
proof -
  have "Suc (length t) \<le> 3"
    using assms(1) by (auto simp: ws_len_def split: list.splits if_splits)
  then have "t = [] \<or> (\<exists>x. t = [x]) \<or> (\<exists>x y. t = [x, y])"
    by (cases t; cases "tl t"; cases "tl (tl t)") auto
  then show False
    using assms by (auto simp: ws_len_def plain_def Let_def split: if_splits)
qed

lemma ws_suffix_len_plain:
  assumes "plain c"
  shows "ws_suffix_len (s @ [c]) = 0"
proof -
  have "\<not> (n \<le> length (s @ [c]) \<and> ws_len (nat_bytes (drop (length (s @ [c]) - n) (s @ [c]))) = n)"
    if "0 < n" for n
  proof
    assume "n \<le> length (s @ [c]) \<and> ws_len (nat_bytes (drop (length (s @ [c]) - n) (s @ [c]))) = n"
    moreover define t where "t = drop (length (s @ [c]) - n) s"
    ultimately have "ws_len (map of_char (t @ [c])) = n" "length t = n - 1"
      using that by (auto simp: nat_bytes_def)
    then show False using ws_len_last [of t c] that assms by simp
  qed
  from this [of 1] this [of 2] this [of 3] show ?thesis
    by (simp add: ws_suffix_len_def Let_def)
qed

lemma trim_plain:
  assumes "s \<noteq> []" "plain (hd s)" "plain (last s)"
  shows "trim s = s"
proof -
  have "trim_start s = s" using assms(1,2) trim_start_plain [of "hd s" "tl s"] by simp
  moreover have "trim_end s = s"
    using assms ws_suffix_len_plain [of "last s" "butlast s"] by (subst trim_end.simps) simp
  ultimately show ?thesis by (simp add: trim_def)
qed

lemma digit_val_char [simp]: "d < 10 \<Longrightarrow> digit_val (digit_char d) = Some d"
  by (simp add: digit_val_def digit_char_def)

lemma digit_chars [simp]:
  "digit_char 0 = CHR ''0''" "digit_char 1 = CHR ''1''" "digit_char 2 = CHR ''2''" "digit_char 3 = CHR ''3''"
  "digit_char 4 = CHR ''4''" "digit_char 5 = CHR ''5''" "digit_char 6 = CHR ''6''" "digit_char 7 = CHR ''7''"
  "digit_char 8 = CHR ''8''" "digit_char 9 = CHR ''9''"
  by code_simp+

lemma digit_char_Suc_0 [simp]: "digit_char (Suc 0) = CHR ''1''"
  by code_simp

lemma dec_nonempty [simp]: "dec n \<noteq> []"
  by (subst dec.simps) simp

lemma dec_digits: "c \<in> set (dec n) \<Longrightarrow> \<exists>d < 10. c = digit_char d"
  by (induction n rule: dec.induct)
     (subst (asm) (2) dec.simps, auto split: if_splits intro: exI [where x = "_ mod 10"])

lemma parse_digits_append:
  "parse_digits limit acc (xs @ ys) = Option.bind (parse_digits limit acc xs) (\<lambda>a. parse_digits limit a ys)"
  by (induction xs arbitrary: acc) (auto split: option.splits)

lemma parse_digits_dec: "n \<le> limit \<Longrightarrow> parse_digits limit 0 (dec n) = Some n"
proof (induction n rule: dec.induct)
  case (1 n)
  show ?case
  proof (cases "n < 10")
    case True
    then show ?thesis using "1.prems" by (subst dec.simps) simp
  next
    case False
    have "n div 10 \<le> limit" using "1.prems" by (meson div_le_dividend order_trans)
    then have "parse_digits limit 0 (dec (n div 10)) = Some (n div 10)" using "1.IH" False by simp
    then show ?thesis using False "1.prems" by (subst dec.simps) (simp add: parse_digits_append)
  qed
qed

lemma digit_char_not:
  "d < 10 \<Longrightarrow> digit_char d \<noteq> CHR ''+''" "d < 10 \<Longrightarrow> digit_char d \<noteq> CHR '':''"
  "d < 10 \<Longrightarrow> digit_char d \<noteq> CHR '',''" "d < 10 \<Longrightarrow> plain (digit_char d)"
  by (auto simp: digit_char_def plain_def dest!: arg_cong [where f = "of_char :: char \<Rightarrow> nat"])

lemma dec_not_in:
  "CHR ''+'' \<notin> set (dec n)" "CHR '':'' \<notin> set (dec n)" "CHR '','' \<notin> set (dec n)"
  using dec_digits [of _ n] digit_char_not by metis+

lemma parse_uint_dec: "n \<le> limit \<Longrightarrow> parse_uint limit (dec n) = Some n"
  using dec_not_in(1) [of n] parse_digits_dec [of n limit]
  by (auto simp: parse_uint_def split: list.split)

lemma parse_u32_dec [simp]: "parse_u32 (dec_u32 w) = Some w"
proof -
  have "unat w \<le> 2 ^ 32 - 1" using unsigned_less [of w, where 'a = nat] by simp
  then show ?thesis by (simp add: parse_u32_def dec_u32_def parse_uint_dec)
qed

lemma split_on_sep: "split_on c (s @ c # t) = split_on c s @ split_on c t"
proof (induction s)
  case (Cons x xs)
  obtain p ps where "split_on c xs = p # ps" by (cases "split_on c xs") auto
  then show ?case using Cons by simp
qed simp

lemma valid_utf8_append: "valid_utf8 xs \<Longrightarrow> valid_utf8 ys \<Longrightarrow> valid_utf8 (xs @ ys)"
proof (induction xs rule: valid_utf8.induct)
  case (2 a r)
  consider "a < 128" | "\<not> a < 128" "cont 194 223 a" | "\<not> a < 128" "\<not> cont 194 223 a" "cont 224 239 a"
    | "\<not> a < 128" "\<not> cont 194 223 a" "\<not> cont 224 239 a" "cont 240 244 a"
    using "2.prems"(1) by (auto split: if_splits)
  then show ?case
  proof cases
    case 1
    then show ?thesis using 2 by simp
  next
    case two: 2
    then obtain b r' where "r = b # r'" using "2.prems"(1) by (cases r) simp_all
    then show ?thesis using 2 two by simp
  next
    case 3
    then obtain b c r' where "r = b # c # r'" using "2.prems"(1) by (cases r; cases "tl r") simp_all
    then show ?thesis using 2 3 by simp
  next
    case 4
    then obtain b c d r' where "r = b # c # d # r'"
      using "2.prems"(1) by (cases r; cases "tl r"; cases "tl (tl r)") simp_all
    then show ?thesis using 2 4 by simp
  qed
qed simp

lemma unat_str_byte [simp]: "unat (of_nat (of_char c) :: 8 word) = of_char c"
  by (simp add: unat_of_nat del: of_nat_of_char)

lemma map_unat_str_bytes: "map unat (str_bytes s) = nat_bytes s"
  by (simp add: str_bytes_def nat_bytes_def o_def del: of_nat_of_char)

lemma from_utf8_append_str:
  assumes "from_utf8 bs = Some t" "valid_utf8 (nat_bytes s)"
  shows "from_utf8 (bs @ str_bytes s) = Some (t @ s)"
proof -
  have "valid_utf8 (map unat bs)" "bytes_str bs = t" using assms(1) by (auto simp: from_utf8_def split: if_splits)
  moreover have "bytes_str (bs @ str_bytes s) = bytes_str bs @ bytes_str (str_bytes s)"
    by (simp add: bytes_str_def)
  ultimately show ?thesis
    using valid_utf8_append [of "map unat bs" "nat_bytes s"] assms(2)
    by (simp add: from_utf8_def map_unat_str_bytes)
qed

end
