(* ===== verification/Argos_Bytes.thy ===== *)
theory Argos_Bytes
  imports Argos_Prelude
begin

text \<open>
  Little-endian byte encodings of fixed-width integers (\<open>to_le_bytes\<close>, \<open>from_le_bytes\<close>) and
  reads and writes of byte ranges, shared by the on-disk formats and the ACL attributes.
\<close>

unbundle bit_operations_syntax

type_synonym byte = "8 word"

fun le_bytes :: "nat \<Rightarrow> 'a::len word \<Rightarrow> byte list" where
  "le_bytes 0 w = []"
| "le_bytes (Suc n) w = ucast w # le_bytes n (drop_bit 8 w)"

fun le_word :: "byte list \<Rightarrow> 'a::len word" where
  "le_word [] = 0"
| "le_word (b # bs) = ucast b OR push_bit 8 (le_word bs)"

text \<open>\<open>bytes[off..off + data.len()].copy_from_slice(data)\<close> and \<open>&bytes[off..off + n]\<close>\<close>

definition put_bytes :: "nat \<Rightarrow> byte list \<Rightarrow> byte list \<Rightarrow> byte list" where
  "put_bytes off data bs = take off bs @ data @ drop (off + length data) bs"

definition get_bytes :: "nat \<Rightarrow> nat \<Rightarrow> byte list \<Rightarrow> byte list" where
  "get_bytes off n bs = take n (drop off bs)"

section \<open>Lemmas\<close>

lemma length_le_bytes [simp]: "length (le_bytes n w) = n"
  by (induction n arbitrary: w) auto

lemma bit_le_word_bytes:
  fixes w :: "'a::len word"
  shows "bit (le_word (le_bytes n w) :: 'a word) i \<longleftrightarrow> i < 8 * n \<and> bit w i"
proof (induction n arbitrary: w i)
  case (Suc n)
  have "i < LENGTH('a)" if "bit w i" using that by (rule bit_imp_le_length)
  then show ?case
    by (auto simp: bit_or_iff bit_push_bit_iff bit_drop_bit_eq Suc bit_unsigned_iff)
qed simp

lemma le_word_bytes: "LENGTH('a::len) \<le> 8 * n \<Longrightarrow> le_word (le_bytes n (w :: 'a word)) = w"
  by (rule bit_word_eqI) (auto simp: bit_le_word_bytes)

lemma le_bytes_word:
  assumes "8 * length bs \<le> LENGTH('a::len)"
  shows "le_bytes (length bs) (le_word bs :: 'a word) = bs"
  using assms
proof (induction bs)
  case (Cons b bs)
  have "ucast (le_word (b # bs) :: 'a word) = b"
    using Cons.prems by (intro bit_word_eqI) (auto simp: bit_unsigned_iff bit_or_iff bit_push_bit_iff)
  moreover have "le_bytes (length bs) (drop_bit 8 (le_word (b # bs) :: 'a word)) = bs"
  proof -
    have bits: "bit (le_word cs :: 'a word) i \<Longrightarrow> i < 8 * length cs" for cs i
    proof (induction cs arbitrary: i)
      case (Cons c cs)
      then consider "bit c i" | "8 \<le> i" "bit (le_word cs :: 'a word) (i - 8)"
        by (auto simp: bit_or_iff bit_push_bit_iff bit_unsigned_iff)
      then show ?case
      proof cases
        case 1
        then show ?thesis using bit_imp_le_length [of c i] by simp
      next
        case 2
        then show ?thesis using Cons.IH [OF 2(2)] by simp
      qed
    qed simp
    have "drop_bit 8 (le_word (b # bs) :: 'a word) = le_word bs"
    proof (rule bit_word_eqI)
      fix i assume "i < LENGTH('a)"
      have "bit (le_word bs :: 'a word) i \<Longrightarrow> 8 + i < LENGTH('a)"
        using bits [of bs i] Cons.prems by simp
      then show "bit (drop_bit 8 (le_word (b # bs) :: 'a word)) i = bit (le_word bs :: 'a word) i"
        using bit_imp_le_length [of b "8 + i"]
        by (auto simp: bit_or_iff bit_push_bit_iff bit_drop_bit_eq bit_unsigned_iff)
    qed
    then show ?thesis using Cons by simp
  qed
  ultimately show ?case by simp
qed simp

lemma length_put_bytes [simp]:
  "off + length data \<le> length bs \<Longrightarrow> length (put_bytes off data bs) = length bs"
  by (simp add: put_bytes_def)

lemma length_get_bytes [simp]: "off + n \<le> length bs \<Longrightarrow> length (get_bytes off n bs) = n"
  by (simp add: get_bytes_def)

lemma get_put_same: "off + length data \<le> length bs \<Longrightarrow> n = length data \<Longrightarrow>
    get_bytes off n (put_bytes off data bs) = data"
  by (simp add: put_bytes_def get_bytes_def)

lemma get_put_before:
  "off' + n \<le> off \<Longrightarrow> off + length data \<le> length bs \<Longrightarrow>
    get_bytes off' n (put_bytes off data bs) = get_bytes off' n bs"
  by (simp add: put_bytes_def get_bytes_def take_drop min_absorb1 flip: drop_take)

lemma get_put_after:
  "off + length data \<le> off' \<Longrightarrow> off + length data \<le> length bs \<Longrightarrow>
    get_bytes off' n (put_bytes off data bs) = get_bytes off' n bs"
  by (simp add: put_bytes_def get_bytes_def drop_drop)

end
