(* ===== verification/Argos_ACL.thy ===== *)
theory Argos_ACL
  imports Argos_Types Argos_Text Argos_Bytes
begin

text \<open>
  \<open>src/security/acl.rs\<close>: parsing and printing of POSIX ACLs (text and the kernel's binary
  attribute), their validation, the relation between an ACL and the mode bits, and the access
  decision (superuser, NFSv4 list, POSIX list, mode bits). The JSON form of NFSv4 lists is
  serde's, and is a parameter where it is used.
\<close>

section \<open>Constants\<close>

definition ACL_READ :: "16 word" where "ACL_READ = 4"
definition ACL_WRITE :: "16 word" where "ACL_WRITE = 2"
definition ACL_EXECUTE :: "16 word" where "ACL_EXECUTE = 1"
definition POSIX_ACL_XATTR_VERSION :: "32 word" where "POSIX_ACL_XATTR_VERSION = 2"
definition ACL_UNDEFINED_ID :: "32 word" where "ACL_UNDEFINED_ID = -1"

section \<open>Validation\<close>

definition validate_acl_id :: "posix_acl_tag \<Rightarrow> 32 word option \<Rightarrow> unit result" where
  "validate_acl_id tag aid =
     (case (tag, aid) of
        (User, None) \<Rightarrow> Inl Invalid
      | (Group, None) \<Rightarrow> Inl Invalid
      | (UserObj, Some _) \<Rightarrow> Inl Invalid
      | (GroupObj, Some _) \<Rightarrow> Inl Invalid
      | (Mask, Some _) \<Rightarrow> Inl Invalid
      | (Other, Some _) \<Rightarrow> Inl Invalid
      | _ \<Rightarrow> Inr ())"

record acl_counts =
  user_obj :: nat
  group_obj :: nat
  mask_count :: nat
  other_count :: nat
  named_users :: "32 word list"
  named_groups :: "32 word list"

definition count_acl_entry :: "acl_counts \<Rightarrow> posix_acl_entry \<Rightarrow> acl_counts result" where
  "count_acl_entry c entry =
     (if a_perms entry AND NOT 7 \<noteq> 0 then Inl Invalid
      else rbind (validate_acl_id (a_tag entry) (a_id entry)) (\<lambda>_.
        case a_tag entry of
          UserObj \<Rightarrow> Inr (c\<lparr>user_obj := user_obj c + 1\<rparr>)
        | User \<Rightarrow>
            (case a_id entry of
               None \<Rightarrow> Inl Invalid
             | Some aid \<Rightarrow> if aid \<in> set (named_users c) then Inl Invalid
                          else Inr (c\<lparr>named_users := aid # named_users c\<rparr>))
        | GroupObj \<Rightarrow> Inr (c\<lparr>group_obj := group_obj c + 1\<rparr>)
        | Group \<Rightarrow>
            (case a_id entry of
               None \<Rightarrow> Inl Invalid
             | Some aid \<Rightarrow> if aid \<in> set (named_groups c) then Inl Invalid
                          else Inr (c\<lparr>named_groups := aid # named_groups c\<rparr>))
        | Mask \<Rightarrow> Inr (c\<lparr>mask_count := mask_count c + 1\<rparr>)
        | Other \<Rightarrow> Inr (c\<lparr>other_count := other_count c + 1\<rparr>)))"

fun count_acl_entries :: "acl_counts \<Rightarrow> posix_acl_entry list \<Rightarrow> acl_counts result" where
  "count_acl_entries c [] = Inr c"
| "count_acl_entries c (e # es) = rbind (count_acl_entry c e) (\<lambda>c'. count_acl_entries c' es)"

definition no_counts :: acl_counts where
  "no_counts = \<lparr>user_obj = 0, group_obj = 0, mask_count = 0, other_count = 0,
     named_users = [], named_groups = []\<rparr>"

definition validate_posix_acl :: "posix_acl \<Rightarrow> unit result" where
  "validate_posix_acl acl =
     rbind (count_acl_entries no_counts (a_entries acl)) (\<lambda>c.
       if \<exists>count \<in> set [user_obj c, group_obj c, other_count c]. count \<noteq> 1 then Inl Invalid
       else if 1 < mask_count c then Inl Invalid
       else if (named_users c \<noteq> [] \<or> named_groups c \<noteq> []) \<and> mask_count c \<noteq> 1 then Inl Invalid
       else Inr ())"

section \<open>Text form\<close>

definition parse_perm_bits :: "string \<Rightarrow> 16 word result" where
  "parse_perm_bits value =
     (case value of
        [r, w, x] \<Rightarrow>
          if r \<notin> {CHR ''r'', CHR ''-''} \<or> w \<notin> {CHR ''w'', CHR ''-''} \<or> x \<notin> {CHR ''x'', CHR ''-''}
          then Inl Invalid
          else Inr ((if r = CHR ''r'' then ACL_READ else 0)
                    OR (if w = CHR ''w'' then ACL_WRITE else 0)
                    OR (if x = CHR ''x'' then ACL_EXECUTE else 0))
      | _ \<Rightarrow> Inl Invalid)"

definition format_perm_bits :: "16 word \<Rightarrow> string" where
  "format_perm_bits bits =
     [if bits AND ACL_READ \<noteq> 0 then CHR ''r'' else CHR ''-'',
      if bits AND ACL_WRITE \<noteq> 0 then CHR ''w'' else CHR ''-'',
      if bits AND ACL_EXECUTE \<noteq> 0 then CHR ''x'' else CHR ''-'']"

definition parse_acl_tag :: "string \<Rightarrow> string \<Rightarrow> posix_acl_tag result" where
  "parse_acl_tag tag aid =
     (if tag = ''u'' \<or> tag = ''user'' then Inr (if aid = [] then UserObj else User)
      else if tag = ''g'' \<or> tag = ''group'' then Inr (if aid = [] then GroupObj else Group)
      else if tag = ''m'' \<or> tag = ''mask'' then Inr Mask
      else if tag = ''o'' \<or> tag = ''other'' then Inr Other
      else Inl Invalid)"

definition parse_acl_entry :: "string \<Rightarrow> posix_acl_entry result" where
  "parse_acl_entry raw =
     (case split_on CHR '':'' raw of
        [p0, p1, p2] \<Rightarrow>
          rbind (parse_acl_tag p0 p1) (\<lambda>tag.
          rbind (if p1 = [] then Inr None else map_sum id Some (ok_or Invalid (parse_u32 p1))) (\<lambda>aid.
          rbind (validate_acl_id tag aid) (\<lambda>_.
          rbind (parse_perm_bits p2) (\<lambda>perms.
            Inr \<lparr>a_tag = tag, a_id = aid, a_perms = perms\<rparr>))))
      | _ \<Rightarrow> Inl Invalid)"

definition parse_posix_acl :: "string \<Rightarrow> posix_acl result" where
  "parse_posix_acl spec =
     rbind (try_map parse_acl_entry
              (filter (\<lambda>part. part \<noteq> []) (map trim (split_on CHR '','' spec)))) (\<lambda>entries.
     rbind (validate_posix_acl \<lparr>a_entries = entries\<rparr>) (\<lambda>_. Inr \<lparr>a_entries = entries\<rparr>))"

definition format_acl_entry :: "posix_acl_entry \<Rightarrow> string" where
  "format_acl_entry entry =
     (let tag = (case a_tag entry of UserObj \<Rightarrow> ''user'' | User \<Rightarrow> ''user''
                 | GroupObj \<Rightarrow> ''group'' | Group \<Rightarrow> ''group'' | Mask \<Rightarrow> ''mask'' | Other \<Rightarrow> ''other'');
          aid = (case a_id entry of Some aid \<Rightarrow> dec_u32 aid | None \<Rightarrow> [])
      in tag @ '':'' @ aid @ '':'' @ format_perm_bits (a_perms entry))"

definition format_posix_acl :: "posix_acl \<Rightarrow> string" where
  "format_posix_acl acl = join '','' (map format_acl_entry (a_entries acl))"

section \<open>Binary attribute\<close>

fun acl_tag_bits :: "posix_acl_tag \<Rightarrow> 16 word" where
  "acl_tag_bits UserObj = 1"
| "acl_tag_bits User = 2"
| "acl_tag_bits GroupObj = 4"
| "acl_tag_bits Group = 8"
| "acl_tag_bits Mask = 16"
| "acl_tag_bits Other = 32"

definition acl_tag_of_bits :: "16 word \<Rightarrow> posix_acl_tag result" where
  "acl_tag_of_bits raw =
     (if raw = 1 then Inr UserObj else if raw = 2 then Inr User
      else if raw = 4 then Inr GroupObj else if raw = 8 then Inr Group
      else if raw = 16 then Inr Mask else if raw = 32 then Inr Other else Inl Invalid)"

definition posix_acl_to_xattr :: "posix_acl \<Rightarrow> byte list" where
  "posix_acl_to_xattr acl =
     le_bytes 4 POSIX_ACL_XATTR_VERSION
     @ concat (map (\<lambda>entry. le_bytes 2 (acl_tag_bits (a_tag entry)) @ le_bytes 2 (a_perms entry)
                  @ le_bytes 4 (case a_id entry of Some i \<Rightarrow> i | None \<Rightarrow> ACL_UNDEFINED_ID))
              (a_entries acl))"

definition parse_acl_chunk :: "byte list \<Rightarrow> posix_acl_entry result" where
  "parse_acl_chunk chunk =
     (let raw_tag = le_word (get_bytes 0 2 chunk);
          raw_perms = le_word (get_bytes 2 2 chunk)
      in if raw_perms AND NOT 7 \<noteq> 0 then Inl Invalid
         else (let raw_id = le_word (get_bytes 4 4 chunk)
               in rbind (acl_tag_of_bits raw_tag) (\<lambda>tag.
                  let aid = (if raw_id \<noteq> ACL_UNDEFINED_ID then Some raw_id else None)
                  in rbind (validate_acl_id tag aid) (\<lambda>_.
                       Inr \<lparr>a_tag = tag, a_id = aid, a_perms = raw_perms\<rparr>))))"

definition parse_posix_acl_binary :: "byte list \<Rightarrow> posix_acl result" where
  "parse_posix_acl_binary value =
     (if length value < 4 \<or> (length value - 4) mod 8 \<noteq> 0 then Inl Invalid
      else rbind (try_map parse_acl_chunk (chunks 8 (drop 4 value))) (\<lambda>entries.
           rbind (validate_posix_acl \<lparr>a_entries = entries\<rparr>) (\<lambda>_. Inr \<lparr>a_entries = entries\<rparr>)))"

definition parse_posix_acl_xattr :: "byte list \<Rightarrow> posix_acl result" where
  "parse_posix_acl_xattr value =
     (if 4 \<le> length value \<and> le_word (take 4 value) = POSIX_ACL_XATTR_VERSION
      then parse_posix_acl_binary value
      else rbind (ok_or Invalid (from_utf8 value)) parse_posix_acl)"

definition is_empty_posix_acl_xattr :: "byte list \<Rightarrow> bool" where
  "is_empty_posix_acl_xattr value \<longleftrightarrow> value = [] \<or> value = le_bytes 4 POSIX_ACL_XATTR_VERSION"

section \<open>Inheritance and mode bits\<close>

definition inherited_directory_acl :: "inode \<Rightarrow> posix_acl option" where
  "inherited_directory_acl parent =
     (if i_kind parent = Directory then i_posix_acl_default parent else None)"

definition mode_bits :: "32 word \<Rightarrow> nat \<Rightarrow> 16 word" where
  "mode_bits mode shift = ucast (drop_bit shift mode AND 7)"

definition apply_mode_to_access_acl :: "posix_acl \<Rightarrow> 32 word \<Rightarrow> posix_acl" where
  "apply_mode_to_access_acl acl mode =
     (let owner = mode_bits mode 6; group = mode_bits mode 3; other = mode_bits mode 0;
          has_mask = (\<exists>entry \<in> set (a_entries acl). a_tag entry = Mask)
      in acl\<lparr>a_entries := map (\<lambda>entry.
           case a_tag entry of
             UserObj \<Rightarrow> entry\<lparr>a_perms := owner\<rparr>
           | Mask \<Rightarrow> entry\<lparr>a_perms := group\<rparr>
           | GroupObj \<Rightarrow> (if \<not> has_mask then entry\<lparr>a_perms := group\<rparr> else entry)
           | Other \<Rightarrow> entry\<lparr>a_perms := other\<rparr>
           | _ \<Rightarrow> entry) (a_entries acl)\<rparr>)"

definition inherited_access_acl :: "inode \<Rightarrow> 32 word \<Rightarrow> posix_acl option" where
  "inherited_access_acl parent mode =
     map_option (\<lambda>acl. apply_mode_to_access_acl acl mode) (inherited_directory_acl parent)"

definition find_tag :: "posix_acl_tag \<Rightarrow> posix_acl \<Rightarrow> posix_acl_entry option" where
  "find_tag tag acl = find (\<lambda>entry. a_tag entry = tag) (a_entries acl)"

definition mode_from_access_acl :: "posix_acl \<Rightarrow> 32 word \<Rightarrow> 32 word" where
  "mode_from_access_acl acl current_mode =
     (let perms = (\<lambda>e shift. case e of Some entry \<Rightarrow> ucast (a_perms entry)
                              | None \<Rightarrow> drop_bit shift current_mode AND 7);
          owner = perms (find_tag UserObj acl) 6;
          group = perms (case find_tag Mask acl of Some e \<Rightarrow> Some e | None \<Rightarrow> find_tag GroupObj acl) 3;
          other = perms (find_tag Other acl) 0
      in (current_mode AND NOT 511) OR push_bit 6 owner OR push_bit 3 group OR other)"

section \<open>Access decisions\<close>

definition entry_perms_or :: "posix_acl_entry option \<Rightarrow> 16 word \<Rightarrow> 16 word" where
  "entry_perms_or e d = (case e of Some entry \<Rightarrow> a_perms entry | None \<Rightarrow> d)"

definition evaluate_posix ::
  "posix_acl \<Rightarrow> inode \<Rightarrow> 32 word \<Rightarrow> 32 word list \<Rightarrow> 16 word \<Rightarrow> bool" where
  "evaluate_posix acl inode uid gids requested =
     (let acl_mask = entry_perms_or (find_tag Mask acl) (ACL_READ OR ACL_WRITE OR ACL_EXECUTE)
      in if uid = i_uid inode
         then entry_perms_or (find_tag UserObj acl) (mode_bits (i_mode inode) 6) AND requested = requested
         else case find (\<lambda>entry. a_tag entry = User \<and> a_id entry = Some uid) (a_entries acl) of
                Some entry \<Rightarrow> (a_perms entry AND acl_mask) AND requested = requested
              | None \<Rightarrow>
                  (let owning = i_gid inode \<in> set gids;
                       base = (if owning
                               then entry_perms_or (find_tag GroupObj acl) (mode_bits (i_mode inode) 3)
                               else 0);
                       named = filter (\<lambda>entry. a_tag entry = Group
                                 \<and> (case a_id entry of Some g \<Rightarrow> g \<in> set gids | None \<Rightarrow> False))
                                 (a_entries acl);
                       group_perms = foldl (\<lambda>acc entry. acc OR a_perms entry) base named
                   in if owning \<or> named \<noteq> []
                      then (group_perms AND acl_mask) AND requested = requested
                      else entry_perms_or (find_tag Other acl) (mode_bits (i_mode inode) 0)
                             AND requested = requested))"

definition evaluate_mode :: "inode \<Rightarrow> 32 word \<Rightarrow> 32 word list \<Rightarrow> 16 word \<Rightarrow> bool" where
  "evaluate_mode inode uid gids requested =
     (let shift = (if uid = i_uid inode then 6 else if i_gid inode \<in> set gids then 3 else 0)
      in mode_bits (i_mode inode) shift AND requested = requested)"

definition nfs4_principal_matches :: "nfs4_ace \<Rightarrow> inode \<Rightarrow> 32 word \<Rightarrow> 32 word list \<Rightarrow> bool" where
  "nfs4_principal_matches ace inode uid gids \<longleftrightarrow>
     (let principal = ace_principal ace
      in principal = ''EVERYONE@''
         \<or> (principal = ''OWNER@'' \<and> uid = i_uid inode)
         \<or> (principal = ''GROUP@'' \<and> i_gid inode \<in> set gids)
         \<or> principal = ''uid:'' @ dec_u32 uid
         \<or> (\<exists>gid \<in> set gids. principal = ''gid:'' @ dec_u32 gid))"

definition nfs4_perm_bit :: "string \<Rightarrow> 16 word" where
  "nfs4_perm_bit perm =
     (if perm \<in> {''r'', ''read'', ''read-data'', ''list-directory''} then ACL_READ
      else if perm \<in> {''w'', ''write'', ''write-data'', ''append-data'', ''add-file'', ''add-subdirectory''}
      then ACL_WRITE
      else if perm \<in> {''x'', ''execute''} then ACL_EXECUTE
      else 0)"

definition nfs4_perm_bits :: "nfs4_ace \<Rightarrow> 16 word" where
  "nfs4_perm_bits ace = foldl (\<lambda>acc perm. acc OR nfs4_perm_bit perm) 0 (ace_permissions ace)"

fun evaluate_nfs4_loop ::
  "nfs4_ace list \<Rightarrow> inode \<Rightarrow> 32 word \<Rightarrow> 32 word list \<Rightarrow> 16 word \<Rightarrow> bool" where
  "evaluate_nfs4_loop [] inode uid gids remaining = False"
| "evaluate_nfs4_loop (ace # rest) inode uid gids remaining =
     (if (\<exists>flag \<in> set (ace_flags ace). flag = ''inherit-only'')
         \<or> \<not> nfs4_principal_matches ace inode uid gids
      then evaluate_nfs4_loop rest inode uid gids remaining
      else (let affected = nfs4_perm_bits ace AND remaining
            in if affected = 0 then evaluate_nfs4_loop rest inode uid gids remaining
               else (case ace_type ace of
                       Deny \<Rightarrow> False
                     | Allow \<Rightarrow>
                         (let remaining = remaining AND NOT affected
                          in if remaining = 0 then True
                             else evaluate_nfs4_loop rest inode uid gids remaining))))"

definition evaluate_nfs4 ::
  "nfs4_acl \<Rightarrow> inode \<Rightarrow> 32 word \<Rightarrow> 32 word list \<Rightarrow> 16 word \<Rightarrow> bool option" where
  "evaluate_nfs4 acl inode uid gids requested =
     (if n_entries acl = [] then None
      else Some (evaluate_nfs4_loop (n_entries acl) inode uid gids requested))"

definition requested_perms :: "32 word \<Rightarrow> 16 word" where
  "requested_perms want =
     (if want AND 4 \<noteq> 0 then ACL_READ else 0) OR (if want AND 2 \<noteq> 0 then ACL_WRITE else 0)
     OR (if want AND 1 \<noteq> 0 then ACL_EXECUTE else 0)"

definition evaluate_access_with_groups ::
  "inode \<Rightarrow> 32 word \<Rightarrow> 32 word list \<Rightarrow> 32 word \<Rightarrow> bool" where
  "evaluate_access_with_groups inode uid gids want =
     (let requested = requested_perms want
      in if requested = 0 then True
         else if uid = 0
         then requested AND ACL_EXECUTE = 0 \<or> i_kind inode = Directory \<or> i_mode inode AND 73 \<noteq> 0
         else case (case i_nfs4_acl inode of
                      Some nfs4 \<Rightarrow> evaluate_nfs4 nfs4 inode uid gids requested
                    | None \<Rightarrow> None) of
                Some allowed \<Rightarrow> allowed
              | None \<Rightarrow>
                  (case i_posix_acl_access inode of
                     Some acl \<Rightarrow> evaluate_posix acl inode uid gids requested
                   | None \<Rightarrow> evaluate_mode inode uid gids requested))"

definition evaluate_access :: "inode \<Rightarrow> 32 word \<Rightarrow> 32 word \<Rightarrow> 32 word \<Rightarrow> bool" where
  "evaluate_access inode uid gid want = evaluate_access_with_groups inode uid [gid] want"

section \<open>What validation means\<close>

definition acl_entry_ok :: "posix_acl_entry \<Rightarrow> bool" where
  "acl_entry_ok e \<longleftrightarrow> a_perms e \<le> 7 \<and> (a_id e \<noteq> None \<longleftrightarrow> a_tag e = User \<or> a_tag e = Group)"

definition tagged :: "posix_acl_tag \<Rightarrow> posix_acl_entry list \<Rightarrow> posix_acl_entry list" where
  "tagged t es = filter (\<lambda>e. a_tag e = t) es"

definition acl_ids :: "posix_acl_tag \<Rightarrow> posix_acl_entry list \<Rightarrow> 32 word list" where
  "acl_ids t es = map (the \<circ> a_id) (tagged t es)"

text \<open>The rules of POSIX 1003.1e that \<open>validate_posix_acl\<close> enforces.\<close>

definition acl_well_formed :: "posix_acl \<Rightarrow> bool" where
  "acl_well_formed acl \<longleftrightarrow>
     (let es = a_entries acl
      in (\<forall>e \<in> set es. acl_entry_ok e)
         \<and> length (tagged UserObj es) = 1 \<and> length (tagged GroupObj es) = 1
         \<and> length (tagged Other es) = 1 \<and> length (tagged Mask es) \<le> 1
         \<and> distinct (acl_ids User es) \<and> distinct (acl_ids Group es)
         \<and> (acl_ids User es \<noteq> [] \<or> acl_ids Group es \<noteq> [] \<longrightarrow> length (tagged Mask es) = 1))"

lemma and_not_seven_iff [simp]: "(w :: 16 word) AND -8 = 0 \<longleftrightarrow> w \<le> 7"
proof -
  have seven: "(7 :: 16 word) = mask 3" by (simp add: mask_eq_exp_minus_1)
  have "w AND NOT x = 0 \<longleftrightarrow> w AND x = w" for x :: "16 word"
    by (auto simp: bit_eq_iff bit_and_iff bit_not_iff dest: bit_imp_le_length)
  from this [of 7] have "w AND -8 = 0 \<longleftrightarrow> w AND 7 = w" by simp
  also have "\<dots> \<longleftrightarrow> w \<le> 7"
  proof
    assume "w AND 7 = w"
    then show "w \<le> 7" by (metis word_and_le1)
  next
    assume "w \<le> 7"
    then have "w < 2 ^ 3" by (simp add: word_less_nat_alt word_le_nat_alt)
    then show "w AND 7 = w" unfolding seven by (rule less_mask_eq)
  qed
  finally show ?thesis .
qed

lemma validate_acl_id_iff:
  "validate_acl_id t i = Inr () \<longleftrightarrow> (i \<noteq> None \<longleftrightarrow> t = User \<or> t = Group)"
  by (cases t; cases i) (auto simp: validate_acl_id_def)

lemma count_acl_entries_iff:
  "count_acl_entries c es = Inr c' \<longleftrightarrow>
     (\<forall>e \<in> set es. acl_entry_ok e)
     \<and> distinct (acl_ids User es) \<and> set (acl_ids User es) \<inter> set (named_users c) = {}
     \<and> distinct (acl_ids Group es) \<and> set (acl_ids Group es) \<inter> set (named_groups c) = {}
     \<and> c' = c\<lparr>user_obj := user_obj c + length (tagged UserObj es),
             group_obj := group_obj c + length (tagged GroupObj es),
             mask_count := mask_count c + length (tagged Mask es),
             other_count := other_count c + length (tagged Other es),
             named_users := rev (acl_ids User es) @ named_users c,
             named_groups := rev (acl_ids Group es) @ named_groups c\<rparr>"
proof (induction es arbitrary: c)
  case Nil
  then show ?case by (auto simp: tagged_def acl_ids_def)
next
  case (Cons e es)
  have step: "count_acl_entry c e = Inr d \<longleftrightarrow> acl_entry_ok e
      \<and> (a_tag e = User \<longrightarrow> the (a_id e) \<notin> set (named_users c))
      \<and> (a_tag e = Group \<longrightarrow> the (a_id e) \<notin> set (named_groups c))
      \<and> d = (case a_tag e of
               UserObj \<Rightarrow> c\<lparr>user_obj := user_obj c + 1\<rparr>
             | User \<Rightarrow> c\<lparr>named_users := the (a_id e) # named_users c\<rparr>
             | GroupObj \<Rightarrow> c\<lparr>group_obj := group_obj c + 1\<rparr>
             | Group \<Rightarrow> c\<lparr>named_groups := the (a_id e) # named_groups c\<rparr>
             | Mask \<Rightarrow> c\<lparr>mask_count := mask_count c + 1\<rparr>
             | Other \<Rightarrow> c\<lparr>other_count := other_count c + 1\<rparr>)" for d
    by (cases "a_tag e"; cases "a_id e")
       (auto simp: count_acl_entry_def acl_entry_ok_def validate_acl_id_def)
  show ?case
    by (cases "a_tag e") (auto simp: rbind_eq_Inr_iff step Cons tagged_def acl_ids_def)
qed

lemma validate_posix_acl_exact: "validate_posix_acl acl = Inr () \<longleftrightarrow> acl_well_formed acl"
proof (cases "count_acl_entries no_counts (a_entries acl)")
  case (Inl err)
  have "\<nexists>c. count_acl_entries no_counts (a_entries acl) = Inr c" using Inl by simp
  then have "\<not> acl_well_formed acl"
    unfolding count_acl_entries_iff by (auto simp: acl_well_formed_def no_counts_def Let_def)
  then show ?thesis using Inl by (simp add: validate_posix_acl_def)
next
  case (Inr c)
  note c = Inr [unfolded count_acl_entries_iff no_counts_def, simplified]
  have "validate_posix_acl acl = Inr () \<longleftrightarrow> user_obj c = 1 \<and> group_obj c = 1
        \<and> other_count c = 1 \<and> mask_count c \<le> 1
        \<and> (named_users c \<noteq> [] \<or> named_groups c \<noteq> [] \<longrightarrow> mask_count c = 1)"
    by (auto simp: validate_posix_acl_def Inr not_less)
  then show ?thesis using c by (simp add: acl_well_formed_def Let_def)
qed

text \<open>C27. \<open>validate_posix_acl\<close> accepts exactly the ACLs that follow the POSIX 1003.1e rules: only
  permission bits, ids on named entries and nowhere else, one owner, group and other entry,
  at most one mask, no repeated named entry, and a mask whenever there is a named entry.\<close>

theorem validate_posix_acl_iff: "validate_posix_acl acl = Inr () \<longleftrightarrow> acl_well_formed acl"
  by (rule validate_posix_acl_exact)

section \<open>Round trips\<close>

lemma posix_acl_eta [simp]: "\<lparr>a_entries = a_entries acl\<rparr> = (acl :: posix_acl)"
  by simp

lemma parse_format_perm_bits:
  assumes "w \<le> 7"
  shows "parse_perm_bits (format_perm_bits w) = Inr w"
proof -
  have "w \<in> {0, 1, 2, 3, 4, 5, 6, 7}"
  proof -
    have "unat w \<le> 7" using assms by (simp add: word_le_nat_alt)
    then have "unat w \<in> {0, 1, 2, 3, 4, 5, 6, 7}" by auto
    then have "word_of_nat (unat w) \<in> (word_of_nat ` {0, 1, 2, 3, 4, 5, 6, 7} :: 16 word set)"
      by (rule imageI)
    then show ?thesis by simp
  qed
  then show ?thesis
    by (auto simp: parse_perm_bits_def format_perm_bits_def ACL_READ_def ACL_WRITE_def ACL_EXECUTE_def)
qed

lemma format_perm_bits_chars:
  "set (format_perm_bits w) \<subseteq> {CHR ''r'', CHR ''w'', CHR ''x'', CHR ''-''}"
  by (auto simp: format_perm_bits_def)

lemma parse_format_acl_entry:
  assumes "acl_entry_ok e"
  shows "parse_acl_entry (format_acl_entry e) = Inr e"
proof -
  define tag where "tag = (case a_tag e of UserObj \<Rightarrow> ''user'' | User \<Rightarrow> ''user''
    | GroupObj \<Rightarrow> ''group'' | Group \<Rightarrow> ''group'' | Mask \<Rightarrow> ''mask'' | Other \<Rightarrow> ''other'')"
  define aid where "aid = (case a_id e of Some i \<Rightarrow> dec_u32 i | None \<Rightarrow> [])"
  have "CHR '':'' \<notin> set tag" by (auto simp: tag_def split: posix_acl_tag.splits)
  moreover have "CHR '':'' \<notin> set aid"
    by (auto simp: aid_def dec_u32_def dec_not_in split: option.splits)
  moreover have "CHR '':'' \<notin> set (format_perm_bits (a_perms e))"
    using format_perm_bits_chars [of "a_perms e"] by auto
  moreover have "format_acl_entry e = tag @ CHR '':'' # aid @ CHR '':'' # format_perm_bits (a_perms e)"
    by (simp add: format_acl_entry_def tag_def aid_def)
  ultimately have pieces: "split_on CHR '':'' (format_acl_entry e) = [tag, aid, format_perm_bits (a_perms e)]"
    by (simp add: split_on_append split_on_absent)
  have ne: "dec_u32 i \<noteq> []" for i by (simp add: dec_u32_def)
  have "parse_acl_tag tag aid = Inr (a_tag e)"
    using assms ne by (cases "a_tag e"; cases "a_id e")
      (simp_all add: acl_entry_ok_def tag_def aid_def parse_acl_tag_def)
  moreover have "(if aid = [] then Inr None else map_sum id Some (ok_or Invalid (parse_u32 aid))) = Inr (a_id e)"
    using ne by (cases "a_id e") (simp_all add: aid_def ok_or_def)
  moreover have "validate_acl_id (a_tag e) (a_id e) = Inr ()"
    using assms by (simp add: validate_acl_id_iff acl_entry_ok_def)
  ultimately show ?thesis
    using assms by (simp add: parse_acl_entry_def pieces parse_format_perm_bits acl_entry_ok_def)
qed

lemma format_acl_entry_plain:
  "format_acl_entry e \<noteq> []" "plain (hd (format_acl_entry e))" "plain (last (format_acl_entry e))"
  "CHR '','' \<notin> set (format_acl_entry e)"
  using format_perm_bits_chars [of "a_perms e"]
  by (auto simp: format_acl_entry_def plain_def format_perm_bits_def dec_u32_def dec_not_in
      split: posix_acl_tag.splits option.splits)

text \<open>C28. The text form of a valid POSIX ACL parses back to that ACL.\<close>

theorem parse_format_posix_acl:
  assumes "validate_posix_acl acl = Inr ()"
  shows "parse_posix_acl (format_posix_acl acl) = Inr acl"
proof -
  let ?es = "a_entries acl"
  have wf: "\<forall>e \<in> set ?es. acl_entry_ok e" "?es \<noteq> []"
    using assms unfolding validate_posix_acl_exact acl_well_formed_def Let_def by (auto simp: tagged_def)
  have "split_on CHR '','' (format_posix_acl acl) = map format_acl_entry ?es"
    unfolding format_posix_acl_def using wf(2) format_acl_entry_plain(4) by (intro split_on_join) auto
  moreover have "map trim (map format_acl_entry ?es) = map format_acl_entry ?es"
    by (simp add: trim_plain format_acl_entry_plain)
  moreover have "filter (\<lambda>p. p \<noteq> []) (map format_acl_entry ?es) = map format_acl_entry ?es"
    by (simp add: filter_id_conv format_acl_entry_plain)
  moreover have "try_map parse_acl_entry (map format_acl_entry ?es) = Inr ?es"
    using wf(1) by (intro try_map_inverse) (simp add: parse_format_acl_entry)
  ultimately show ?thesis using assms by (simp only: parse_posix_acl_def rbind_Inr posix_acl_eta)
qed

definition entry_bytes :: "posix_acl_entry \<Rightarrow> byte list" where
  "entry_bytes e = le_bytes 2 (acl_tag_bits (a_tag e)) @ le_bytes 2 (a_perms e)
     @ le_bytes 4 (case a_id e of Some i \<Rightarrow> i | None \<Rightarrow> ACL_UNDEFINED_ID)"

lemma length_entry_bytes [simp]: "length (entry_bytes e) = 8"
  by (simp add: entry_bytes_def)

lemma acl_tag_bits_inverse [simp]: "acl_tag_of_bits (acl_tag_bits t) = Inr t"
  by (cases t) (simp_all add: acl_tag_of_bits_def)

lemma entry_bytes_fields:
  "le_word (get_bytes 0 2 (entry_bytes e)) = acl_tag_bits (a_tag e)"
  "le_word (get_bytes 2 2 (entry_bytes e)) = a_perms e"
  "le_word (get_bytes 4 4 (entry_bytes e)) = (case a_id e of Some i \<Rightarrow> i | None \<Rightarrow> ACL_UNDEFINED_ID)"
  by (simp_all add: entry_bytes_def get_bytes_def le_word_bytes)

lemma parse_entry_bytes:
  assumes "acl_entry_ok e"
  shows "parse_acl_chunk (entry_bytes e) =
    (if a_id e = Some ACL_UNDEFINED_ID then Inl Invalid else Inr e)"
  using assms
  by (cases "a_id e")
     (auto simp: parse_acl_chunk_def entry_bytes_fields Let_def acl_entry_ok_def validate_acl_id_def
       split: posix_acl_tag.splits)

lemma posix_acl_to_xattr_alt:
  "posix_acl_to_xattr acl = le_bytes 4 POSIX_ACL_XATTR_VERSION @ concat (map entry_bytes (a_entries acl))"
  by (simp add: posix_acl_to_xattr_def entry_bytes_def [abs_def])

lemma length_concat_entry_bytes [simp]: "length (concat (map entry_bytes es)) = 8 * length es"
  by (induction es) auto

lemma parse_posix_acl_xattr_binary:
  "parse_posix_acl_xattr (posix_acl_to_xattr acl) =
     rbind (try_map parse_acl_chunk (map entry_bytes (a_entries acl))) (\<lambda>entries.
     rbind (validate_posix_acl \<lparr>a_entries = entries\<rparr>) (\<lambda>_. Inr \<lparr>a_entries = entries\<rparr>))"
  by (simp add: parse_posix_acl_xattr_def parse_posix_acl_binary_def posix_acl_to_xattr_alt le_word_bytes
      chunks_concat)

text \<open>C29. The kernel attribute of a valid POSIX ACL decodes back to that ACL, unless a named
  entry carries the id that the encoding reserves for ``no id'' (all bits set).\<close>

theorem parse_posix_acl_xattr_to_xattr:
  assumes "validate_posix_acl acl = Inr ()" "\<forall>e \<in> set (a_entries acl). a_id e \<noteq> Some ACL_UNDEFINED_ID"
  shows "parse_posix_acl_xattr (posix_acl_to_xattr acl) = Inr acl"
proof -
  have "\<forall>e \<in> set (a_entries acl). acl_entry_ok e"
    using assms(1) unfolding validate_posix_acl_exact acl_well_formed_def Let_def by blast
  then have "try_map parse_acl_chunk (map entry_bytes (a_entries acl)) = Inr (a_entries acl)"
    using assms(2) by (intro try_map_inverse) (simp add: parse_entry_bytes)
  then show ?thesis using assms(1) by (simp add: parse_posix_acl_xattr_binary)
qed

section \<open>Mode bits and access lists\<close>

lemma bit_low_ones [simp]:
  "bit (7 :: int) i \<longleftrightarrow> i < 3" "bit (511 :: int) i \<longleftrightarrow> i < 9"
  "bit (7 :: nat) i \<longleftrightarrow> i < 3" "bit (511 :: nat) i \<longleftrightarrow> i < 9"
proof -
  have "bit (mask 3 :: int) i \<longleftrightarrow> i < 3" "bit (mask 9 :: int) i \<longleftrightarrow> i < 9"
    "bit (mask 3 :: nat) i \<longleftrightarrow> i < 3" "bit (mask 9 :: nat) i \<longleftrightarrow> i < 9"
    by (simp_all only: bit_mask_iff possible_bit_def) simp_all
  then show "bit (7 :: int) i \<longleftrightarrow> i < 3" "bit (511 :: int) i \<longleftrightarrow> i < 9"
    "bit (7 :: nat) i \<longleftrightarrow> i < 3" "bit (511 :: nat) i \<longleftrightarrow> i < 9"
    by (simp_all add: mask_eq_exp_minus_1)
qed

lemma bit_minus_512 [simp]: "bit (- 512 :: int) i \<longleftrightarrow> 9 \<le> i"
proof -
  have "bit (NOT 511 :: int) i \<longleftrightarrow> 9 \<le> i" by (simp only: bit_not_iff possible_bit_def bit_low_ones) auto
  then show ?thesis by simp
qed

lemma bit_word_seven: "bit (7 :: 16 word) i \<longleftrightarrow> i < 3"
  by auto

lemma bit_mode_bits: "bit (mode_bits m s) i \<longleftrightarrow> i < 3 \<and> bit m (s + i)"
  by (auto simp: mode_bits_def bit_unsigned_iff bit_and_iff bit_drop_bit_eq dest: bit_imp_le_length)

lemma le_seven_iff: "(w :: 16 word) \<le> 7 \<longleftrightarrow> w AND 7 = w"
proof
  assume "w \<le> 7"
  then have "w < 2 ^ 3" by (simp add: word_less_nat_alt word_le_nat_alt)
  then have "w AND mask 3 = w" by (rule less_mask_eq)
  then show "w AND 7 = w" by (simp add: mask_eq_exp_minus_1)
next
  assume "w AND 7 = w"
  then show "w \<le> 7" by (metis word_and_le1)
qed

lemma le_seven_bits: "(w :: 16 word) \<le> 7 \<Longrightarrow> bit w i \<Longrightarrow> i < 3"
  unfolding le_seven_iff by (metis bit_and_iff bit_word_seven)

lemma mode_bits_le: "mode_bits m s \<le> 7"
  unfolding le_seven_iff by (rule bit_word_eqI) (auto simp: bit_mode_bits bit_and_iff)

definition apply_mode_entry :: "bool \<Rightarrow> 32 word \<Rightarrow> posix_acl_entry \<Rightarrow> posix_acl_entry" where
  "apply_mode_entry has_mask mode e =
     (case a_tag e of
        UserObj \<Rightarrow> e\<lparr>a_perms := mode_bits mode 6\<rparr>
      | Mask \<Rightarrow> e\<lparr>a_perms := mode_bits mode 3\<rparr>
      | GroupObj \<Rightarrow> (if \<not> has_mask then e\<lparr>a_perms := mode_bits mode 3\<rparr> else e)
      | Other \<Rightarrow> e\<lparr>a_perms := mode_bits mode 0\<rparr>
      | _ \<Rightarrow> e)"

abbreviation has_mask :: "posix_acl \<Rightarrow> bool" where
  "has_mask acl \<equiv> \<exists>e \<in> set (a_entries acl). a_tag e = Mask"

lemma apply_mode_alt:
  "a_entries (apply_mode_to_access_acl acl mode) = map (apply_mode_entry (has_mask acl) mode) (a_entries acl)"
  by (simp add: apply_mode_to_access_acl_def apply_mode_entry_def [abs_def] Let_def)

lemma apply_mode_entry_fields [simp]:
  "a_tag (apply_mode_entry h m e) = a_tag e" "a_id (apply_mode_entry h m e) = a_id e"
  by (auto simp: apply_mode_entry_def split: posix_acl_tag.splits)

lemma acl_entry_ok_apply: "acl_entry_ok e \<Longrightarrow> acl_entry_ok (apply_mode_entry h m e)"
  by (auto simp: acl_entry_ok_def apply_mode_entry_def mode_bits_le split: posix_acl_tag.splits)

lemma tagged_map: "(\<And>e. a_tag (f e) = a_tag e) \<Longrightarrow> tagged t (map f es) = map f (tagged t es)"
  by (induction es) (auto simp: tagged_def)

lemma apply_mode_well_formed:
  assumes "acl_well_formed acl"
  shows "acl_well_formed (apply_mode_to_access_acl acl mode)"
proof -
  let ?f = "apply_mode_entry (has_mask acl) mode"
  have "acl_ids t (map ?f es) = acl_ids t es" for t es
    by (simp add: acl_ids_def tagged_map)
  then show ?thesis
    using assms by (simp add: acl_well_formed_def apply_mode_alt tagged_map acl_entry_ok_apply Let_def)
qed

lemma find_map_tag:
  "(\<And>e. a_tag (f e) = a_tag e) \<Longrightarrow>
     find (\<lambda>e. a_tag e = t) (map f es) = map_option f (find (\<lambda>e. a_tag e = t) es)"
  by (induction es) auto

lemma find_tag_apply:
  "find_tag t (apply_mode_to_access_acl acl mode)
     = map_option (apply_mode_entry (has_mask acl) mode) (find_tag t acl)"
  unfolding find_tag_def apply_mode_alt by (rule find_map_tag) simp

lemma find_tag_Some: "find_tag t acl = Some e \<Longrightarrow> e \<in> set (a_entries acl) \<and> a_tag e = t"
  by (auto simp: find_tag_def find_Some_iff)

lemma find_tag_None: "find_tag t acl = None \<longleftrightarrow> (\<forall>e \<in> set (a_entries acl). a_tag e \<noteq> t)"
  by (auto simp: find_tag_def find_None_iff)

lemma tagged_find: "0 < length (tagged t (a_entries acl)) \<Longrightarrow> \<exists>e. find_tag t acl = Some e"
  using find_tag_None [of t acl] by (cases "find_tag t acl") (auto simp: tagged_def)

definition class_bits :: "32 word \<Rightarrow> 32 word \<Rightarrow> 32 word \<Rightarrow> 32 word \<Rightarrow> 32 word" where
  "class_bits cur u g r = (cur AND NOT 511) OR push_bit 6 u OR push_bit 3 g OR r"

lemma bit_class_bits:
  fixes u g r :: "16 word"
  assumes "u \<le> 7" "g \<le> 7" "r \<le> 7"
  shows "bit (class_bits cur (ucast u) (ucast g) (ucast r)) i \<longleftrightarrow>
     (if i < 3 then bit r i else if i < 6 then bit g (i - 3) else if i < 9 then bit u (i - 6) else bit cur i)"
  using le_seven_bits [OF assms(1), of "i - 6"] le_seven_bits [OF assms(2), of "i - 3"]
    le_seven_bits [OF assms(3), of i] bit_imp_le_length [of cur i]
  by (auto simp: class_bits_def bit_or_iff bit_and_iff bit_not_iff bit_push_bit_iff bit_unsigned_iff)

lemma mode_from_access_acl_class:
  "mode_from_access_acl acl cur = class_bits cur
     (ucast (entry_perms_or (find_tag UserObj acl) (mode_bits cur 6)))
     (ucast (entry_perms_or (case find_tag Mask acl of Some e \<Rightarrow> Some e | None \<Rightarrow> find_tag GroupObj acl)
               (mode_bits cur 3)))
     (ucast (entry_perms_or (find_tag Other acl) (mode_bits cur 0)))"
proof -
  have cast: "ucast (mode_bits cur s) = drop_bit s cur AND 7" for s
    by (rule bit_word_eqI) (auto simp: bit_unsigned_iff bit_mode_bits bit_and_iff bit_drop_bit_eq)
  have "(case e of Some entry \<Rightarrow> ucast (a_perms entry) | None \<Rightarrow> drop_bit s cur AND 7)
      = (ucast (entry_perms_or e (mode_bits cur s)) :: 32 word)" for e s
    by (cases e) (simp_all add: entry_perms_or_def cast)
  then show ?thesis unfolding mode_from_access_acl_def class_bits_def Let_def by (simp only:)
qed

text \<open>C26. Applying a mode to a valid access ACL (as \<open>chmod\<close> and inheritance do) keeps the ACL
  valid, and reading the mode back from it gives the new permission bits and keeps every
  other bit of the mode: the mode and the ACL of an inode never disagree.\<close>

theorem mode_from_apply_mode:
  assumes "validate_posix_acl acl = Inr ()"
  shows "validate_posix_acl (apply_mode_to_access_acl acl mode) = Inr ()
    \<and> mode_from_access_acl (apply_mode_to_access_acl acl mode) cur = (cur AND NOT 511) OR (mode AND 511)"
proof
  have wf: "acl_well_formed acl" using assms unfolding validate_posix_acl_exact .
  then show "validate_posix_acl (apply_mode_to_access_acl acl mode) = Inr ()"
    unfolding validate_posix_acl_exact by (rule apply_mode_well_formed)
  obtain u g r where tags: "find_tag UserObj acl = Some u" "find_tag GroupObj acl = Some g"
    "find_tag Other acl = Some r"
    using wf tagged_find [of UserObj acl] tagged_find [of GroupObj acl] tagged_find [of Other acl]
    by (auto simp: acl_well_formed_def Let_def)
  then have t: "a_tag u = UserObj" "a_tag g = GroupObj" "a_tag r = Other"
    by (auto dest: find_tag_Some)
  have "mode_from_access_acl (apply_mode_to_access_acl acl mode) cur
      = class_bits cur (ucast (mode_bits mode 6)) (ucast (mode_bits mode 3)) (ucast (mode_bits mode 0))"
  proof (cases "find_tag Mask acl")
    case None
    then have "\<not> has_mask acl" by (auto simp: find_tag_None)
    then show ?thesis
      by (simp add: mode_from_access_acl_class find_tag_apply tags None entry_perms_or_def apply_mode_entry_def t)
  next
    case (Some m)
    then have "a_tag m = Mask" "has_mask acl" by (auto dest: find_tag_Some)
    then show ?thesis
      by (simp add: mode_from_access_acl_class find_tag_apply tags Some entry_perms_or_def apply_mode_entry_def t)
  qed
  also have "\<dots> = (cur AND NOT 511) OR (mode AND 511)"
    by (rule bit_word_eqI)
       (auto simp: bit_class_bits mode_bits_le bit_mode_bits bit_or_iff bit_and_iff bit_not_iff)
  finally show "mode_from_access_acl (apply_mode_to_access_acl acl mode) cur
      = (cur AND NOT 511) OR (mode AND 511)" .
qed

lemma mode_bits_class:
  assumes "u \<le> 7" "g \<le> 7" "r \<le> 7"
  shows "mode_bits (class_bits cur (ucast u) (ucast g) (ucast r)) 6 = u"
    "mode_bits (class_bits cur (ucast u) (ucast g) (ucast r)) 3 = g"
    "mode_bits (class_bits cur (ucast u) (ucast g) (ucast r)) 0 = r"
  using le_seven_bits [OF assms(1)] le_seven_bits [OF assms(2)] le_seven_bits [OF assms(3)]
  by (auto intro!: bit_word_eqI simp: bit_mode_bits bit_class_bits [OF assms])

lemma minimal_acl:
  assumes "acl_well_formed acl" "find_tag Mask acl = None" "e \<in> set (a_entries acl)"
  shows "a_tag e \<noteq> User" "a_tag e \<noteq> Group"
proof -
  have "tagged Mask (a_entries acl) = []"
    using assms(2) by (auto simp: find_tag_None tagged_def filter_empty_conv)
  then have "acl_ids User (a_entries acl) = []" "acl_ids Group (a_entries acl) = []"
    using assms(1) by (auto simp: acl_well_formed_def Let_def)
  then show "a_tag e \<noteq> User" "a_tag e \<noteq> Group"
    using assms(3) by (auto simp: acl_ids_def tagged_def filter_empty_conv)
qed

text \<open>C25. A valid ACL with no mask (three entries) decides exactly as the mode bits it stands
  for: evaluating the ACL and evaluating the mode \<open>mode_from_access_acl\<close> gives agree for every
  user, group list and request.\<close>

theorem minimal_acl_is_mode:
  assumes "validate_posix_acl acl = Inr ()" "find_tag Mask acl = None" "requested \<le> 7"
  shows "evaluate_posix acl ino uid gids requested
    = evaluate_mode (ino\<lparr>i_mode := mode_from_access_acl acl (i_mode ino)\<rparr>) uid gids requested"
proof -
  have wf: "acl_well_formed acl" using assms(1) unfolding validate_posix_acl_exact .
  obtain u g r where tags: "find_tag UserObj acl = Some u" "find_tag GroupObj acl = Some g"
    "find_tag Other acl = Some r"
    using wf tagged_find [of UserObj acl] tagged_find [of GroupObj acl] tagged_find [of Other acl]
    by (auto simp: acl_well_formed_def Let_def)
  have le: "a_perms u \<le> 7" "a_perms g \<le> 7" "a_perms r \<le> 7"
    using wf find_tag_Some [OF tags(1)] find_tag_Some [OF tags(2)] find_tag_Some [OF tags(3)]
    by (auto simp: acl_well_formed_def Let_def acl_entry_ok_def)
  have mode: "mode_from_access_acl acl (i_mode ino)
      = class_bits (i_mode ino) (ucast (a_perms u)) (ucast (a_perms g)) (ucast (a_perms r))"
    by (simp add: mode_from_access_acl_class tags assms(2) entry_perms_or_def)
  have nouser: "find (\<lambda>e. a_tag e = User \<and> a_id e = Some uid) (a_entries acl) = None"
    using minimal_acl [OF wf assms(2)] by (auto simp: find_None_iff)
  have nogroup: "filter (\<lambda>e. a_tag e = Group
      \<and> (case a_id e of Some g \<Rightarrow> g \<in> set gids | None \<Rightarrow> False)) (a_entries acl) = []"
    using minimal_acl [OF wf assms(2)] by (auto simp: filter_empty_conv)
  have "a_perms g AND (ACL_READ OR ACL_WRITE OR ACL_EXECUTE) = a_perms g"
    using le(2) by (simp add: le_seven_iff ACL_READ_def ACL_WRITE_def ACL_EXECUTE_def)
  then show ?thesis
    by (simp add: evaluate_posix_def evaluate_mode_def mode mode_bits_class [OF le] nouser nogroup tags
        assms(2) entry_perms_or_def)
qed

definition ace_applies :: "nfs4_ace \<Rightarrow> inode \<Rightarrow> 32 word \<Rightarrow> 32 word list \<Rightarrow> bool" where
  "ace_applies ace ino uid gids \<longleftrightarrow>
     ''inherit-only'' \<notin> set (ace_flags ace) \<and> nfs4_principal_matches ace ino uid gids"

text \<open>The rule of RFC 7530: a permission is granted when the first applicable entry that
  mentions it allows it.\<close>

definition first_ace_allows ::
  "nfs4_ace list \<Rightarrow> inode \<Rightarrow> 32 word \<Rightarrow> 32 word list \<Rightarrow> nat \<Rightarrow> bool" where
  "first_ace_allows aces ino uid gids i \<longleftrightarrow>
     (case find (\<lambda>ace. ace_applies ace ino uid gids \<and> bit (nfs4_perm_bits ace) i) aces of
        Some ace \<Rightarrow> ace_type ace = Allow
      | None \<Rightarrow> False)"

lemma word_nonzero_bit: "(w :: 16 word) \<noteq> 0 \<longleftrightarrow> (\<exists>i. bit w i)"
  by (metis bit_0_eq bit_word_eqI bot_apply bot_bool_def)

lemma evaluate_nfs4_loop_iff:
  "remaining \<noteq> 0 \<Longrightarrow>
     evaluate_nfs4_loop aces ino uid gids remaining \<longleftrightarrow>
       (\<forall>i. bit remaining i \<longrightarrow> first_ace_allows aces ino uid gids i)"
proof (induction aces arbitrary: remaining)
  case Nil
  then show ?case by (auto simp: first_ace_allows_def word_nonzero_bit)
next
  case (Cons ace aces)
  let ?bits = "nfs4_perm_bits ace"
  let ?affected = "?bits AND remaining"
  show ?case
  proof (cases "ace_applies ace ino uid gids \<and> ?affected \<noteq> 0")
    case False
    have skip: "evaluate_nfs4_loop (ace # aces) ino uid gids remaining
        = evaluate_nfs4_loop aces ino uid gids remaining"
      using False by (auto simp: ace_applies_def Let_def)
    have "\<not> (ace_applies ace ino uid gids \<and> bit ?bits i)" if "bit remaining i" for i
      using False that by (auto simp: word_nonzero_bit bit_and_iff)
    then have "first_ace_allows (ace # aces) ino uid gids i = first_ace_allows aces ino uid gids i"
      if "bit remaining i" for i
      using that by (auto simp: first_ace_allows_def)
    then show ?thesis using Cons.IH [OF Cons.prems] skip by simp
  next
    case True
    then obtain j where j: "bit ?bits j" "bit remaining j"
      by (auto simp: word_nonzero_bit bit_and_iff)
    have hit: "first_ace_allows (ace # aces) ino uid gids i \<longleftrightarrow>
        (if bit ?bits i then ace_type ace = Allow else first_ace_allows aces ino uid gids i)" for i
      using True by (simp add: first_ace_allows_def)
    define rest where "rest = remaining AND NOT ?affected"
    have rest: "bit rest i \<longleftrightarrow> bit remaining i \<and> \<not> bit ?bits i" for i
      by (auto simp: rest_def bit_and_iff bit_or_iff bit_not_iff dest: bit_imp_le_length)
    have loop: "evaluate_nfs4_loop (ace # aces) ino uid gids remaining \<longleftrightarrow>
        ace_type ace = Allow \<and> (rest = 0 \<or> evaluate_nfs4_loop aces ino uid gids rest)"
      using True by (cases "ace_type ace") (auto simp: ace_applies_def Let_def rest_def)
    show ?thesis
    proof (cases "ace_type ace")
      case Deny
      then show ?thesis using loop hit j by (metis nfs4_ace_type.distinct(1))
    next
      case Allow
      have "(rest = 0 \<or> evaluate_nfs4_loop aces ino uid gids rest) \<longleftrightarrow>
          (\<forall>i. bit rest i \<longrightarrow> first_ace_allows aces ino uid gids i)"
        using Cons.IH [of rest] by (cases "rest = 0") auto
      then show ?thesis using loop hit Allow rest by metis
    qed
  qed
qed

text \<open>C23. The access decision for a user other than root on an inode with a non-empty NFSv4
  list follows the first-match rule of RFC 7530 for every requested permission, and ignores
  the POSIX list and the mode bits.\<close>

theorem nfs4_access_first_match:
  assumes "uid \<noteq> 0" "i_nfs4_acl ino = Some acl" "n_entries acl \<noteq> []"
  shows "evaluate_access_with_groups ino uid gids want \<longleftrightarrow>
    (\<forall>i. bit (requested_perms want) i \<longrightarrow> first_ace_allows (n_entries acl) ino uid gids i)"
proof (cases "requested_perms want = 0")
  case True
  then show ?thesis by (simp add: evaluate_access_with_groups_def)
next
  case False
  then show ?thesis
    using assms evaluate_nfs4_loop_iff [OF False, of "n_entries acl" ino uid gids]
    by (simp add: evaluate_access_with_groups_def evaluate_nfs4_def Let_def)
qed

lemma and_le_mask: "(q AND p) AND w = w \<Longrightarrow> w AND p = (w :: 16 word)"
  by (auto simp: bit_eq_iff bit_and_iff)

lemma evaluate_posix_masked:
  assumes "find_tag Mask acl = Some m" "uid \<noteq> i_uid ino"
    and "(\<exists>e \<in> set (a_entries acl). a_tag e = User \<and> a_id e = Some uid) \<or> i_gid ino \<in> set gids
      \<or> (\<exists>e \<in> set (a_entries acl). a_tag e = Group \<and> (\<exists>g \<in> set gids. a_id e = Some g))"
    and "evaluate_posix acl ino uid gids w"
  shows "w AND a_perms m = w"
proof (cases "find (\<lambda>e. a_tag e = User \<and> a_id e = Some uid) (a_entries acl)")
  case (Some e)
  then have "(a_perms e AND a_perms m) AND w = w"
    using assms(1,2,4) by (simp add: evaluate_posix_def entry_perms_or_def)
  then show ?thesis by (rule and_le_mask)
next
  case None
  let ?named = "filter (\<lambda>e. a_tag e = Group
    \<and> (case a_id e of Some g \<Rightarrow> g \<in> set gids | None \<Rightarrow> False)) (a_entries acl)"
  let ?base = "if i_gid ino \<in> set gids
    then entry_perms_or (find_tag GroupObj acl) (mode_bits (i_mode ino) 3) else 0"
  have "i_gid ino \<in> set gids \<or> ?named \<noteq> []"
    using assms(3) None by (auto simp: find_None_iff filter_empty_conv)
  then have "evaluate_posix acl ino uid gids w \<longleftrightarrow>
      (foldl (\<lambda>acc entry. acc OR a_perms entry) ?base ?named AND a_perms m) AND w = w"
    unfolding evaluate_posix_def Let_def None
    by (simp only: assms(1,2) entry_perms_or_def [of "Some m"] option.case if_True if_False)
  then show ?thesis using assms(4) and_le_mask by blast
qed


section \<open>Examples\<close>

definition demo_acl :: posix_acl where
  "demo_acl = \<lparr>a_entries =
     [\<lparr>a_tag = UserObj, a_id = None, a_perms = 7\<rparr>, \<lparr>a_tag = User, a_id = Some 1000, a_perms = 6\<rparr>,
      \<lparr>a_tag = GroupObj, a_id = None, a_perms = 5\<rparr>, \<lparr>a_tag = Mask, a_id = None, a_perms = 4\<rparr>,
      \<lparr>a_tag = Other, a_id = None, a_perms = 0\<rparr>]\<rparr>"

definition demo_min_acl :: posix_acl where
  "demo_min_acl = \<lparr>a_entries =
     [\<lparr>a_tag = UserObj, a_id = None, a_perms = 7\<rparr>, \<lparr>a_tag = GroupObj, a_id = None, a_perms = 5\<rparr>,
      \<lparr>a_tag = Other, a_id = None, a_perms = 0\<rparr>]\<rparr>"

lemma demo_acl_valid: "validate_posix_acl demo_acl = Inr ()" "validate_posix_acl demo_min_acl = Inr ()"
  unfolding validate_posix_acl_exact
  by (simp_all add: acl_well_formed_def demo_acl_def demo_min_acl_def tagged_def acl_ids_def acl_entry_ok_def)

theorem parse_format_posix_acl_witness:
  "parse_posix_acl ''user::rwx,user:1000:rw-,group::r-x,mask::r--,other::---'' = Inr demo_acl"
proof -
  have "format_posix_acl demo_acl = ''user::rwx,user:1000:rw-,group::r-x,mask::r--,other::---''"
    by (simp add: format_posix_acl_def demo_acl_def format_acl_entry_def format_perm_bits_def
        ACL_READ_def ACL_WRITE_def ACL_EXECUTE_def dec_u32_def dec.simps)
  then show ?thesis using parse_format_posix_acl [OF demo_acl_valid(1)] by simp
qed

theorem parse_posix_acl_xattr_to_xattr_witness:
  "parse_posix_acl_xattr (posix_acl_to_xattr demo_acl) = Inr demo_acl"
  by (rule parse_posix_acl_xattr_to_xattr [OF demo_acl_valid(1)])
     (simp add: demo_acl_def ACL_UNDEFINED_ID_def)

text \<open>The reserved id: an ACL with a named entry for the user id of all ones is valid and its
  text form is accepted, but its attribute cannot be read back.\<close>

lemma undefined_id_not_encodable:
  assumes "validate_posix_acl acl = Inr ()" "e \<in> set (a_entries acl)" "a_id e = Some ACL_UNDEFINED_ID"
  shows "parse_posix_acl_xattr (posix_acl_to_xattr acl) = Inl Invalid"
proof -
  have ok: "\<forall>x \<in> set (a_entries acl). acl_entry_ok x"
    using assms(1) unfolding validate_posix_acl_exact acl_well_formed_def Let_def by blast
  have "try_map parse_acl_chunk (map entry_bytes es) = Inl Invalid"
    if "\<forall>x \<in> set es. acl_entry_ok x" "e \<in> set es" for es
    using that assms(3) by (induction es) (auto simp: parse_entry_bytes)
  then show ?thesis using ok assms(2) by (simp add: parse_posix_acl_xattr_binary)
qed

theorem mode_from_apply_mode_witness:
  "mode_from_access_acl (apply_mode_to_access_acl demo_acl 416) 33279 = 33184"
  using mode_from_apply_mode [OF demo_acl_valid(1), of 416 33279] by simp

theorem minimal_acl_is_mode_witness:
  "evaluate_posix demo_min_acl demo_inode 5 [2] 5 = evaluate_mode
     (demo_inode\<lparr>i_mode := mode_from_access_acl demo_min_acl (i_mode demo_inode)\<rparr>) 5 [2] 5"
  by (rule minimal_acl_is_mode [OF demo_acl_valid(2)]) (simp_all add: demo_min_acl_def find_tag_def)

definition demo_nfs4 :: nfs4_acl where
  "demo_nfs4 = \<lparr>n_entries =
     [\<lparr>ace_type = Deny, ace_principal = ''uid:9'', ace_flags = [], ace_permissions = [''w'']\<rparr>,
      \<lparr>ace_type = Allow, ace_principal = ''EVERYONE@'', ace_flags = [], ace_permissions = [''read'', ''write'']\<rparr>]\<rparr>"

theorem nfs4_access_first_match_witness:
  "\<not> evaluate_access_with_groups (demo_inode\<lparr>i_nfs4_acl := Some demo_nfs4\<rparr>) 9 [3] 6"
proof -
  have req: "requested_perms 6 = 6"
    by (simp add: requested_perms_def ACL_READ_def ACL_WRITE_def)
  have "\<not> first_ace_allows (n_entries demo_nfs4) (demo_inode\<lparr>i_nfs4_acl := Some demo_nfs4\<rparr>) 9 [3] 1"
    by (simp add: first_ace_allows_def demo_nfs4_def ace_applies_def nfs4_principal_matches_def
        nfs4_perm_bits_def nfs4_perm_bit_def ACL_WRITE_def ACL_READ_def dec_u32_def dec.simps)
  then show ?thesis
    using nfs4_access_first_match [of 9 "demo_inode\<lparr>i_nfs4_acl := Some demo_nfs4\<rparr>" demo_nfs4 "[3]" 6]
    by (auto simp: req demo_nfs4_def)
qed


end
