(* ===== verification/Argos_Format.thy ===== *)
theory Argos_Format
  imports Argos_Error Argos_Align Argos_Bytes Argos_Text
begin

text \<open>
  \<open>src/storage/raw/format.rs\<close>: the on-disk superblock and device label of a raw pool member,
  and the layout of its regions. Fields keep their width (\<open>u32\<close>, \<open>u64\<close> as words); a buffer is a
  list of bytes; \<open>encode\<close> writes its fields in the order of the code. SHA-256 (crate \<open>sha2\<close>) is
  the parameter \<open>sha\<close>; what is used of it is that a digest has 32 bytes. A UUID is its 16 bytes.
\<close>

section \<open>Layout constants\<close>

definition DEVICE_LABEL_OFFSET :: nat where "DEVICE_LABEL_OFFSET = 64 * 1024"
definition JOURNAL_REGION_OFFSET :: "64 word" where "JOURNAL_REGION_OFFSET = 1024 * 1024"
definition JOURNAL_REGION_SIZE :: "64 word" where "JOURNAL_REGION_SIZE = 2 * 1024 * 1024"
definition METADATA_REGION_OFFSET :: "64 word" where "METADATA_REGION_OFFSET = 4 * 1024 * 1024"
definition METADATA_REGION_SIZE :: "64 word" where "METADATA_REGION_SIZE = 8 * 1024 * 1024"
definition ALLOCATOR_REGION_OFFSET :: "64 word" where "ALLOCATOR_REGION_OFFSET = 12 * 1024 * 1024"
definition ALLOCATOR_REGION_SIZE :: "64 word" where "ALLOCATOR_REGION_SIZE = 4 * 1024 * 1024"
definition DATA_REGION_OFFSET :: "64 word" where "DATA_REGION_OFFSET = 16 * 1024 * 1024"
definition BACKUP_REGION_SIZE :: nat where "BACKUP_REGION_SIZE = 1024 * 1024"
definition LARGE_LAYOUT_MIN_DEVICE_BYTES :: "64 word" where
  "LARGE_LAYOUT_MIN_DEVICE_BYTES = 128 * 1024 * 1024"
definition LARGE_JOURNAL_REGION_SIZE :: "64 word" where "LARGE_JOURNAL_REGION_SIZE = 8 * 1024 * 1024"
definition LARGE_METADATA_REGION_SIZE :: nat where "LARGE_METADATA_REGION_SIZE = 64 * 1024 * 1024"
definition LARGE_METADATA_REGION_MAX_SIZE :: nat where
  "LARGE_METADATA_REGION_MAX_SIZE = 1024 * 1024 * 1024"
definition METADATA_CAPACITY_DIVISOR :: nat where "METADATA_CAPACITY_DIVISOR = 64"
definition SUPERBLOCK_SIZE :: nat where "SUPERBLOCK_SIZE = 4096"
definition DEVICE_LABEL_SIZE :: nat where "DEVICE_LABEL_SIZE = 4096"
definition MIN_DEVICE_BYTES :: "64 word" where "MIN_DEVICE_BYTES = 20 * 1024 * 1024"
definition RAW_BLOCK_SIZE :: nat where "RAW_BLOCK_SIZE = 4096"
definition RAW_FORMAT_VERSION :: "32 word" where "RAW_FORMAT_VERSION = 1"
definition ENDIAN_MARKER :: "32 word" where "ENDIAN_MARKER = 305419896"

definition RAW_SUPER_MAGIC :: "byte list" where
  "RAW_SUPER_MAGIC = str_bytes ''ARGOSFS-RAW-SB'' @ [0, 0]"
definition RAW_LABEL_MAGIC :: "byte list" where
  "RAW_LABEL_MAGIC = str_bytes ''ARGOSFS-RAW-LB'' @ [0, 0]"

section \<open>Data\<close>

type_synonym uuid = "byte list"

record raw_region =
  rg_offset :: "64 word"
  rg_length :: "64 word"

record raw_superblock =
  sb_pool_uuid :: uuid
  sb_device_uuid :: uuid
  sb_disk_id :: string
  sb_disk_index :: "32 word"
  sb_k :: "32 word"
  sb_m :: "32 word"
  sb_chunk_size :: "64 word"
  sb_generation :: "64 word"
  sb_clean :: bool
  sb_feature_flags :: "64 word"
  sb_required_feature_flags :: "64 word"
  sb_block_size :: "32 word"
  sb_sector_size :: "32 word"
  sb_journal :: raw_region
  sb_metadata :: raw_region
  sb_allocator :: raw_region
  sb_data :: raw_region
  sb_backup_superblock_offset :: "64 word"
  sb_label :: string
  sb_last_mount_time :: "64 word"
  sb_last_clean_unmount_time :: "64 word"

record raw_device_label =
  lb_pool_uuid :: uuid
  lb_device_uuid :: uuid
  lb_disk_id :: string
  lb_disk_index :: "32 word"
  lb_generation :: "64 word"
  lb_label :: string

record raw_layout_regions =
  rl_journal :: raw_region
  rl_metadata :: raw_region
  rl_allocator :: raw_region
  rl_data :: raw_region

section \<open>Field access\<close>

type_synonym field = "nat \<times> byte list"

definition put_u32 :: "nat \<Rightarrow> 32 word \<Rightarrow> field" where
  "put_u32 off v = (off, le_bytes 4 v)"

definition put_u64 :: "nat \<Rightarrow> 64 word \<Rightarrow> field" where
  "put_u64 off v = (off, le_bytes 8 v)"

definition put_region :: "nat \<Rightarrow> raw_region \<Rightarrow> field list" where
  "put_region off region = [put_u64 off (rg_offset region), put_u64 (off + 8) (rg_length region)]"

definition put_fixed_str :: "nat \<Rightarrow> nat \<Rightarrow> string \<Rightarrow> field" where
  "put_fixed_str off len value =
     (let raw = str_bytes value; copy_len = min (length raw) (len - 1) in (off, take copy_len raw))"

text \<open>The writes of \<open>encode\<close>, one after the other.\<close>

definition write_fields :: "byte list \<Rightarrow> field list \<Rightarrow> byte list" where
  "write_fields = foldl (\<lambda>out f. put_bytes (fst f) (snd f) out)"

definition get_u32 :: "byte list \<Rightarrow> nat \<Rightarrow> 32 word result" where
  "get_u32 bytes off =
     (if off + 4 \<le> length bytes then Inr (le_word (get_bytes off 4 bytes)) else Inl CorruptedMetadata)"

definition get_u64 :: "byte list \<Rightarrow> nat \<Rightarrow> 64 word result" where
  "get_u64 bytes off =
     (if off + 8 \<le> length bytes then Inr (le_word (get_bytes off 8 bytes)) else Inl CorruptedMetadata)"

definition get_region :: "byte list \<Rightarrow> nat \<Rightarrow> raw_region result" where
  "get_region bytes off =
     rbind (get_u64 bytes off) (\<lambda>a. rbind (get_u64 bytes (off + 8)) (\<lambda>b.
       Inr \<lparr>rg_offset = a, rg_length = b\<rparr>))"

definition uuid_from :: "byte list \<Rightarrow> nat \<Rightarrow> uuid result" where
  "uuid_from bytes off =
     (if off + 16 \<le> length bytes then Inr (get_bytes off 16 bytes) else Inl CorruptedMetadata)"

definition get_fixed_str :: "byte list \<Rightarrow> nat \<Rightarrow> nat \<Rightarrow> string result" where
  "get_fixed_str bytes off len =
     (if off + len \<le> length bytes
      then ok_or CorruptedMetadata (from_utf8 (takeWhile (\<lambda>b. b \<noteq> 0) (get_bytes off len bytes)))
      else Inl CorruptedMetadata)"

definition checksum_with_zeroed_field ::
  "(byte list \<Rightarrow> byte list) \<Rightarrow> byte list \<Rightarrow> nat \<Rightarrow> nat \<Rightarrow> byte list" where
  "checksum_with_zeroed_field sha bytes off len =
     sha (take off bytes @ replicate len 0 @ drop (off + len) bytes)"

section \<open>Regions\<close>

definition region_end :: "raw_region \<Rightarrow> nat option" where
  "region_end region = checked_add (unat (rg_offset region)) (unat (rg_length region))"

definition validate_region :: "raw_region \<Rightarrow> unit result" where
  "validate_region region =
     (if unat (rg_offset region) mod 4096 \<noteq> 0 \<or> unat (rg_length region) mod 4096 \<noteq> 0
         \<or> rg_length region = 0
      then Inl Invalid
      else rbind (ok_or Invalid (region_end region)) (\<lambda>_. Inr ()))"

text \<open>The disjuncts are evaluated from left to right; an overflow is an error on its own.\<close>

definition validate_region_order ::
  "raw_region \<Rightarrow> raw_region \<Rightarrow> raw_region \<Rightarrow> raw_region \<Rightarrow> 64 word \<Rightarrow> unit result" where
  "validate_region_order journal metadata allocator data backup =
     (let end_of = (\<lambda>region. ok_or IncompatibleFormat (region_end region));
          bad = Inl IncompatibleFormat
      in if unat (rg_offset journal) < DEVICE_LABEL_OFFSET + DEVICE_LABEL_SIZE then bad
         else rbind (end_of journal) (\<lambda>e. if e > unat (rg_offset metadata) then bad
         else rbind (end_of metadata) (\<lambda>e. if e > unat (rg_offset allocator) then bad
         else rbind (end_of allocator) (\<lambda>e. if e > unat (rg_offset data) then bad
         else rbind (end_of data) (\<lambda>e. if e > unat backup then bad
         else if unat backup mod RAW_BLOCK_SIZE \<noteq> 0 then bad
         else Inr ())))))"

definition clamp :: "nat \<Rightarrow> nat \<Rightarrow> nat \<Rightarrow> nat" where
  "clamp v lo hi = (if v < lo then lo else if v > hi then hi else v)"

definition large_metadata_region_size :: "64 word \<Rightarrow> 64 word" where
  "large_metadata_region_size capacity =
     (let scaled = align_down (unat capacity div METADATA_CAPACITY_DIVISOR) RAW_BLOCK_SIZE
      in of_nat (clamp scaled LARGE_METADATA_REGION_SIZE LARGE_METADATA_REGION_MAX_SIZE))"

definition raw_regions_for_capacity :: "64 word \<Rightarrow> raw_layout_regions" where
  "raw_regions_for_capacity capacity =
     (if capacity \<ge> LARGE_LAYOUT_MIN_DEVICE_BYTES then
        (let journal = \<lparr>rg_offset = JOURNAL_REGION_OFFSET, rg_length = LARGE_JOURNAL_REGION_SIZE\<rparr>;
             metadata = \<lparr>rg_offset = rg_offset journal + rg_length journal,
                         rg_length = large_metadata_region_size capacity\<rparr>;
             allocator = \<lparr>rg_offset = rg_offset metadata + rg_length metadata,
                          rg_length = ALLOCATOR_REGION_SIZE\<rparr>;
             data = \<lparr>rg_offset = rg_offset allocator + rg_length allocator, rg_length = 0\<rparr>
         in \<lparr>rl_journal = journal, rl_metadata = metadata, rl_allocator = allocator, rl_data = data\<rparr>)
      else
        \<lparr>rl_journal = \<lparr>rg_offset = JOURNAL_REGION_OFFSET, rg_length = JOURNAL_REGION_SIZE\<rparr>,
         rl_metadata = \<lparr>rg_offset = METADATA_REGION_OFFSET, rg_length = METADATA_REGION_SIZE\<rparr>,
         rl_allocator = \<lparr>rg_offset = ALLOCATOR_REGION_OFFSET, rg_length = ALLOCATOR_REGION_SIZE\<rparr>,
         rl_data = \<lparr>rg_offset = DATA_REGION_OFFSET, rg_length = 0\<rparr>\<rparr>)"

section \<open>Superblock\<close>

definition u32_checked_add_none :: "32 word \<Rightarrow> 32 word \<Rightarrow> bool" where
  "u32_checked_add_none a b \<longleftrightarrow> 2 ^ 32 \<le> unat a + unat b"

definition superblock_new ::
  "uuid \<Rightarrow> uuid \<Rightarrow> string \<Rightarrow> 32 word \<Rightarrow> 32 word \<Rightarrow> 32 word \<Rightarrow> 64 word \<Rightarrow> 64 word \<Rightarrow> string
    \<Rightarrow> raw_superblock result" where
  "superblock_new pool_uuid device_uuid disk_id disk_index k m chunk_size capacity label =
     (if k = 0 \<or> u32_checked_add_none k m \<or> chunk_size = 0 then Inl Invalid
      else if disk_id = [] \<or> length disk_id \<ge> 64 then Inl Invalid
      else if length label \<ge> 128 then Inl Invalid
      else if capacity < MIN_DEVICE_BYTES then Inl Invalid
      else (let regions = raw_regions_for_capacity capacity;
                backup = (of_nat (align_down (unat capacity - BACKUP_REGION_SIZE) 4096) :: 64 word);
                data_end = backup
            in if data_end \<le> rg_offset (rl_data regions) then Inl Invalid
               else Inr
                 \<lparr>sb_pool_uuid = pool_uuid, sb_device_uuid = device_uuid, sb_disk_id = disk_id,
                  sb_disk_index = disk_index, sb_k = k, sb_m = m, sb_chunk_size = chunk_size,
                  sb_generation = 1, sb_clean = True, sb_feature_flags = 0,
                  sb_required_feature_flags = 0, sb_block_size = of_nat RAW_BLOCK_SIZE,
                  sb_sector_size = 512, sb_journal = rl_journal regions,
                  sb_metadata = rl_metadata regions, sb_allocator = rl_allocator regions,
                  sb_data = \<lparr>rg_offset = rg_offset (rl_data regions),
                             rg_length = data_end - rg_offset (rl_data regions)\<rparr>,
                  sb_backup_superblock_offset = backup, sb_label = label,
                  sb_last_mount_time = 0, sb_last_clean_unmount_time = 0\<rparr>))"

definition device_label :: "raw_superblock \<Rightarrow> raw_device_label" where
  "device_label sb =
     \<lparr>lb_pool_uuid = sb_pool_uuid sb, lb_device_uuid = sb_device_uuid sb, lb_disk_id = sb_disk_id sb,
      lb_disk_index = sb_disk_index sb, lb_generation = sb_generation sb, lb_label = sb_label sb\<rparr>"

definition superblock_fields :: "raw_superblock \<Rightarrow> field list" where
  "superblock_fields sb =
     [(0, RAW_SUPER_MAGIC),
      put_u32 16 RAW_FORMAT_VERSION,
      put_u32 20 1,
      put_u32 24 ENDIAN_MARKER,
      put_u64 32 (sb_generation sb),
      put_u64 40 (sb_feature_flags sb),
      put_u64 48 (sb_required_feature_flags sb),
      put_u32 56 (sb_block_size sb),
      put_u32 60 (sb_sector_size sb),
      (64, sb_pool_uuid sb),
      (80, sb_device_uuid sb),
      put_u32 96 (sb_disk_index sb),
      put_u32 100 (sb_k sb),
      put_u32 104 (sb_m sb),
      put_u32 108 (if sb_clean sb then 1 else 0),
      put_u64 112 (sb_chunk_size sb)]
     @ put_region 128 (sb_journal sb)
     @ put_region 144 (sb_metadata sb)
     @ put_region 160 (sb_allocator sb)
     @ put_region 176 (sb_data sb)
     @ [put_u64 192 (sb_backup_superblock_offset sb),
        put_u64 200 (sb_last_mount_time sb),
        put_u64 208 (sb_last_clean_unmount_time sb),
        put_fixed_str 256 64 (sb_disk_id sb),
        put_fixed_str 320 128 (sb_label sb)]"

definition superblock_encode :: "(byte list \<Rightarrow> byte list) \<Rightarrow> raw_superblock \<Rightarrow> byte list" where
  "superblock_encode sha sb =
     (let out = write_fields (replicate SUPERBLOCK_SIZE 0) (superblock_fields sb)
      in put_bytes 224 (checksum_with_zeroed_field sha out 224 32) out)"

definition is_power_of_two :: "32 word \<Rightarrow> bool" where
  "is_power_of_two w \<longleftrightarrow> w \<noteq> 0 \<and> w AND (w - 1) = 0"

definition superblock_decode :: "(byte list \<Rightarrow> byte list) \<Rightarrow> byte list \<Rightarrow> raw_superblock result" where
  "superblock_decode sha bytes =
     (if length bytes < SUPERBLOCK_SIZE then Inl IncompatibleFormat
      else if take 16 bytes \<noteq> RAW_SUPER_MAGIC then Inl IncompatibleFormat
      else rbind (get_u32 bytes 16) (\<lambda>version. if version \<noteq> RAW_FORMAT_VERSION then Inl IncompatibleFormat
      else rbind (get_u32 bytes 20) (\<lambda>min_version. if min_version > RAW_FORMAT_VERSION then Inl IncompatibleFormat
      else rbind (get_u32 bytes 24) (\<lambda>marker. if marker \<noteq> ENDIAN_MARKER then Inl IncompatibleFormat
      else if checksum_with_zeroed_field sha (take SUPERBLOCK_SIZE bytes) 224 32 \<noteq> get_bytes 224 32 bytes
      then Inl Checksum
      else rbind (get_u64 bytes 48) (\<lambda>required. if required AND NOT 0 \<noteq> 0 then Inl IncompatibleFormat
      else rbind (get_u32 bytes 56) (\<lambda>block_size.
           rbind (get_u32 bytes 60) (\<lambda>sector_size.
           rbind (get_u32 bytes 100) (\<lambda>k.
           rbind (get_u32 bytes 104) (\<lambda>m.
           rbind (get_u64 bytes 112) (\<lambda>chunk_size.
           if block_size \<noteq> of_nat RAW_BLOCK_SIZE then Inl IncompatibleFormat
      else if sector_size = 0 \<or> \<not> is_power_of_two sector_size \<or> block_size mod sector_size \<noteq> 0
      then Inl IncompatibleFormat
      else if k = 0 \<or> u32_checked_add_none k m \<or> chunk_size = 0 then Inl IncompatibleFormat
      else rbind (get_region bytes 128) (\<lambda>journal.
           rbind (get_region bytes 144) (\<lambda>metadata.
           rbind (get_region bytes 160) (\<lambda>allocator.
           rbind (get_region bytes 176) (\<lambda>data.
           rbind (validate_region journal) (\<lambda>_.
           rbind (validate_region metadata) (\<lambda>_.
           rbind (validate_region allocator) (\<lambda>_.
           rbind (validate_region data) (\<lambda>_.
           rbind (get_u64 bytes 192) (\<lambda>backup.
           rbind (validate_region_order journal metadata allocator data backup) (\<lambda>_.
           rbind (uuid_from bytes 64) (\<lambda>pool_uuid.
           rbind (uuid_from bytes 80) (\<lambda>device_uuid.
           rbind (get_fixed_str bytes 256 64) (\<lambda>disk_id.
           rbind (get_u32 bytes 96) (\<lambda>disk_index.
           rbind (get_u64 bytes 32) (\<lambda>generation.
           rbind (get_u32 bytes 108) (\<lambda>clean.
           rbind (get_u64 bytes 40) (\<lambda>feature_flags.
           rbind (get_fixed_str bytes 320 128) (\<lambda>label.
           rbind (get_u64 bytes 200) (\<lambda>mount_time.
           rbind (get_u64 bytes 208) (\<lambda>unmount_time.
             Inr \<lparr>sb_pool_uuid = pool_uuid, sb_device_uuid = device_uuid, sb_disk_id = disk_id,
                  sb_disk_index = disk_index, sb_k = k, sb_m = m, sb_chunk_size = chunk_size,
                  sb_generation = generation, sb_clean = (clean \<noteq> 0), sb_feature_flags = feature_flags,
                  sb_required_feature_flags = required, sb_block_size = block_size,
                  sb_sector_size = sector_size, sb_journal = journal, sb_metadata = metadata,
                  sb_allocator = allocator, sb_data = data, sb_backup_superblock_offset = backup,
                  sb_label = label, sb_last_mount_time = mount_time,
                  sb_last_clean_unmount_time = unmount_time\<rparr>))))))))))))))))))))))))))))))"

definition validate_device_capacity :: "raw_superblock \<Rightarrow> 64 word \<Rightarrow> unit result" where
  "validate_device_capacity sb capacity =
     rbind (ok_or IncompatibleFormat
              (checked_add (unat (sb_backup_superblock_offset sb)) (SUPERBLOCK_SIZE + DEVICE_LABEL_SIZE)))
       (\<lambda>backup_end.
          if backup_end > unat capacity then Inl IncompatibleFormat
          else rbind (try_map (\<lambda>region.
                 rbind (ok_or IncompatibleFormat (region_end region)) (\<lambda>e.
                   if e > unat capacity then Inl IncompatibleFormat else Inr ()))
                 [sb_journal sb, sb_metadata sb, sb_allocator sb, sb_data sb])
               (\<lambda>_. Inr ()))"

section \<open>Device label\<close>

definition label_fields :: "raw_device_label \<Rightarrow> field list" where
  "label_fields lb =
     [(0, RAW_LABEL_MAGIC),
      put_u32 16 RAW_FORMAT_VERSION,
      put_u32 20 ENDIAN_MARKER,
      (32, lb_pool_uuid lb),
      (48, lb_device_uuid lb),
      put_u32 64 (lb_disk_index lb),
      put_u64 72 (lb_generation lb),
      put_fixed_str 128 64 (lb_disk_id lb),
      put_fixed_str 192 128 (lb_label lb)]"

definition label_encode :: "(byte list \<Rightarrow> byte list) \<Rightarrow> raw_device_label \<Rightarrow> byte list" where
  "label_encode sha lb =
     (let out = write_fields (replicate DEVICE_LABEL_SIZE 0) (label_fields lb)
      in put_bytes 96 (checksum_with_zeroed_field sha out 96 32) out)"

definition label_decode :: "(byte list \<Rightarrow> byte list) \<Rightarrow> byte list \<Rightarrow> raw_device_label result" where
  "label_decode sha bytes =
     (if length bytes < DEVICE_LABEL_SIZE then Inl IncompatibleFormat
      else if take 16 bytes \<noteq> RAW_LABEL_MAGIC then Inl IncompatibleFormat
      else rbind (get_u32 bytes 16) (\<lambda>version. if version \<noteq> RAW_FORMAT_VERSION then Inl IncompatibleFormat
      else rbind (get_u32 bytes 20) (\<lambda>marker. if marker \<noteq> ENDIAN_MARKER then Inl IncompatibleFormat
      else if checksum_with_zeroed_field sha (take DEVICE_LABEL_SIZE bytes) 96 32 \<noteq> get_bytes 96 32 bytes
      then Inl Checksum
      else rbind (uuid_from bytes 32) (\<lambda>pool_uuid.
           rbind (uuid_from bytes 48) (\<lambda>device_uuid.
           rbind (get_fixed_str bytes 128 64) (\<lambda>disk_id.
           rbind (get_u32 bytes 64) (\<lambda>disk_index.
           rbind (get_u64 bytes 72) (\<lambda>generation.
           rbind (get_fixed_str bytes 192 128) (\<lambda>label.
             Inr \<lparr>lb_pool_uuid = pool_uuid, lb_device_uuid = device_uuid, lb_disk_id = disk_id,
                  lb_disk_index = disk_index, lb_generation = generation, lb_label = label\<rparr>)))))))))"

section \<open>Reading back what was written\<close>

fun in_order :: "nat \<Rightarrow> nat \<Rightarrow> field list \<Rightarrow> bool" where
  "in_order lo n [] \<longleftrightarrow> lo \<le> n"
| "in_order lo n (f # fs) \<longleftrightarrow> lo \<le> fst f \<and> in_order (fst f + length (snd f)) n fs"

lemma in_order_le: "in_order lo n fs \<Longrightarrow> lo \<le> n"
  by (induction fs arbitrary: lo) fastforce+

lemma write_fields_Nil [simp]: "write_fields bs [] = bs"
  by (simp add: write_fields_def)

lemma write_fields_Cons [simp]:
  "write_fields bs (f # fs) = write_fields (put_bytes (fst f) (snd f) bs) fs"
  by (simp add: write_fields_def)

lemma length_write_fields: "in_order lo (length bs) fs \<Longrightarrow> length (write_fields bs fs) = length bs"
proof (induction fs arbitrary: lo bs)
  case (Cons f fs)
  then have "fst f + length (snd f) \<le> length bs" by (auto dest: in_order_le)
  then show ?case
    using Cons.IH [of "fst f + length (snd f)" "put_bytes (fst f) (snd f) bs"] Cons.prems by simp
qed simp

lemma get_write_gap:
  assumes "in_order lo (length bs) fs"
    and "\<forall>f \<in> set fs. fst f + length (snd f) \<le> off \<or> off + n \<le> fst f"
  shows "get_bytes off n (write_fields bs fs) = get_bytes off n bs"
  using assms
proof (induction fs arbitrary: lo bs)
  case (Cons f fs)
  have "fst f + length (snd f) \<le> length bs" using Cons.prems(1) by (auto dest: in_order_le)
  moreover have "get_bytes off n (put_bytes (fst f) (snd f) bs) = get_bytes off n bs"
    using Cons.prems(2) calculation by (auto intro: get_put_before get_put_after)
  ultimately show ?case
    using Cons.IH [of "fst f + length (snd f)" "put_bytes (fst f) (snd f) bs"] Cons.prems by simp
qed simp

lemma in_order_lower: "in_order lo n fs \<Longrightarrow> f \<in> set fs \<Longrightarrow> lo \<le> fst f"
  by (induction fs arbitrary: lo) fastforce+

lemma get_write_field:
  assumes "in_order lo (length bs) fs" "(off, d) \<in> set fs"
  shows "get_bytes off (length d) (write_fields bs fs) = d"
  using assms
proof (induction fs arbitrary: lo bs)
  case (Cons f fs)
  have len: "fst f + length (snd f) \<le> length bs" using Cons.prems(1) by (auto dest: in_order_le)
  let ?bs = "put_bytes (fst f) (snd f) bs"
  have ord: "in_order (fst f + length (snd f)) (length ?bs) fs" using Cons.prems(1) len by simp
  show ?case
  proof (cases "(off, d) \<in> set fs")
    case True
    then show ?thesis using Cons.IH [OF ord] by simp
  next
    case False
    then have f: "f = (off, d)" using Cons.prems(2) by simp
    have "get_bytes off (length d) (write_fields ?bs fs) = get_bytes off (length d) ?bs"
      using in_order_lower [OF ord] f by (intro get_write_gap [OF ord]) auto
    then show ?thesis using len by (simp add: f get_put_same)
  qed
qed simp

definition sealed :: "(byte list \<Rightarrow> byte list) \<Rightarrow> nat \<Rightarrow> nat \<Rightarrow> field list \<Rightarrow> byte list" where
  "sealed sha n c fs =
     (let out = write_fields (replicate n 0) fs
      in put_bytes c (checksum_with_zeroed_field sha out c 32) out)"

lemma length_sealed:
  "in_order 0 n fs \<Longrightarrow> (\<And>x. length (sha x) = 32) \<Longrightarrow> c + 32 \<le> n \<Longrightarrow> length (sealed sha n c fs) = n"
  using length_write_fields [of 0 "replicate n 0" fs]
  by (simp add: sealed_def Let_def checksum_with_zeroed_field_def)

lemma sealed_get:
  assumes "in_order 0 n fs" "\<And>x. length (sha x) = 32" "c + 32 \<le> n" "off + k \<le> c \<or> c + 32 \<le> off"
  shows "get_bytes off k (sealed sha n c fs) = get_bytes off k (write_fields (replicate n 0) fs)"
proof -
  have len: "length (write_fields (replicate n 0) fs) = n"
    using length_write_fields [of 0 "replicate n 0" fs] assms(1) by simp
  show ?thesis
    using assms(2-4) len unfolding sealed_def Let_def checksum_with_zeroed_field_def
    by (elim disjE) (simp_all add: get_put_before get_put_after)
qed

lemma sealed_field:
  assumes "in_order 0 n fs" "\<And>x. length (sha x) = 32" "c + 32 \<le> n" "(off, d) \<in> set fs"
    and "off + length d \<le> c \<or> c + 32 \<le> off" "k = length d"
  shows "get_bytes off k (sealed sha n c fs) = d"
  using sealed_get [OF assms(1-3), of off k] assms(4-6) get_write_field [of 0 "replicate n 0" fs off d] assms(1)
  by simp

lemma sealed_checksum:
  assumes "in_order 0 n fs" "\<And>x. length (sha x) = 32" "c + 32 \<le> n"
  shows "checksum_with_zeroed_field sha (sealed sha n c fs) c 32 = get_bytes c 32 (sealed sha n c fs)"
proof -
  let ?out = "write_fields (replicate n 0) fs"
  have len: "length ?out = n" using length_write_fields [of 0 "replicate n 0" fs] assms(1) by simp
  have "get_bytes c 32 (sealed sha n c fs) = checksum_with_zeroed_field sha ?out c 32"
    unfolding sealed_def Let_def using assms(2,3) len
    by (intro get_put_same) (simp_all add: checksum_with_zeroed_field_def)
  moreover have "take c (sealed sha n c fs) = take c ?out" "drop (c + 32) (sealed sha n c fs) = drop (c + 32) ?out"
    using assms(2,3) len by (simp_all add: sealed_def Let_def put_bytes_def checksum_with_zeroed_field_def)
  ultimately show ?thesis by (simp add: checksum_with_zeroed_field_def)
qed

lemma get_bytes_split: "get_bytes off (a + b) bs = get_bytes off a bs @ get_bytes (off + a) b bs"
  by (simp add: get_bytes_def take_add add.commute)

definition str_ok :: "nat \<Rightarrow> string \<Rightarrow> bool" where
  "str_ok n v \<longleftrightarrow> length v < n \<and> CHR 0x00 \<notin> set v \<and> valid_utf8 (nat_bytes v)"

lemma of_char_word_zero: "(of_nat (of_char c) :: byte) = 0 \<longleftrightarrow> c = CHR 0x00"
proof
  assume "(of_nat (of_char c) :: byte) = 0"
  then have "bytes_str (str_bytes [c]) = [char_of (0 :: nat)]" by (simp add: bytes_str_def str_bytes_def)
  then show "c = CHR 0x00" by (simp add: char_of_def)
qed simp

lemma takeWhile_str:
  assumes "CHR 0x00 \<notin> set v"
  shows "takeWhile (\<lambda>b. b \<noteq> 0) (str_bytes v @ replicate m 0) = str_bytes v"
proof -
  have "\<forall>b \<in> set (str_bytes v). b \<noteq> 0"
    using assms by (auto simp: str_bytes_def of_char_word_zero simp del: of_nat_of_char)
  then show ?thesis by (simp add: takeWhile_append2)
qed

lemma from_utf8_str:
  assumes "valid_utf8 (nat_bytes v)"
  shows "from_utf8 (str_bytes v) = Some v"
proof -
  have "unat (of_nat (of_char c) :: byte) = of_char c" for c
    by (simp add: unat_of_nat del: of_nat_of_char)
  then have "map unat (str_bytes v) = nat_bytes v"
    by (simp add: str_bytes_def nat_bytes_def o_def del: of_nat_of_char)
  then show ?thesis using assms by (simp add: from_utf8_def)
qed

lemma sealed_str:
  assumes ord: "in_order 0 n fs" and sha: "\<And>x. length (sha x) = 32" and c: "c + 32 \<le> n"
    and f: "put_fixed_str off len v \<in> set fs" and v: "str_ok len v"
    and apart: "off + len \<le> c \<or> c + 32 \<le> off" and bound: "off + len \<le> n"
    and gap: "\<forall>g \<in> set fs. g = put_fixed_str off len v \<or> fst g + length (snd g) \<le> off \<or> off + len \<le> fst g"
  shows "get_fixed_str (sealed sha n c fs) off len = Inr v"
proof -
  let ?l = "length v"
  have put: "put_fixed_str off len v = (off, str_bytes v)"
    using v by (auto simp: put_fixed_str_def str_ok_def str_bytes_def Let_def min_def)
  have l: "?l \<le> len" "length (str_bytes v) = ?l" using v by (simp_all add: str_ok_def str_bytes_def)
  have "get_bytes off ?l (sealed sha n c fs) = str_bytes v"
    using f put l apart by (intro sealed_field [OF ord sha c]) auto
  moreover have "get_bytes (off + ?l) (len - ?l) (sealed sha n c fs) = replicate (len - ?l) 0"
  proof -
    have "get_bytes (off + ?l) (len - ?l) (sealed sha n c fs)
        = get_bytes (off + ?l) (len - ?l) (write_fields (replicate n 0) fs)"
      using apart l by (intro sealed_get [OF ord sha c]) auto
    also have "\<dots> = get_bytes (off + ?l) (len - ?l) (replicate n 0)"
      using gap put l ord by (intro get_write_gap [where lo = 0]) (force simp del: in_order.simps)+
    also have "\<dots> = replicate (len - ?l) 0" using bound l by (simp add: get_bytes_def)
    finally show ?thesis .
  qed
  ultimately have "get_bytes off len (sealed sha n c fs) = str_bytes v @ replicate (len - ?l) 0"
    using get_bytes_split [of off ?l "len - ?l" "sealed sha n c fs"] l by simp
  then show ?thesis
    using v bound length_sealed [OF ord sha c]
    by (simp add: get_fixed_str_def takeWhile_str from_utf8_str str_ok_def ok_or_def)
qed

lemma get_u32_sealed:
  assumes "in_order 0 n fs" "\<And>x. length (sha x) = 32" "c + 32 \<le> n" "put_u32 off v \<in> set fs"
    and "off + 4 \<le> c \<or> c + 32 \<le> off" "off + 4 \<le> n"
  shows "get_u32 (sealed sha n c fs) off = Inr v"
proof -
  have "get_bytes off 4 (sealed sha n c fs) = le_bytes 4 v"
    using assms(4,5) by (intro sealed_field [OF assms(1-3)]) (auto simp: put_u32_def)
  then show ?thesis using assms(6) length_sealed [OF assms(1-3)] by (simp add: get_u32_def le_word_bytes)
qed

lemma get_u64_sealed:
  assumes "in_order 0 n fs" "\<And>x. length (sha x) = 32" "c + 32 \<le> n" "put_u64 off v \<in> set fs"
    and "off + 8 \<le> c \<or> c + 32 \<le> off" "off + 8 \<le> n"
  shows "get_u64 (sealed sha n c fs) off = Inr v"
proof -
  have "get_bytes off 8 (sealed sha n c fs) = le_bytes 8 v"
    using assms(4,5) by (intro sealed_field [OF assms(1-3)]) (auto simp: put_u64_def)
  then show ?thesis using assms(6) length_sealed [OF assms(1-3)] by (simp add: get_u64_def le_word_bytes)
qed

lemma get_region_sealed:
  assumes "in_order 0 n fs" "\<And>x. length (sha x) = 32" "c + 32 \<le> n" "set (put_region off r) \<subseteq> set fs"
    and "off + 16 \<le> c \<or> c + 32 \<le> off" "off + 16 \<le> n"
  shows "get_region (sealed sha n c fs) off = Inr r"
  using get_u64_sealed [OF assms(1-3), of off "rg_offset r"]
    get_u64_sealed [OF assms(1-3), of "off + 8" "rg_length r"] assms(4-6)
  by (auto simp: get_region_def put_region_def)

lemma uuid_from_sealed:
  assumes "in_order 0 n fs" "\<And>x. length (sha x) = 32" "c + 32 \<le> n" "(off, u) \<in> set fs" "length u = 16"
    and "off + 16 \<le> c \<or> c + 32 \<le> off" "off + 16 \<le> n"
  shows "uuid_from (sealed sha n c fs) off = Inr u"
proof -
  have "get_bytes off 16 (sealed sha n c fs) = u"
    using assms(5,6) by (intro sealed_field [OF assms(1-4)]) simp_all
  then show ?thesis using assms(7) length_sealed [OF assms(1-3)] by (simp add: uuid_from_def)
qed

section \<open>Round trips\<close>

definition regions_ok :: "raw_superblock \<Rightarrow> bool" where
  "regions_ok sb \<longleftrightarrow>
     (\<forall>r \<in> {sb_journal sb, sb_metadata sb, sb_allocator sb, sb_data sb}. validate_region r = Inr ())
     \<and> validate_region_order (sb_journal sb) (sb_metadata sb) (sb_allocator sb) (sb_data sb)
         (sb_backup_superblock_offset sb) = Inr ()"

text \<open>The superblocks that can be represented on disk.\<close>

definition superblock_ok :: "raw_superblock \<Rightarrow> bool" where
  "superblock_ok sb \<longleftrightarrow>
     length (sb_pool_uuid sb) = 16 \<and> length (sb_device_uuid sb) = 16
     \<and> str_ok 64 (sb_disk_id sb) \<and> str_ok 128 (sb_label sb)
     \<and> sb_required_feature_flags sb = 0 \<and> sb_block_size sb = 4096
     \<and> is_power_of_two (sb_sector_size sb) \<and> 4096 mod sb_sector_size sb = 0
     \<and> sb_k sb \<noteq> 0 \<and> \<not> u32_checked_add_none (sb_k sb) (sb_m sb) \<and> sb_chunk_size sb \<noteq> 0
     \<and> regions_ok sb"

lemma length_put_fixed [simp]: "length (snd (put_fixed_str off len v)) = min (length v) (len - 1)"
  "fst (put_fixed_str off len v) = off"
  by (simp_all add: put_fixed_str_def Let_def str_bytes_def)

lemma put_fields [simp]:
  "fst (put_u32 off w) = off" "length (snd (put_u32 off w)) = 4"
  "fst (put_u64 off v) = off" "length (snd (put_u64 off v)) = 8"
  by (simp_all add: put_u32_def put_u64_def)

lemma superblock_fields_in_order:
  assumes "length (sb_pool_uuid sb) = 16" "length (sb_device_uuid sb) = 16"
  shows "in_order 0 4096 (superblock_fields sb)"
  using assms by (simp add: superblock_fields_def put_region_def RAW_SUPER_MAGIC_def str_bytes_def min.coboundedI2)

lemma superblock_encode_sealed: "superblock_encode sha sb = sealed sha 4096 224 (superblock_fields sb)"
  by (simp add: superblock_encode_def sealed_def SUPERBLOCK_SIZE_def)

lemma superblock_encode_fields:
  assumes ok: "superblock_ok sb" and sha: "\<And>x. length (sha x) = 32"
  defines "enc \<equiv> superblock_encode sha sb"
  shows "length enc = 4096" "take 16 enc = RAW_SUPER_MAGIC"
    "checksum_with_zeroed_field sha enc 224 32 = get_bytes 224 32 enc"
    "get_u32 enc 16 = Inr RAW_FORMAT_VERSION" "get_u32 enc 20 = Inr 1" "get_u32 enc 24 = Inr ENDIAN_MARKER"
    "get_u64 enc 32 = Inr (sb_generation sb)" "get_u64 enc 40 = Inr (sb_feature_flags sb)"
    "get_u64 enc 48 = Inr (sb_required_feature_flags sb)" "get_u32 enc 56 = Inr (sb_block_size sb)"
    "get_u32 enc 60 = Inr (sb_sector_size sb)" "uuid_from enc 64 = Inr (sb_pool_uuid sb)"
    "uuid_from enc 80 = Inr (sb_device_uuid sb)" "get_u32 enc 96 = Inr (sb_disk_index sb)"
    "get_u32 enc 100 = Inr (sb_k sb)" "get_u32 enc 104 = Inr (sb_m sb)"
    "get_u32 enc 108 = Inr (if sb_clean sb then 1 else 0)" "get_u64 enc 112 = Inr (sb_chunk_size sb)"
    "get_region enc 128 = Inr (sb_journal sb)" "get_region enc 144 = Inr (sb_metadata sb)"
    "get_region enc 160 = Inr (sb_allocator sb)" "get_region enc 176 = Inr (sb_data sb)"
    "get_u64 enc 192 = Inr (sb_backup_superblock_offset sb)" "get_u64 enc 200 = Inr (sb_last_mount_time sb)"
    "get_u64 enc 208 = Inr (sb_last_clean_unmount_time sb)"
    "get_fixed_str enc 256 64 = Inr (sb_disk_id sb)" "get_fixed_str enc 320 128 = Inr (sb_label sb)"
proof -
  have uuids: "length (sb_pool_uuid sb) = 16" "length (sb_device_uuid sb) = 16"
    and strs: "str_ok 64 (sb_disk_id sb)" "str_ok 128 (sb_label sb)"
    using ok by (simp_all add: superblock_ok_def)
  note ord = superblock_fields_in_order [OF uuids]
  have c: "224 + 32 \<le> (4096 :: nat)" by simp
  note enc = superblock_encode_sealed [of sha sb]
  note u32 = get_u32_sealed [OF ord sha c] and u64 = get_u64_sealed [OF ord sha c]
    and reg = get_region_sealed [OF ord sha c] and uuid = uuid_from_sealed [OF ord sha c]
  show "length enc = 4096" using length_sealed [OF ord sha c] by (simp add: enc_def enc)
  have "get_bytes 0 16 enc = RAW_SUPER_MAGIC"
    unfolding enc_def enc
    by (rule sealed_field [OF ord sha c]) (simp_all add: superblock_fields_def RAW_SUPER_MAGIC_def str_bytes_def)
  then show "take 16 enc = RAW_SUPER_MAGIC" by (simp add: get_bytes_def)
  show "checksum_with_zeroed_field sha enc 224 32 = get_bytes 224 32 enc"
    unfolding enc_def enc by (rule sealed_checksum [OF ord sha c])
  show "get_u32 enc 16 = Inr RAW_FORMAT_VERSION" "get_u32 enc 20 = Inr 1" "get_u32 enc 24 = Inr ENDIAN_MARKER"
    "get_u32 enc 56 = Inr (sb_block_size sb)" "get_u32 enc 60 = Inr (sb_sector_size sb)"
    "get_u32 enc 96 = Inr (sb_disk_index sb)" "get_u32 enc 100 = Inr (sb_k sb)" "get_u32 enc 104 = Inr (sb_m sb)"
    "get_u32 enc 108 = Inr (if sb_clean sb then 1 else 0)"
    unfolding enc_def enc by (rule u32; simp add: superblock_fields_def)+
  show "get_u64 enc 32 = Inr (sb_generation sb)" "get_u64 enc 40 = Inr (sb_feature_flags sb)"
    "get_u64 enc 48 = Inr (sb_required_feature_flags sb)" "get_u64 enc 112 = Inr (sb_chunk_size sb)"
    "get_u64 enc 192 = Inr (sb_backup_superblock_offset sb)" "get_u64 enc 200 = Inr (sb_last_mount_time sb)"
    "get_u64 enc 208 = Inr (sb_last_clean_unmount_time sb)"
    unfolding enc_def enc by (rule u64; simp add: superblock_fields_def)+
  show "get_region enc 128 = Inr (sb_journal sb)" "get_region enc 144 = Inr (sb_metadata sb)"
    "get_region enc 160 = Inr (sb_allocator sb)" "get_region enc 176 = Inr (sb_data sb)"
    unfolding enc_def enc by (rule reg; auto simp: superblock_fields_def)+
  show "uuid_from enc 64 = Inr (sb_pool_uuid sb)" "uuid_from enc 80 = Inr (sb_device_uuid sb)"
    unfolding enc_def enc by (rule uuid; simp add: superblock_fields_def uuids)+
  show "get_fixed_str enc 256 64 = Inr (sb_disk_id sb)" "get_fixed_str enc 320 128 = Inr (sb_label sb)"
    unfolding enc_def enc
    by (rule sealed_str [OF ord sha c]; simp add: superblock_fields_def strs put_region_def uuids
        RAW_SUPER_MAGIC_def str_bytes_def min.coboundedI2)+
qed

lemma superblock_eta:
  "\<lparr>sb_pool_uuid = sb_pool_uuid sb, sb_device_uuid = sb_device_uuid sb, sb_disk_id = sb_disk_id sb,
    sb_disk_index = sb_disk_index sb, sb_k = sb_k sb, sb_m = sb_m sb, sb_chunk_size = sb_chunk_size sb,
    sb_generation = sb_generation sb, sb_clean = sb_clean sb, sb_feature_flags = sb_feature_flags sb,
    sb_required_feature_flags = sb_required_feature_flags sb, sb_block_size = sb_block_size sb,
    sb_sector_size = sb_sector_size sb, sb_journal = sb_journal sb, sb_metadata = sb_metadata sb,
    sb_allocator = sb_allocator sb, sb_data = sb_data sb,
    sb_backup_superblock_offset = sb_backup_superblock_offset sb, sb_label = sb_label sb,
    sb_last_mount_time = sb_last_mount_time sb,
    sb_last_clean_unmount_time = sb_last_clean_unmount_time sb\<rparr> = (sb :: raw_superblock)"
  by simp

lemma superblock_decode_encode_ok:
  assumes ok: "superblock_ok sb" and sha: "\<And>x. length (sha x) = 32"
  shows "superblock_decode sha (superblock_encode sha sb) = Inr sb"
proof -
  note f = superblock_encode_fields [OF ok sha]
  have regs: "validate_region (sb_journal sb) = Inr ()" "validate_region (sb_metadata sb) = Inr ()"
    "validate_region (sb_allocator sb) = Inr ()" "validate_region (sb_data sb) = Inr ()"
    "validate_region_order (sb_journal sb) (sb_metadata sb) (sb_allocator sb) (sb_data sb)
         (sb_backup_superblock_offset sb) = Inr ()"
    using ok by (simp_all add: superblock_ok_def regions_ok_def)
  have rest: "sb_required_feature_flags sb = 0" "sb_block_size sb = 4096" "is_power_of_two (sb_sector_size sb)"
    "4096 mod sb_sector_size sb = 0" "sb_k sb \<noteq> 0" "\<not> u32_checked_add_none (sb_k sb) (sb_m sb)"
    "sb_chunk_size sb \<noteq> 0"
    using ok by (simp_all add: superblock_ok_def)
  have "sb_sector_size sb \<noteq> 0" using rest(3) by (simp add: is_power_of_two_def)
  moreover have "((if sb_clean sb then 1 else 0 :: 32 word) \<noteq> 0) = sb_clean sb" by simp
  ultimately show ?thesis
    using rest superblock_eta [of sb]
    by (simp add: superblock_decode_def f regs SUPERBLOCK_SIZE_def RAW_BLOCK_SIZE_def RAW_FORMAT_VERSION_def)
qed

text \<open>C20. A superblock that is written to disk is read back unchanged: for every superblock whose
  fields \<open>decode\<close> accepts, \<open>decode (encode sb) = Ok(sb)\<close>.\<close>

theorem superblock_decode_encode:
  assumes "superblock_ok sb" "\<And>x. length (sha x) = 32"
  shows "superblock_decode sha (superblock_encode sha sb) = Inr sb"
  by (rule superblock_decode_encode_ok [OF assms])

lemma label_fields_in_order:
  assumes "length (lb_pool_uuid lb) = 16" "length (lb_device_uuid lb) = 16"
  shows "in_order 0 4096 (label_fields lb)"
  using assms by (simp add: label_fields_def RAW_LABEL_MAGIC_def str_bytes_def min.coboundedI2)

definition label_ok :: "raw_device_label \<Rightarrow> bool" where
  "label_ok lb \<longleftrightarrow> length (lb_pool_uuid lb) = 16 \<and> length (lb_device_uuid lb) = 16
     \<and> str_ok 64 (lb_disk_id lb) \<and> str_ok 128 (lb_label lb)"

text \<open>C22. A device label that is written to disk is read back unchanged.\<close>

theorem label_decode_encode:
  assumes ok: "label_ok lb" and sha: "\<And>x. length (sha x) = 32"
  shows "label_decode sha (label_encode sha lb) = Inr lb"
proof -
  have uuids: "length (lb_pool_uuid lb) = 16" "length (lb_device_uuid lb) = 16"
    and strs: "str_ok 64 (lb_disk_id lb)" "str_ok 128 (lb_label lb)"
    using ok by (simp_all add: label_ok_def)
  note ord = label_fields_in_order [OF uuids]
  have c: "96 + 32 \<le> (4096 :: nat)" by simp
  define enc where "enc = sealed sha 4096 96 (label_fields lb)"
  have enc: "label_encode sha lb = enc"
    by (simp add: enc_def label_encode_def sealed_def DEVICE_LABEL_SIZE_def)
  have len: "length enc = 4096" unfolding enc_def by (rule length_sealed [OF ord sha c])
  have "get_bytes 0 16 enc = RAW_LABEL_MAGIC"
    unfolding enc_def
    by (rule sealed_field [OF ord sha c]) (simp_all add: label_fields_def RAW_LABEL_MAGIC_def str_bytes_def)
  then have magic: "take 16 enc = RAW_LABEL_MAGIC" by (simp add: get_bytes_def)
  have sum: "checksum_with_zeroed_field sha enc 96 32 = get_bytes 96 32 enc"
    unfolding enc_def by (rule sealed_checksum [OF ord sha c])
  have f: "get_u32 enc 16 = Inr RAW_FORMAT_VERSION" "get_u32 enc 20 = Inr ENDIAN_MARKER"
    "get_u32 enc 64 = Inr (lb_disk_index lb)"
    unfolding enc_def by (rule get_u32_sealed [OF ord sha c]; simp add: label_fields_def)+
  have g: "get_u64 enc 72 = Inr (lb_generation lb)"
    unfolding enc_def by (rule get_u64_sealed [OF ord sha c]) (simp_all add: label_fields_def)
  have u: "uuid_from enc 32 = Inr (lb_pool_uuid lb)" "uuid_from enc 48 = Inr (lb_device_uuid lb)"
    unfolding enc_def by (rule uuid_from_sealed [OF ord sha c]; simp add: label_fields_def uuids)+
  have s: "get_fixed_str enc 128 64 = Inr (lb_disk_id lb)" "get_fixed_str enc 192 128 = Inr (lb_label lb)"
    unfolding enc_def
    by (rule sealed_str [OF ord sha c]; simp add: label_fields_def strs uuids
        RAW_LABEL_MAGIC_def str_bytes_def min.coboundedI2)+
  show ?thesis
    by (simp add: enc label_decode_def len magic sum f g u s DEVICE_LABEL_SIZE_def)
qed

section \<open>Layout\<close>

abbreviation r_off :: "raw_region \<Rightarrow> nat" where "r_off r \<equiv> unat (rg_offset r)"
abbreviation r_len :: "raw_region \<Rightarrow> nat" where "r_len r \<equiv> unat (rg_length r)"
abbreviation r_end :: "raw_region \<Rightarrow> nat" where "r_end r \<equiv> r_off r + r_len r"

lemma validate_region_iff:
  "validate_region r = Inr () \<longleftrightarrow>
     4096 dvd r_off r \<and> 4096 dvd r_len r \<and> 0 < r_len r \<and> r_end r \<le> u64_max"
  by (auto simp: validate_region_def region_end_def checked_add_def ok_or_def dvd_eq_mod_eq_0
      unat_gt_0 split: if_splits)

text \<open>Primary superblock and label, journal, metadata, allocator and data follow each other
  without overlap, 4 KiB aligned and not empty, below the backup superblock.\<close>

definition layout_ok :: "raw_superblock \<Rightarrow> bool" where
  "layout_ok sb \<longleftrightarrow>
     (\<forall>r \<in> {sb_journal sb, sb_metadata sb, sb_allocator sb, sb_data sb}.
        4096 dvd r_off r \<and> 4096 dvd r_len r \<and> 0 < r_len r)
     \<and> DEVICE_LABEL_OFFSET + DEVICE_LABEL_SIZE \<le> r_off (sb_journal sb)
     \<and> r_end (sb_journal sb) \<le> r_off (sb_metadata sb)
     \<and> r_end (sb_metadata sb) \<le> r_off (sb_allocator sb)
     \<and> r_end (sb_allocator sb) \<le> r_off (sb_data sb)
     \<and> r_end (sb_data sb) \<le> unat (sb_backup_superblock_offset sb)
     \<and> 4096 dvd unat (sb_backup_superblock_offset sb)"

lemma unat_u64: "unat (w :: 64 word) \<le> u64_max"
  using unsigned_less [of w, where 'a = nat] by (simp add: u64_max_def)

lemma validate_region_order_iff:
  "validate_region_order j m a d b = Inr () \<longleftrightarrow>
     DEVICE_LABEL_OFFSET + DEVICE_LABEL_SIZE \<le> r_off j \<and> r_end j \<le> r_off m \<and> r_end m \<le> r_off a
     \<and> r_end a \<le> r_off d \<and> r_end d \<le> unat b \<and> 4096 dvd unat b"
  using unat_u64 [of "rg_offset m"] unat_u64 [of "rg_offset a"] unat_u64 [of "rg_offset d"] unat_u64 [of b]
  by (auto simp: validate_region_order_def Let_def rbind_eq_Inr_iff ok_or_def region_end_def checked_add_def
      RAW_BLOCK_SIZE_def dvd_eq_mod_eq_0 not_less split: if_splits option.splits)

lemma regions_ok_iff: "regions_ok sb \<longleftrightarrow> layout_ok sb"
proof -
  have "r_end (sb_journal sb) \<le> u64_max" "r_end (sb_metadata sb) \<le> u64_max"
    "r_end (sb_allocator sb) \<le> u64_max" "r_end (sb_data sb) \<le> u64_max"
    if "r_end (sb_journal sb) \<le> r_off (sb_metadata sb)" "r_end (sb_metadata sb) \<le> r_off (sb_allocator sb)"
      "r_end (sb_allocator sb) \<le> r_off (sb_data sb)"
      "r_end (sb_data sb) \<le> unat (sb_backup_superblock_offset sb)"
    using that unat_u64 order_trans by blast+
  then show ?thesis
    unfolding regions_ok_def layout_ok_def validate_region_iff validate_region_order_iff by auto
qed


lemma large_metadata_size:
  assumes "v = unat (large_metadata_region_size cap)"
  shows "LARGE_METADATA_REGION_SIZE \<le> v" "v \<le> LARGE_METADATA_REGION_MAX_SIZE" "4096 dvd v"
    "v \<le> max LARGE_METADATA_REGION_SIZE (unat cap div 64)"
proof -
  let ?s = "align_down (unat cap div 64) 4096"
  let ?c = "clamp ?s LARGE_METADATA_REGION_SIZE LARGE_METADATA_REGION_MAX_SIZE"
  have cap: "unat cap div 64 \<le> u64_max" using unat_u64 [of cap] by simp
  have "?c < 2 ^ 64"
    by (simp add: clamp_def LARGE_METADATA_REGION_SIZE_def LARGE_METADATA_REGION_MAX_SIZE_def)
  then have v: "v = ?c"
    by (simp add: assms large_metadata_region_size_def METADATA_CAPACITY_DIVISOR_def RAW_BLOCK_SIZE_def unat_of_nat)
  show "LARGE_METADATA_REGION_SIZE \<le> v" "v \<le> LARGE_METADATA_REGION_MAX_SIZE"
    by (simp_all add: v clamp_def LARGE_METADATA_REGION_SIZE_def LARGE_METADATA_REGION_MAX_SIZE_def)
  show "4096 dvd v"
    using align_down_dvd [OF _ cap, of 4096]
    by (auto simp: v clamp_def LARGE_METADATA_REGION_SIZE_def LARGE_METADATA_REGION_MAX_SIZE_def)
  show "v \<le> max LARGE_METADATA_REGION_SIZE (unat cap div 64)"
    using align_down_le [OF cap, of 4096] by (auto simp: v clamp_def)
qed

text \<open>The fixed part of the layout, for every capacity.\<close>

definition regions_layout :: "64 word \<Rightarrow> raw_layout_regions \<Rightarrow> bool" where
  "regions_layout cap R \<longleftrightarrow>
     (\<forall>r \<in> {rl_journal R, rl_metadata R, rl_allocator R}.
        4096 dvd r_off r \<and> 4096 dvd r_len r \<and> 0 < r_len r)
     \<and> 4096 dvd r_off (rl_data R) \<and> 1024 * 1024 \<le> r_off (rl_journal R)
     \<and> r_end (rl_journal R) \<le> r_off (rl_metadata R) \<and> r_end (rl_metadata R) \<le> r_off (rl_allocator R)
     \<and> r_end (rl_allocator R) \<le> r_off (rl_data R)
     \<and> r_off (rl_data R) + 4096 \<le> unat cap - 1024 * 1024 - 4096"

lemma raw_regions_layout:
  assumes "MIN_DEVICE_BYTES \<le> cap"
  shows "regions_layout cap (raw_regions_for_capacity cap)"
proof (cases "LARGE_LAYOUT_MIN_DEVICE_BYTES \<le> cap")
  case False
  have "20971520 \<le> unat cap" using assms by (simp add: word_le_nat_alt MIN_DEVICE_BYTES_def)
  then show ?thesis
    using False
    by (simp add: regions_layout_def raw_regions_for_capacity_def JOURNAL_REGION_OFFSET_def JOURNAL_REGION_SIZE_def
        METADATA_REGION_OFFSET_def METADATA_REGION_SIZE_def ALLOCATOR_REGION_OFFSET_def ALLOCATOR_REGION_SIZE_def
        DATA_REGION_OFFSET_def)
next
  case True
  define w where "w = large_metadata_region_size cap"
  note size = large_metadata_size [OF refl, of cap, folded w_def]
  have v: "67108864 \<le> unat w" "unat w \<le> 1073741824" "4096 dvd unat w" "unat w \<le> max 67108864 (unat cap div 64)"
    using size by (simp_all add: LARGE_METADATA_REGION_SIZE_def LARGE_METADATA_REGION_MAX_SIZE_def)
  have offs: "unat (9437184 + w) = 9437184 + unat w" "unat (9437184 + w + 4194304) = 13631488 + unat w"
    "unat (13631488 + w) = 13631488 + unat w"
    using v(2) by (simp_all add: unat_word_ariths)
  have cap: "134217728 \<le> unat cap" using True by (simp add: word_le_nat_alt LARGE_LAYOUT_MIN_DEVICE_BYTES_def)
  have "unat cap div 64 \<le> unat cap - 18874368" using cap by linarith
  then have "unat w + 13631488 + 4096 \<le> unat cap - 1048576 - 4096" using v(4) cap by linarith
  then show ?thesis
    using True v offs
    by (simp add: regions_layout_def raw_regions_for_capacity_def JOURNAL_REGION_OFFSET_def
        LARGE_JOURNAL_REGION_SIZE_def ALLOCATOR_REGION_SIZE_def Let_def flip: w_def)
qed

lemma superblock_new_Inr:
  assumes "k \<noteq> 0" "unat k + unat m < 2 ^ 32" "chunk_size \<noteq> 0" "MIN_DEVICE_BYTES \<le> cap"
    and "disk_id \<noteq> []" "length disk_id < 64" "length label < 128"
  obtains sb where "superblock_new pu du disk_id idx k m chunk_size cap label = Inr sb"
    "layout_ok sb" "unat (sb_backup_superblock_offset sb) + 8192 \<le> unat cap"
    "sb_pool_uuid sb = pu" "sb_device_uuid sb = du" "sb_disk_id sb = disk_id" "sb_label sb = label"
    "sb_k sb = k" "sb_m sb = m" "sb_chunk_size sb = chunk_size" "sb_required_feature_flags sb = 0"
    "sb_block_size sb = 4096" "sb_sector_size sb = 512"
proof -
  define R where "R = raw_regions_for_capacity cap"
  have lay: "regions_layout cap R" unfolding R_def by (rule raw_regions_layout [OF assms(4)])
  define bk where "bk = align_down (unat cap - 1048576) 4096"
  have cap: "unat cap - 1048576 \<le> u64_max" using unat_u64 [of cap] by simp
  have mincap: "20971520 \<le> unat cap" using assms(4) by (simp add: word_le_nat_alt MIN_DEVICE_BYTES_def)
  have b: "bk \<le> unat cap - 1048576" "unat cap - 1048576 < bk + 4096" "4096 dvd bk"
    unfolding bk_def
    using align_down_le [OF cap, of 4096] align_down_gt [OF _ cap, of 4096] align_down_dvd [OF _ cap, of 4096]
    by simp_all
  define bw where "bw = (of_nat bk :: 64 word)"
  have bw: "unat bw = bk"
    using b(1) cap unfolding bw_def by (simp add: unat_of_nat u64_max_def)
  let ?d = "rg_offset (rl_data R)"
  have gt: "unat ?d < bk" using lay b(2) mincap unfolding regions_layout_def by linarith
  then have dlen: "unat (bw - ?d) = bk - unat ?d"
    using bw by (simp add: unat_sub word_le_nat_alt)
  have eq: "superblock_new pu du disk_id idx k m chunk_size cap label = Inr
      \<lparr>sb_pool_uuid = pu, sb_device_uuid = du, sb_disk_id = disk_id,
       sb_disk_index = idx, sb_k = k, sb_m = m, sb_chunk_size = chunk_size,
       sb_generation = 1, sb_clean = True, sb_feature_flags = 0,
       sb_required_feature_flags = 0, sb_block_size = of_nat RAW_BLOCK_SIZE,
       sb_sector_size = 512, sb_journal = rl_journal R, sb_metadata = rl_metadata R,
       sb_allocator = rl_allocator R, sb_data = \<lparr>rg_offset = ?d, rg_length = bw - ?d\<rparr>,
       sb_backup_superblock_offset = bw, sb_label = label,
       sb_last_mount_time = 0, sb_last_clean_unmount_time = 0\<rparr>" (is "_ = Inr ?sb")
    using assms gt bw
    by (simp add: superblock_new_def u32_checked_add_none_def Let_def BACKUP_REGION_SIZE_def not_less
        word_le_nat_alt flip: R_def bk_def bw_def)
  have "4096 dvd bk - unat ?d" using lay b(3) by (simp add: regions_layout_def dvd_diff_nat)
  then have "layout_ok ?sb"
    using lay gt b(3)
    by (simp add: layout_ok_def regions_layout_def bw dlen DEVICE_LABEL_OFFSET_def DEVICE_LABEL_SIZE_def)
  then show thesis
    using eq b(1) mincap by (intro that [OF eq]) (simp_all add: bw RAW_BLOCK_SIZE_def)
qed

text \<open>C21. Formatting a device gives a superblock that mounts: for admissible parameters and any
  capacity of at least 20 MiB, \<open>new\<close> succeeds (the device always keeps a non-empty data region),
  the encoded superblock decodes to itself, and it passes the check against the capacity of
  the device.\<close>

theorem superblock_new_mountable:
  assumes "k \<noteq> 0" "unat k + unat m < 2 ^ 32" "chunk_size \<noteq> 0" "MIN_DEVICE_BYTES \<le> cap"
    and "disk_id \<noteq> []" "str_ok 64 disk_id" "str_ok 128 label" "length pu = 16" "length du = 16"
    and sha: "\<And>x. length (sha x) = 32"
  shows "\<exists>sb. superblock_new pu du disk_id idx k m chunk_size cap label = Inr sb
    \<and> superblock_decode sha (superblock_encode sha sb) = Inr sb
    \<and> validate_device_capacity sb cap = Inr ()"
proof -
  have "length disk_id < 64" "length label < 128" using assms(6,7) by (simp_all add: str_ok_def)
  then obtain sb where sb: "superblock_new pu du disk_id idx k m chunk_size cap label = Inr sb"
    and lay: "layout_ok sb" and bk: "unat (sb_backup_superblock_offset sb) + 8192 \<le> unat cap"
    and f: "sb_pool_uuid sb = pu" "sb_device_uuid sb = du" "sb_disk_id sb = disk_id" "sb_label sb = label"
      "sb_k sb = k" "sb_m sb = m" "sb_chunk_size sb = chunk_size" "sb_required_feature_flags sb = 0"
      "sb_block_size sb = 4096" "sb_sector_size sb = 512"
    using superblock_new_Inr [OF assms(1-5)] by metis
  have "superblock_ok sb"
    using assms lay f by (simp add: superblock_ok_def regions_ok_iff u32_checked_add_none_def is_power_of_two_def)
  then have "superblock_decode sha (superblock_encode sha sb) = Inr sb"
    using sha by (rule superblock_decode_encode_ok)
  moreover have "validate_device_capacity sb cap = Inr ()"
  proof -
    have "r_end (sb_data sb) \<le> unat cap" "r_end (sb_allocator sb) \<le> unat cap"
      "r_end (sb_metadata sb) \<le> unat cap" "r_end (sb_journal sb) \<le> unat cap"
      using lay bk unfolding layout_ok_def by linarith+
    then show ?thesis
      using bk unat_u64 [of cap]
      by (simp add: validate_device_capacity_def region_end_def checked_add_def ok_or_def SUPERBLOCK_SIZE_def
          DEVICE_LABEL_SIZE_def)
  qed
  ultimately show ?thesis using sb by blast
qed

section \<open>Examples\<close>

definition demo_sha :: "byte list \<Rightarrow> byte list" where
  "demo_sha bs = replicate 32 (foldl (+) 0 bs)"

definition demo_sb :: raw_superblock where
  "demo_sb = \<lparr>sb_pool_uuid = replicate 16 7, sb_device_uuid = replicate 16 9, sb_disk_id = ''disk0'',
     sb_disk_index = 0, sb_k = 4, sb_m = 2, sb_chunk_size = 262144, sb_generation = 1, sb_clean = True,
     sb_feature_flags = 0, sb_required_feature_flags = 0, sb_block_size = 4096, sb_sector_size = 512,
     sb_journal = \<lparr>rg_offset = 1048576, rg_length = 2097152\<rparr>,
     sb_metadata = \<lparr>rg_offset = 4194304, rg_length = 8388608\<rparr>,
     sb_allocator = \<lparr>rg_offset = 12582912, rg_length = 4194304\<rparr>,
     sb_data = \<lparr>rg_offset = 16777216, rg_length = 3145728\<rparr>,
     sb_backup_superblock_offset = 19922944, sb_label = ''pool'', sb_last_mount_time = 0,
     sb_last_clean_unmount_time = 0\<rparr>"

lemma demo_sha_length: "length (demo_sha x) = 32"
  by (simp add: demo_sha_def)

lemma demo_str_ok: "str_ok 64 ''disk0''" "str_ok 128 ''pool''"
  by (simp_all add: str_ok_def nat_bytes_def)

lemma demo_sb_ok: "superblock_ok demo_sb"
  by (simp add: superblock_ok_def demo_sb_def demo_str_ok regions_ok_iff layout_ok_def u32_checked_add_none_def
      is_power_of_two_def DEVICE_LABEL_OFFSET_def DEVICE_LABEL_SIZE_def)

theorem superblock_decode_encode_witness:
  "superblock_decode demo_sha (superblock_encode demo_sha demo_sb) = Inr demo_sb"
  by (rule superblock_decode_encode [OF demo_sb_ok demo_sha_length])

theorem label_decode_encode_witness:
  "label_decode demo_sha (label_encode demo_sha (device_label demo_sb)) = Inr (device_label demo_sb)"
  by (rule label_decode_encode [OF _ demo_sha_length])
     (simp add: label_ok_def device_label_def demo_sb_def demo_str_ok)


theorem superblock_new_mountable_witness:
  "\<exists>sb. superblock_new (replicate 16 7) (replicate 16 9) ''disk0'' 0 4 2 262144 20971520 ''pool'' = Inr sb
     \<and> superblock_decode demo_sha (superblock_encode demo_sha sb) = Inr sb
     \<and> validate_device_capacity sb 20971520 = Inr ()"
  by (rule superblock_new_mountable)
     (simp_all add: demo_str_ok demo_sha_length MIN_DEVICE_BYTES_def)

end
