(* ===== verification/Argos_Delta.thy ===== *)
theory Argos_Delta
  imports Argos_Error Argos_BTree Argos_Text Complex_Main
begin

text \<open>
  The metadata deltas of \<open>src/metadata/journal.rs\<close>: \<open>diff_json\<close> computes the operations that
  turn one JSON document into another, \<open>apply_delta_op\<close> applies one of them through a JSON
  pointer. JSON values follow \<open>serde_json::Value\<close>, whose objects are B-tree maps. The lookup
  \<open>Value::pointer_mut\<close> is serde's and a parameter: it gives the addressed value and the document
  after an assignment through the reference; \<open>rfc6901_pointer\<close> states its documented behaviour
  on the members of objects.
\<close>

section \<open>Data\<close>

datatype json_number = PosInt nat | NegInt int | Float rat

datatype json =
  JNull
| JBool bool
| JNumber json_number
| JString string
| JArray "json list"
| JObject "(string \<times> json) list"

datatype delta_op = Add string json | Remove string | Replace string json

type_synonym pointer_mut = "json \<Rightarrow> string \<Rightarrow> (json \<times> (json \<Rightarrow> json)) option"

section \<open>JSON pointers\<close>

text \<open>\<open>str::replace\<close> with a one-character and a two-character pattern\<close>

definition replace1 :: "char \<Rightarrow> string \<Rightarrow> string \<Rightarrow> string" where
  "replace1 c r s = concat (map (\<lambda>x. if x = c then r else [x]) s)"

fun replace2 :: "char \<Rightarrow> char \<Rightarrow> string \<Rightarrow> string \<Rightarrow> string" where
  "replace2 a b r [] = []"
| "replace2 a b r [x] = [x]"
| "replace2 a b r (x # y # s) =
     (if x = a \<and> y = b then r @ replace2 a b r s else x # replace2 a b r (y # s))"

definition push_json_pointer :: "string \<Rightarrow> string \<Rightarrow> string" where
  "push_json_pointer path key =
     (let escaped = replace1 CHR ''/'' ''~1'' (replace1 CHR ''~'' ''~0'' key)
      in if path = [] then ''/'' @ escaped else path @ ''/'' @ escaped)"

definition unescape_token :: "string \<Rightarrow> string" where
  "unescape_token part = replace2 CHR ''~'' CHR ''0'' ''~'' (replace2 CHR ''~'' CHR ''1'' ''/'' part)"

definition json_pointer_tokens :: "string \<Rightarrow> string list result" where
  "json_pointer_tokens path =
     (if path = [] then Inr []
      else if hd path \<noteq> CHR ''/'' then Inl Invalid
      else Inr (map unescape_token (drop 1 (split_on CHR ''/'' path))))"

definition json_pointer_from_tokens :: "string list \<Rightarrow> string" where
  "json_pointer_from_tokens tokens = foldl push_json_pointer [] tokens"

definition get_json_pointer_mut ::
  "pointer_mut \<Rightarrow> json \<Rightarrow> string \<Rightarrow> (json \<times> (json \<Rightarrow> json)) option" where
  "get_json_pointer_mut pm value path = (if path = [] then Some (value, \<lambda>x. x) else pm value path)"

section \<open>Operations on a document\<close>

definition parse_usize :: "string \<Rightarrow> nat option" where
  "parse_usize s = parse_uint u64_max s"

definition set_json_pointer :: "pointer_mut \<Rightarrow> json \<Rightarrow> string \<Rightarrow> json \<Rightarrow> json result" where
  "set_json_pointer pm value path nxt =
     (if path = [] then Inr nxt
      else rbind (json_pointer_tokens path) (\<lambda>parts.
        if parts = [] then Inl Invalid
        else (let key = last parts; parent_path = json_pointer_from_tokens (butlast parts)
              in case get_json_pointer_mut pm value parent_path of
                   None \<Rightarrow> Inl Invalid
                 | Some (parent, put) \<Rightarrow>
                     (case parent of
                        JObject m \<Rightarrow> Inr (put (JObject (bt_insert key nxt m)))
                      | JArray items \<Rightarrow>
                          (case parse_usize key of
                             None \<Rightarrow> Inl Invalid
                           | Some index \<Rightarrow>
                               if index > length items then Inl Invalid
                               else if index = length items then Inr (put (JArray (items @ [nxt])))
                               else Inr (put (JArray (items[index := nxt]))))
                      | _ \<Rightarrow> Inl Invalid))))"

definition remove_json_pointer :: "pointer_mut \<Rightarrow> json \<Rightarrow> string \<Rightarrow> json result" where
  "remove_json_pointer pm value path =
     (if path = [] then Inr JNull
      else rbind (json_pointer_tokens path) (\<lambda>parts.
        if parts = [] then Inl Invalid
        else (let key = last parts; parent_path = json_pointer_from_tokens (butlast parts)
              in case get_json_pointer_mut pm value parent_path of
                   None \<Rightarrow> Inl Invalid
                 | Some (parent, put) \<Rightarrow>
                     (case parent of
                        JObject m \<Rightarrow>
                          if bt_contains key m then Inr (put (JObject (bt_remove key m))) else Inl Invalid
                      | JArray items \<Rightarrow>
                          (case parse_usize key of
                             None \<Rightarrow> Inl Invalid
                           | Some index \<Rightarrow>
                               if index \<ge> length items then Inl Invalid
                               else Inr (put (JArray (remove_nth index items))))
                      | _ \<Rightarrow> Inl Invalid))))"

definition apply_delta_op :: "pointer_mut \<Rightarrow> json \<Rightarrow> delta_op \<Rightarrow> json result" where
  "apply_delta_op pm value op =
     (case op of
        Add path nxt \<Rightarrow> set_json_pointer pm value path nxt
      | Replace path nxt \<Rightarrow>
          if path = [] then Inr nxt
          else if get_json_pointer_mut pm value path \<noteq> None then set_json_pointer pm value path nxt
          else Inl Invalid
      | Remove path \<Rightarrow> remove_json_pointer pm value path)"

text \<open>The loop of \<open>apply_metadata_delta\<close>\<close>

fun apply_delta :: "pointer_mut \<Rightarrow> json \<Rightarrow> delta_op list \<Rightarrow> json result" where
  "apply_delta pm value [] = Inr value"
| "apply_delta pm value (op # ops) = rbind (apply_delta_op pm value op) (\<lambda>v. apply_delta pm v ops)"

section \<open>Difference of two documents\<close>

lemma json_member_size: "(k, v) \<in> set m \<Longrightarrow> size v < size (JObject m)"
proof (induction m)
  case (Cons x m)
  then show ?case by (cases x) auto
qed simp

function (sequential) diff_json :: "string \<Rightarrow> json \<Rightarrow> json \<Rightarrow> delta_op list" where
  "diff_json path (JObject left) (JObject right) =
     map (\<lambda>key. Remove (push_json_pointer path key))
       (filter (\<lambda>key. \<not> bt_contains key right) (bt_keys left))
     @ concat (map (\<lambda>(key, right_value).
         let child = push_json_pointer path key
         in case bt_get left key of
              Some left_value \<Rightarrow> diff_json child left_value right_value
            | None \<Rightarrow> [Add child right_value]) right)"
| "diff_json path previous nxt = (if previous \<noteq> nxt then [Replace path nxt] else [])"
  by pat_completeness auto
termination
  by (relation "measure (\<lambda>(_, _, nxt). size nxt)") (auto dest: json_member_size)

section \<open>Paths of object members\<close>

definition esc :: "string \<Rightarrow> string" where
  "esc key = concat (map (\<lambda>c. if c = CHR ''~'' then ''~0'' else if c = CHR ''/'' then ''~1'' else [c]) key)"

lemma esc_replace: "replace1 CHR ''/'' ''~1'' (replace1 CHR ''~'' ''~0'' key) = esc key"
  by (induction key) (auto simp: replace1_def esc_def)

lemma replace2_skip: "x \<noteq> a \<Longrightarrow> replace2 a b r (x # t) = x # replace2 a b r t"
  by (cases t) auto

lemma unescape_esc: "unescape_token (esc key) = key"
proof -
  let ?mid = "\<lambda>k. concat (map (\<lambda>c. if c = CHR ''~'' then ''~0'' else [c]) k)"
  have "replace2 CHR ''~'' CHR ''1'' ''/'' (esc key) = ?mid key"
    by (induction key) (auto simp: esc_def replace2_skip)
  moreover have "replace2 CHR ''~'' CHR ''0'' ''~'' (?mid key) = key"
    by (induction key) (auto simp: replace2_skip)
  ultimately show ?thesis by (simp add: unescape_token_def)
qed

lemma esc_no_slash: "CHR ''/'' \<notin> set (esc key)"
  by (auto simp: esc_def split: if_splits)

abbreviation ptr :: "string list \<Rightarrow> string" where
  "ptr ts \<equiv> json_pointer_from_tokens ts"

lemma push_json_pointer_alt: "push_json_pointer path key = path @ ''/'' @ esc key"
  by (simp add: push_json_pointer_def esc_replace Let_def)

lemma ptr_concat: "ptr ts = concat (map (\<lambda>t. CHR ''/'' # esc t) ts)"
proof -
  have "foldl push_json_pointer p ts = p @ concat (map (\<lambda>t. CHR ''/'' # esc t) ts)" for p
    by (induction ts arbitrary: p) (auto simp: push_json_pointer_alt)
  then show ?thesis by (simp add: json_pointer_from_tokens_def)
qed

lemma ptr_push: "push_json_pointer (ptr ts) k = ptr (ts @ [k])"
  by (simp add: ptr_concat push_json_pointer_alt)

lemma ptr_Nil [simp]: "ptr [] = []"
  by (simp add: ptr_concat)

lemma ptr_snoc_nonempty [simp]: "ptr (ts @ [k]) \<noteq> []"
  by (simp add: ptr_concat)

lemma split_ptr: "split_on CHR ''/'' (e @ ptr ts) = e # map esc ts" if "CHR ''/'' \<notin> set e"
  using that
proof (induction ts arbitrary: e)
  case Nil
  then show ?case by (simp add: split_on_absent)
next
  case (Cons t ts)
  have "e @ ptr (t # ts) = e @ CHR ''/'' # (esc t @ ptr ts)" by (simp add: ptr_concat)
  then show ?case using Cons.IH [OF esc_no_slash] Cons.prems by (simp add: split_on_append)
qed

lemma json_pointer_tokens_ptr [simp]: "json_pointer_tokens (ptr ts) = Inr ts"
proof (cases ts)
  case (Cons t us)
  have "split_on CHR ''/'' (ptr ts) = [] # map esc ts" using split_ptr [of "[]" ts] by simp
  moreover have "ptr ts \<noteq> []" "hd (ptr ts) = CHR ''/''" by (simp_all add: ptr_concat Cons)
  ultimately show ?thesis by (simp add: json_pointer_tokens_def unescape_esc o_def)
qed (simp add: json_pointer_tokens_def)

fun jget :: "json \<Rightarrow> string list \<Rightarrow> json option" where
  "jget v [] = Some v"
| "jget (JObject m) (t # ts) = (case map_of m t of None \<Rightarrow> None | Some w \<Rightarrow> jget w ts)"
| "jget _ (t # ts) = None"

fun jput :: "json \<Rightarrow> string list \<Rightarrow> json \<Rightarrow> json" where
  "jput v [] x = x"
| "jput (JObject m) (t # ts) x =
     (case map_of m t of None \<Rightarrow> JObject m | Some w \<Rightarrow> JObject (bt_insert t (jput w ts x) m))"
| "jput v (t # ts) x = v"

text \<open>What RFC 6901 and the documentation of \<open>pointer_mut\<close> say about a path of object members.\<close>

definition rfc6901_pointer :: "pointer_mut \<Rightarrow> bool" where
  "rfc6901_pointer pm \<longleftrightarrow>
     (\<forall>v t ts w. jget v (t # ts) = Some w \<longrightarrow> pm v (ptr (t # ts)) = Some (w, jput v (t # ts)))"

text \<open>Objects of \<open>serde_json\<close> are maps: sorted, one value per key.\<close>

function (sequential) json_ok :: "json \<Rightarrow> bool" where
  "json_ok (JObject m) \<longleftrightarrow> bt_ok m \<and> (\<forall>x \<in> set m. json_ok (snd x))"
| "json_ok (JArray vs) \<longleftrightarrow> (\<forall>v \<in> set vs. json_ok v)"
| "json_ok _ \<longleftrightarrow> True"
  by pat_completeness auto
termination
  by (relation "measure size") (auto dest: json_member_size simp: size_list_estimation' less_Suc_eq_le)

lemma json_ok_member: "\<forall>x \<in> set m. json_ok (snd x) \<Longrightarrow> map_of m k = Some v \<Longrightarrow> json_ok v"
  using map_of_SomeD by fastforce

lemma json_ok_get: "json_ok (JObject m) \<Longrightarrow> map_of m k = Some v \<Longrightarrow> json_ok v"
  by (auto intro: json_ok_member)

lemma json_ok_insert:
  assumes "json_ok (JObject m)" "json_ok v"
  shows "json_ok (JObject (bt_insert k v m))"
proof -
  have "set (bt_insert k v m) \<subseteq> insert (k, v) (set m)"
    by (induction k v m rule: bt_insert.induct) auto
  then show ?thesis using assms by auto
qed

lemma json_ok_remove: "json_ok (JObject m) \<Longrightarrow> json_ok (JObject (bt_remove k m))"
  by (auto simp: bt_remove_def bt_ok_remove [unfolded bt_remove_def])

lemma json_ok_jget: "json_ok v \<Longrightarrow> jget v ts = Some w \<Longrightarrow> json_ok w"
  by (induction v ts rule: jget.induct) (auto split: option.splits simp: json_ok_member)

lemma json_ok_jput: "json_ok v \<Longrightarrow> json_ok x \<Longrightarrow> json_ok (jput v ts x)"
proof (induction v ts x rule: jput.induct)
  case (2 m t ts x)
  then show ?case by (auto split: option.splits intro: json_ok_insert json_ok_get simp del: json_ok.simps(1))
qed auto

lemma jget_jput: "jget v ts = Some w \<Longrightarrow> jget (jput v ts x) ts = Some x"
  by (induction v ts rule: jget.induct) (auto split: option.splits)

lemma jput_jput: "json_ok v \<Longrightarrow> jget v ts = Some w \<Longrightarrow> jput (jput v ts x) ts y = jput v ts y"
proof (induction v ts rule: jget.induct)
  case (2 m t ts)
  then show ?case by (auto split: option.splits simp: bt.insert_insert json_ok_member)
qed auto

lemma jget_snoc: "jget v (ts @ [k]) = Option.bind (jget v ts) (\<lambda>w. jget w [k])"
  by (induction v ts rule: jget.induct) (auto split: option.splits)

lemma jput_snoc:
  "jget v ts = Some (JObject m) \<Longrightarrow> map_of m k = Some w \<Longrightarrow>
     jput v (ts @ [k]) x = jput v ts (JObject (bt_insert k x m))"
  by (induction v ts rule: jget.induct) (auto split: option.splits)

lemma jput_jget: "json_ok v \<Longrightarrow> jget v ts = Some w \<Longrightarrow> jput v ts w = v"
proof (induction v ts rule: jget.induct)
  case (2 m t ts)
  then show ?case by (auto split: option.splits simp: bt.insert_get json_ok_member)
qed auto

section \<open>Applying a difference\<close>

text \<open>The three operations at a member of an object.\<close>

lemma get_pointer_ptr:
  assumes "rfc6901_pointer pm" "jget v ts = Some w"
  shows "get_json_pointer_mut pm v (ptr ts) = Some (w, jput v ts)"
proof (cases ts)
  case Nil
  then show ?thesis using assms(2) by (simp add: get_json_pointer_mut_def fun_eq_iff)
next
  case (Cons t us)
  then show ?thesis
    using assms by (auto simp: get_json_pointer_mut_def rfc6901_pointer_def ptr_concat)
qed

lemma set_member:
  assumes "rfc6901_pointer pm" "jget v ts = Some (JObject m)"
  shows "set_json_pointer pm v (ptr (ts @ [k])) x = Inr (jput v ts (JObject (bt_insert k x m)))"
  using get_pointer_ptr [OF assms] by (simp add: set_json_pointer_def)

lemma remove_member:
  assumes "rfc6901_pointer pm" "jget v ts = Some (JObject m)" "map_of m k = Some w"
  shows "remove_json_pointer pm v (ptr (ts @ [k])) = Inr (jput v ts (JObject (bt_remove k m)))"
  using get_pointer_ptr [OF assms(1,2)] assms(3) by (simp add: remove_json_pointer_def bt_contains_def)

lemma replace_path:
  assumes "rfc6901_pointer pm" "json_ok v" "jget v ts = Some w"
  shows "apply_delta_op pm v (Replace (ptr ts) x) = Inr (jput v ts x)"
proof (cases ts rule: rev_cases)
  case Nil
  then show ?thesis using assms(3) by (simp add: apply_delta_op_def)
next
  case (snoc us k)
  obtain m where m: "jget v us = Some (JObject m)" "map_of m k = Some w"
    using assms(3) unfolding snoc jget_snoc
    by (cases "jget v us") (auto elim!: jget.elims split: option.splits)
  have "get_json_pointer_mut pm v (ptr ts) \<noteq> None" using get_pointer_ptr [OF assms(1,3)] by simp
  then show ?thesis
    using set_member [OF assms(1) m(1)] jput_snoc [OF m] by (simp add: apply_delta_op_def snoc)
qed

lemma apply_delta_append:
  "apply_delta pm v (xs @ ys) = rbind (apply_delta pm v xs) (\<lambda>w. apply_delta pm w ys)"
  by (induction xs arbitrary: v) (auto simp: rbind_def split: sum.splits)

lemma apply_removes:
  assumes "rfc6901_pointer pm" "json_ok v" "jget v ts = Some (JObject m)"
    and "distinct ks" "\<forall>k \<in> set ks. bt_contains k m"
  shows "apply_delta pm v (map (\<lambda>k. Remove (push_json_pointer (ptr ts) k)) ks)
           = Inr (jput v ts (JObject (fold bt_remove ks m)))"
  using assms(2-5)
proof (induction ks arbitrary: v m)
  case Nil
  then show ?case by (simp add: jput_jget)
next
  case (Cons k ks)
  let ?m = "bt_remove k m" and ?v = "jput v ts (JObject (bt_remove k m))"
  obtain w where w: "map_of m k = Some w" using Cons.prems(4) by (auto simp: bt_contains_def)
  have step: "apply_delta_op pm v (Remove (push_json_pointer (ptr ts) k)) = Inr ?v"
    using remove_member [OF assms(1) Cons.prems(2) w] by (simp add: apply_delta_op_def ptr_push)
  have "json_ok (JObject ?m)" using Cons.prems(1,2) json_ok_jget json_ok_remove by blast
  then have ok: "json_ok ?v" using Cons.prems(1) by (rule json_ok_jput [rotated])
  have "jget ?v ts = Some (JObject ?m)" using Cons.prems(2) by (rule jget_jput)
  then have "apply_delta pm ?v (map (\<lambda>k. Remove (push_json_pointer (ptr ts) k)) ks)
      = Inr (jput ?v ts (JObject (fold bt_remove ks ?m)))"
    using Cons.prems(3,4) ok by (intro Cons.IH) (auto simp: bt_contains_def)
  then show ?case using step jput_jput [OF Cons.prems(1,2)] by simp
qed

abbreviation entry_ops :: "string \<Rightarrow> (string, json) btree \<Rightarrow> string \<times> json \<Rightarrow> delta_op list" where
  "entry_ops path left \<equiv> \<lambda>(key, right_value).
     let child = push_json_pointer path key
     in case bt_get left key of
          Some left_value \<Rightarrow> diff_json child left_value right_value
        | None \<Rightarrow> [Add child right_value]"

lemma apply_entries:
  assumes pm: "rfc6901_pointer pm"
    and IH: "\<And>k x a v us. (k, x) \<in> set es \<Longrightarrow> json_ok v \<Longrightarrow> json_ok a \<Longrightarrow> json_ok x \<Longrightarrow> jget v us = Some a
      \<Longrightarrow> apply_delta pm v (diff_json (ptr us) a x) = Inr (jput v us x)"
    and "json_ok v" "jget v ts = Some (JObject m)" "distinct (map fst es)"
    and "\<forall>(k, x) \<in> set es. json_ok x \<and> (\<forall>a. map_of left k = Some a \<longrightarrow> map_of m k = Some a)"
  shows "apply_delta pm v (concat (map (entry_ops (ptr ts) left) es))
           = Inr (jput v ts (JObject (fold (\<lambda>(k, x). bt_insert k x) es m)))"
  using assms(2-6)
proof (induction es arbitrary: v m)
  case Nil
  then show ?case by (simp add: jput_jget)
next
  case (Cons e es)
  obtain k x where e: "e = (k, x)" by (cases e)
  let ?m = "bt_insert k x m" and ?v = "jput v ts (JObject (bt_insert k x m))"
  have ok_m: "json_ok (JObject m)" using Cons.prems(2,3) by (rule json_ok_jget)
  have ok_x: "json_ok x" using Cons.prems(5) e by simp
  have ok: "json_ok ?v" using Cons.prems(2) json_ok_insert [OF ok_m ok_x] by (rule json_ok_jput)
  have get: "jget ?v ts = Some (JObject ?m)" using Cons.prems(3) by (rule jget_jput)
  have "apply_delta pm v (entry_ops (ptr ts) left e) = Inr ?v"
  proof (cases "map_of left k")
    case None
    then show ?thesis
      using set_member [OF pm Cons.prems(3), of k x] by (simp add: e apply_delta_op_def ptr_push)
  next
    case (Some a)
    then have a: "map_of m k = Some a" using Cons.prems(5) e by simp
    have "jget v (ts @ [k]) = Some a" using Cons.prems(3) a by (simp add: jget_snoc)
    then have "apply_delta pm v (diff_json (ptr (ts @ [k])) a x) = Inr (jput v (ts @ [k]) x)"
      using e by (intro Cons.prems(1) [OF _ Cons.prems(2) json_ok_get [OF ok_m a] ok_x]) auto
    then show ?thesis using Some jput_snoc [OF Cons.prems(3) a] by (simp add: e ptr_push)
  qed
  moreover have "apply_delta pm ?v (concat (map (entry_ops (ptr ts) left) es))
      = Inr (jput ?v ts (JObject (fold (\<lambda>(k, x). bt_insert k x) es ?m)))"
  proof (rule Cons.IH [OF _ ok get])
    show "distinct (map fst es)" using Cons.prems(4) by simp
    show "\<forall>(k', x) \<in> set es. json_ok x \<and> (\<forall>a. map_of left k' = Some a \<longrightarrow> map_of ?m k' = Some a)"
      using Cons.prems(4,5) by (force simp: e)
    show "apply_delta pm w (diff_json (ptr us) c y) = Inr (jput w us y)"
      if "(k', y) \<in> set es" "json_ok w" "json_ok c" "json_ok y" "jget w us = Some c" for k' y c w us
      by (rule Cons.prems(1) [where k = k', OF _ that(2-5)]) (simp add: that(1))
  qed
  ultimately show ?case
    using jput_jput [OF Cons.prems(2,3)] by (simp add: apply_delta_append e)
qed

lemma map_of_fold_insert:
  "distinct (map fst es) \<Longrightarrow> map_of (fold (\<lambda>(k, x). bt_insert k x) es m) = map_of m ++ map_of es"
proof (induction es arbitrary: m)
  case (Cons e es)
  obtain k x where e: "e = (k, x)" by (cases e)
  have "map_of es k = None" using Cons.prems e by (simp add: map_of_eq_None_iff)
  then show ?case using Cons by (auto simp: e map_add_def fun_eq_iff split: option.splits)
qed simp

lemma bt_ok_fold_insert: "bt_ok m \<Longrightarrow> bt_ok (fold (\<lambda>(k, x). bt_insert k x) es m)"
  by (induction es arbitrary: m) auto

lemma map_of_fold_remove: "map_of (fold bt_remove ks m) = map_of m |` (- set ks)"
  by (induction ks arbitrary: m) (auto simp: restrict_map_def fun_eq_iff)

lemma json_ok_fold_remove: "json_ok (JObject m) \<Longrightarrow> json_ok (JObject (fold bt_remove ks m))"
  by (induction ks arbitrary: m) (auto simp del: json_ok.simps simp: json_ok_remove)

lemma apply_diff_at:
  assumes pm: "rfc6901_pointer pm"
  shows "json_ok v \<Longrightarrow> json_ok a \<Longrightarrow> json_ok b \<Longrightarrow> jget v ts = Some a \<Longrightarrow>
    apply_delta pm v (diff_json (ptr ts) a b) = Inr (jput v ts b)"
proof (induction b arbitrary: a v ts rule: measure_induct_rule [where f = size])
  case (less b)
  show ?case
  proof (cases "\<exists>l r. a = JObject l \<and> b = JObject r")
    case False
    then have "diff_json (ptr ts) a b = (if a \<noteq> b then [Replace (ptr ts) b] else [])"
      by (cases a; cases b) auto
    then show ?thesis
      using replace_path [OF pm less.prems(1,4)] jput_jget [OF less.prems(1,4)] by auto
  next
    case True
    then obtain l r where lr: "a = JObject l" "b = JObject r" by blast
    have okl: "bt_ok l" and okr: "bt_ok r" using less.prems(2,3) lr by auto
    let ?ks = "filter (\<lambda>key. \<not> bt_contains key r) (bt_keys l)"
    let ?m = "fold bt_remove ?ks l" and ?v = "jput v ts (JObject (fold bt_remove ?ks l))"
    have "\<forall>k \<in> set ?ks. bt_contains k l"
      by (auto simp: bt_contains_def map_of_eq_None_iff)
    moreover have "distinct ?ks" using okl by (simp add: bt_ok_distinct)
    ultimately have removes: "apply_delta pm v (map (\<lambda>k. Remove (push_json_pointer (ptr ts) k)) ?ks) = Inr ?v"
      using less.prems(1,4) lr by (intro apply_removes [OF pm]) auto
    have okm: "json_ok (JObject ?m)" using less.prems(2) unfolding lr by (rule json_ok_fold_remove)
    have okv: "json_ok ?v" using less.prems(1) okm by (rule json_ok_jput)
    have getv: "jget ?v ts = Some (JObject ?m)" using less.prems(4) by (rule jget_jput)
    have "apply_delta pm ?v (concat (map (entry_ops (ptr ts) l) r))
        = Inr (jput ?v ts (JObject (fold (\<lambda>(k, x). bt_insert k x) r ?m)))"
    proof (rule apply_entries [OF pm _ okv getv bt_ok_distinct [OF okr]])
      show "apply_delta pm w (diff_json (ptr us) c x) = Inr (jput w us x)"
        if "(k, x) \<in> set r" "json_ok w" "json_ok c" "json_ok x" "jget w us = Some c" for k x c w us
        using less.IH [OF _ that(2-5)] json_member_size [OF that(1)] lr by simp
      have "bt_contains k r" if "(k, x) \<in> set r" for k x
        using that by (force simp: bt_contains_def map_of_eq_None_iff)
      then show "\<forall>(k, x) \<in> set r. json_ok x \<and> (\<forall>a. map_of l k = Some a \<longrightarrow> map_of ?m k = Some a)"
        using less.prems(3) by (auto simp: lr map_of_fold_remove restrict_map_def)
    qed
    moreover have "fold (\<lambda>(k, x). bt_insert k x) r ?m = r"
    proof (rule bt_ext [OF bt_ok_fold_insert okr])
      show "bt_ok ?m" using okm by simp
      have "map_of ?m k = None" if "map_of r k = None" for k
      proof (cases "map_of l k")
        case (Some y)
        then have "k \<in> set (bt_keys l)" by (force dest: map_of_SomeD)
        then show ?thesis using that unfolding map_of_fold_remove by (simp add: bt_contains_def restrict_map_def)
      qed (simp add: map_of_fold_remove restrict_map_def)
      then show "map_of (fold (\<lambda>(k, x). bt_insert k x) r ?m) = map_of r"
        unfolding map_of_fold_insert [OF bt_ok_distinct [OF okr]]
        by (intro ext) (auto simp: map_add_def split: option.splits)
    qed
    ultimately show ?thesis
      using removes jput_jput [OF less.prems(1,4)] by (simp add: lr apply_delta_append)
  qed
qed

text \<open>C18. Replaying a delta gives back the document it was computed for: for JSON documents with
  well-formed objects, applying the operations of \<open>diff_json\<close> to the previous document succeeds
  and gives exactly the next one.\<close>

theorem apply_diff_json:
  assumes "rfc6901_pointer pm" "json_ok previous" "json_ok nxt"
  shows "apply_delta pm previous (diff_json [] previous nxt) = Inr nxt"
  using apply_diff_at [OF assms(1,2,2,3), of "[]"] by simp

definition ref_pointer :: pointer_mut where
  "ref_pointer v path =
     (case json_pointer_tokens path of
        Inl _ \<Rightarrow> None
      | Inr ts \<Rightarrow> map_option (\<lambda>w. (w, jput v ts)) (jget v ts))"

lemma ref_pointer_rfc6901: "rfc6901_pointer ref_pointer"
  by (simp add: rfc6901_pointer_def ref_pointer_def)

theorem apply_diff_json_witness:
  "apply_delta ref_pointer
     (JObject [(''a/b'', JNumber (PosInt 1)), (''c'', JObject [(''x~'', JNull)])])
     (diff_json [] (JObject [(''a/b'', JNumber (PosInt 1)), (''c'', JObject [(''x~'', JNull)])])
        (JObject [(''c'', JObject [(''x~'', JBool True), (''y'', JArray [])]), (''d'', JString ''new'')]))
   = Inr (JObject [(''c'', JObject [(''x~'', JBool True), (''y'', JArray [])]), (''d'', JString ''new'')])"
  by (rule apply_diff_json [OF ref_pointer_rfc6901]) (simp_all add: bt_ok_def less_char_def less_eq_char_def)

end
