(* ===== verification/Argos_Journal.thy ===== *)
theory Argos_Journal
  imports Argos_Types Argos_Delta Argos_Bytes
begin

text \<open>
  \<open>src/metadata/journal.rs\<close>: the hash-chained metadata journal of a host-backed volume, the three
  metadata copies, recovery, and journal compaction. The files of \<open>.argosfs\<close> are byte lists
  (absent files are \<open>None\<close>); \<open>atomic_write\<close> replaces a file, \<open>append_json_line\<close> extends the
  journal by one line. The crash points that \<open>inject_crash\<close> can stop at are the early returns of
  the model. Host I/O errors and the transaction lock are not modelled.

  serde's encodings of records and metadata and SHA-256 are the fields of the parameter \<open>cd\<close>.
\<close>

section \<open>Data\<close>

datatype journal_record_kind = Transaction | Checkpoint | Event

record journal_record =
  jr_version :: nat
  jr_record_type :: journal_record_kind
  jr_time :: f64
  jr_volume_uuid :: string
  jr_txid :: nat
  jr_generation :: nat
  jr_action :: string
  jr_details :: json
  jr_previous_record_hash :: string
  jr_previous_meta_hash :: string
  jr_meta_hash :: string
  jr_metadata :: "metadata option"
  jr_metadata_delta :: "delta_op list option"
  jr_record_hash :: string

record codec =
  cd_line :: "journal_record \<Rightarrow> string"  \<comment> \<open>\<open>serde_json::to_writer\<close>\<close>
  cd_value :: "string \<Rightarrow> json option"  \<comment> \<open>\<open>from_str::<Value>\<close>\<close>
  cd_record :: "json \<Rightarrow> journal_record option"  \<comment> \<open>\<open>from_value::<JournalRecord>\<close>\<close>
  cd_record_pretty :: "journal_record \<Rightarrow> byte list"  \<comment> \<open>\<open>to_vec_pretty\<close>\<close>
  cd_record_parse :: "byte list \<Rightarrow> journal_record option"  \<comment> \<open>\<open>from_slice\<close>\<close>
  cd_legacy_pretty :: "json \<Rightarrow> byte list option"  \<comment> \<open>\<open>LegacyJournalRecord\<close> of a value, hash cleared, printed\<close>
  cd_meta_pretty :: "metadata \<Rightarrow> byte list"
  cd_meta_parse :: "byte list \<Rightarrow> metadata option"
  cd_meta_to_value :: "metadata \<Rightarrow> json"
  cd_meta_from_value :: "json \<Rightarrow> metadata option"
  cd_pointer_mut :: pointer_mut
  cd_sha256_hex :: "byte list \<Rightarrow> string"

record meta_store =
  ms_journal :: "byte list option"
  ms_primary :: "byte list option"
  ms_secondary :: "byte list option"
  ms_compat :: "byte list option"

record transaction_report =
  tr_valid_entries :: nat
  tr_legacy_entries :: nat
  tr_invalid_entries :: nat
  tr_last_valid_txid :: nat
  tr_last_valid_generation :: nat
  tr_last_valid_record_hash :: string
  tr_latest_snapshot_txid :: nat
  tr_latest_snapshot_generation :: nat
  tr_replayed :: bool
  tr_selected_metadata_source :: string
  tr_double_write_mismatches :: nat

definition default_report :: transaction_report where
  "default_report = \<lparr>tr_valid_entries = 0, tr_legacy_entries = 0, tr_invalid_entries = 0,
     tr_last_valid_txid = 0, tr_last_valid_generation = 0, tr_last_valid_record_hash = [],
     tr_latest_snapshot_txid = 0, tr_latest_snapshot_generation = 0, tr_replayed = False,
     tr_selected_metadata_source = [], tr_double_write_mismatches = 0\<rparr>"

definition FORMAT_VERSION :: string where "FORMAT_VERSION = ''argosfs-rust-v1''"
definition JOURNAL_VERSION :: nat where "JOURNAL_VERSION = 1"

section \<open>Hashes\<close>

definition default_integrity :: metadata_integrity where
  "default_integrity = \<lparr>mi_generation = 0, mi_previous_meta_hash = [], mi_meta_hash = []\<rparr>"

definition canonical_metadata_hash :: "codec \<Rightarrow> metadata \<Rightarrow> string result" where
  "canonical_metadata_hash cd meta =
     rbind (ok_or Json (cd_meta_parse cd (cd_meta_pretty cd (meta\<lparr>m_integrity := default_integrity\<rparr>))))
       (\<lambda>round_trip. Inr (cd_sha256_hex cd (cd_meta_pretty cd (round_trip\<lparr>m_integrity := default_integrity\<rparr>))))"

definition record_hash :: "codec \<Rightarrow> journal_record \<Rightarrow> string result" where
  "record_hash cd record =
     rbind (ok_or Json (cd_record_parse cd (cd_record_pretty cd (record\<lparr>jr_record_hash := []\<rparr>))))
       (\<lambda>round_trip. Inr (cd_sha256_hex cd (cd_record_pretty cd (round_trip\<lparr>jr_record_hash := []\<rparr>))))"

definition record_hash_value :: "codec \<Rightarrow> json \<Rightarrow> string result" where
  "record_hash_value cd value =
     rbind (ok_or Json (cd_record cd value)) (\<lambda>record. record_hash cd (record\<lparr>jr_record_hash := []\<rparr>))"

definition legacy_record_hash_value :: "codec \<Rightarrow> json \<Rightarrow> string result" where
  "legacy_record_hash_value cd value =
     rbind (ok_or Json (cd_legacy_pretty cd value)) (\<lambda>bytes. Inr (cd_sha256_hex cd bytes))"

definition record_hash_is_valid :: "codec \<Rightarrow> json \<Rightarrow> journal_record \<Rightarrow> bool result" where
  "record_hash_is_valid cd value record =
     rbind (record_hash_value cd value) (\<lambda>hash.
       Inr (hash = jr_record_hash record
            \<or> legacy_record_hash_value cd value = Inr (jr_record_hash record)))"

definition canonical_metadata_hash_value :: "codec \<Rightarrow> json \<Rightarrow> string result" where
  "canonical_metadata_hash_value cd value =
     rbind (ok_or Json (cd_meta_from_value cd value)) (canonical_metadata_hash cd)"

definition canonical_metadata_hash_bytes :: "codec \<Rightarrow> byte list \<Rightarrow> string result" where
  "canonical_metadata_hash_bytes cd bytes =
     rbind (ok_or Json (cd_meta_parse cd bytes)) (canonical_metadata_hash cd)"

definition prepare_metadata_integrity :: "codec \<Rightarrow> metadata \<Rightarrow> string \<Rightarrow> metadata result" where
  "prepare_metadata_integrity cd meta previous_meta_hash =
     (let meta1 = meta\<lparr>m_integrity := (m_integrity meta)
                   \<lparr>mi_generation := m_txid meta, mi_previous_meta_hash := previous_meta_hash\<rparr>\<rparr>
      in rbind (canonical_metadata_hash cd meta1) (\<lambda>hash.
           Inr (meta1\<lparr>m_integrity := (m_integrity meta1)\<lparr>mi_meta_hash := hash\<rparr>\<rparr>)))"

definition ensure_integrity :: "codec \<Rightarrow> metadata \<Rightarrow> metadata result" where
  "ensure_integrity cd meta =
     (if mi_meta_hash (m_integrity meta) = []
      then prepare_metadata_integrity cd meta []
      else Inr meta)"

definition validate_metadata :: "metadata \<Rightarrow> string \<Rightarrow> metadata result" where
  "validate_metadata meta computed =
     (if m_format meta \<noteq> FORMAT_VERSION then Inl Invalid
      else if mi_meta_hash (m_integrity meta) = []
      then Inr (meta\<lparr>m_integrity := (m_integrity meta)
                  \<lparr>mi_generation := m_txid meta, mi_meta_hash := computed\<rparr>\<rparr>)
      else if mi_meta_hash (m_integrity meta) \<noteq> computed then Inl Invalid
      else Inr meta)"

section \<open>Deltas of metadata\<close>

definition metadata_delta :: "codec \<Rightarrow> metadata \<Rightarrow> metadata \<Rightarrow> delta_op list" where
  "metadata_delta cd previous nxt = diff_json [] (cd_meta_to_value cd previous) (cd_meta_to_value cd nxt)"

definition apply_metadata_delta :: "codec \<Rightarrow> metadata \<Rightarrow> delta_op list \<Rightarrow> metadata result" where
  "apply_metadata_delta cd previous delta =
     rbind (apply_delta (cd_pointer_mut cd) (cd_meta_to_value cd previous) delta) (\<lambda>value.
     rbind (ok_or Json (cd_meta_from_value cd value)) (\<lambda>metadata.
     rbind (canonical_metadata_hash cd metadata) (\<lambda>hash.
       validate_metadata metadata hash)))"

section \<open>Records and files\<close>

definition build_record ::
  "codec \<Rightarrow> metadata \<Rightarrow> journal_record_kind \<Rightarrow> string \<Rightarrow> json \<Rightarrow> string \<Rightarrow> f64 \<Rightarrow> metadata option
    \<Rightarrow> delta_op list option \<Rightarrow> journal_record result" where
  "build_record cd meta record_type action details previous_record_hash time snapshot delta =
     rbind (canonical_metadata_hash cd meta) (\<lambda>hash.
       let record = \<lparr>jr_version = JOURNAL_VERSION, jr_record_type = record_type, jr_time = time,
             jr_volume_uuid = m_uuid meta, jr_txid = m_txid meta,
             jr_generation = mi_generation (m_integrity meta), jr_action = action, jr_details = details,
             jr_previous_record_hash = previous_record_hash,
             jr_previous_meta_hash = mi_previous_meta_hash (m_integrity meta), jr_meta_hash = hash,
             jr_metadata = snapshot, jr_metadata_delta = delta, jr_record_hash = []\<rparr>
       in rbind (record_hash cd record) (\<lambda>rhash. Inr (record\<lparr>jr_record_hash := rhash\<rparr>)))"

definition append_record :: "codec \<Rightarrow> meta_store \<Rightarrow> journal_record \<Rightarrow> meta_store" where
  "append_record cd st record =
     st\<lparr>ms_journal := Some ((case ms_journal st of Some bs \<Rightarrow> bs | None \<Rightarrow> [])
          @ str_bytes (cd_line cd record) @ str_bytes [CHR 0x0A])\<rparr>"

definition write_metadata_copies :: "codec \<Rightarrow> meta_store \<Rightarrow> metadata \<Rightarrow> meta_store" where
  "write_metadata_copies cd st meta =
     (let bytes = cd_meta_pretty cd meta
      in st\<lparr>ms_primary := Some bytes, ms_secondary := Some bytes, ms_compat := Some bytes\<rparr>)"

text \<open>\<open>fs::read_to_string\<close> of the journal, and \<open>str::lines\<close>\<close>

definition journal_text :: "meta_store \<Rightarrow> string option" where
  "journal_text st = Option.bind (ms_journal st) from_utf8"

definition strip_cr :: "string \<Rightarrow> string" where
  "strip_cr s = (if s \<noteq> [] \<and> last s = CHR 0x0D then butlast s else s)"

definition lines :: "string \<Rightarrow> string list" where
  "lines s =
     (let ps = split_on CHR 0x0A s
      in map strip_cr (butlast ps) @ (if last ps = [] then [] else [last ps]))"

section \<open>Scanning\<close>

text \<open>\<open>value.get("metadata").filter(|value| !value.is_null())\<close>\<close>

definition metadata_member :: "json \<Rightarrow> json option" where
  "metadata_member value =
     (case value of
        JObject m \<Rightarrow> (case map_of m ''metadata'' of Some v \<Rightarrow> if v = JNull then None else Some v | None \<Rightarrow> None)
      | _ \<Rightarrow> None)"

definition bump_invalid :: "transaction_report \<Rightarrow> transaction_report" where
  "bump_invalid report = report\<lparr>tr_invalid_entries := tr_invalid_entries report + 1\<rparr>"

fun scan_lines ::
  "codec \<Rightarrow> string \<Rightarrow> transaction_report \<Rightarrow> string list \<Rightarrow> transaction_report result" where
  "scan_lines cd previous_hash report [] = Inr report"
| "scan_lines cd previous_hash report (raw # rest) =
     (if trim raw = [] then scan_lines cd previous_hash report rest
      else case cd_value cd raw of
        None \<Rightarrow> scan_lines cd previous_hash (bump_invalid report) rest
      | Some value \<Rightarrow>
        (case cd_record cd value of
           None \<Rightarrow> scan_lines cd previous_hash (bump_invalid report) rest
         | Some record \<Rightarrow>
           if jr_record_hash record = [] then
             scan_lines cd previous_hash
               (report\<lparr>tr_valid_entries := tr_valid_entries report + 1,
                       tr_legacy_entries := tr_legacy_entries report + 1,
                       tr_last_valid_txid := max (tr_last_valid_txid report) (jr_txid record)\<rparr>) rest
           else rbind (record_hash_is_valid cd value record) (\<lambda>valid.
             if \<not> valid then scan_lines cd previous_hash (bump_invalid report) rest
             else if jr_previous_record_hash record \<noteq> previous_hash
             then scan_lines cd previous_hash (bump_invalid report) rest
             else
               (let accept = (\<lambda>report. scan_lines cd (jr_record_hash record)
                      (report\<lparr>tr_valid_entries := tr_valid_entries report + 1,
                              tr_last_valid_txid := jr_txid record,
                              tr_last_valid_generation := jr_generation record,
                              tr_last_valid_record_hash := jr_record_hash record\<rparr>) rest)
                in case metadata_member value of
                     None \<Rightarrow> accept report
                   | Some metadata_value \<Rightarrow>
                       (case canonical_metadata_hash_value cd metadata_value of
                          Inr hash \<Rightarrow>
                            if hash = jr_meta_hash record
                            then accept (report\<lparr>tr_latest_snapshot_txid := jr_txid record,
                                               tr_latest_snapshot_generation := jr_generation record\<rparr>)
                            else scan_lines cd previous_hash (bump_invalid report) rest
                        | Inl _ \<Rightarrow> scan_lines cd previous_hash (bump_invalid report) rest)))))"

definition scan :: "codec \<Rightarrow> meta_store \<Rightarrow> transaction_report result" where
  "scan cd st =
     (case journal_text st of
        None \<Rightarrow> Inr default_report
      | Some text \<Rightarrow> scan_lines cd [] default_report (lines text))"

section \<open>Replay\<close>

text \<open>
  The part the three readers below share: a line counts when it parses, carries a hash, the
  hash is right and it continues the chain.
\<close>

definition chain_record :: "codec \<Rightarrow> string \<Rightarrow> string \<Rightarrow> (json \<times> journal_record) option" where
  "chain_record cd previous_hash raw =
     (case cd_value cd raw of
        None \<Rightarrow> None
      | Some value \<Rightarrow>
        (case cd_record cd value of
           None \<Rightarrow> None
         | Some record \<Rightarrow>
             if jr_record_hash record = [] then None
             else (case record_hash_is_valid cd value record of
                     Inl _ \<Rightarrow> None
                   | Inr valid \<Rightarrow>
                       if \<not> valid then None
                       else if jr_previous_record_hash record \<noteq> previous_hash then None
                       else Some (value, record))))"

definition replay_delta :: "codec \<Rightarrow> metadata \<Rightarrow> journal_record \<Rightarrow> delta_op list \<Rightarrow> metadata option" where
  "replay_delta cd base record delta =
     (if jr_previous_meta_hash record \<noteq> mi_meta_hash (m_integrity base) then None
      else case apply_metadata_delta cd base delta of
             Inl _ \<Rightarrow> None
           | Inr metadata \<Rightarrow>
               (case canonical_metadata_hash cd metadata of
                  Inl _ \<Rightarrow> None
                | Inr meta_hash \<Rightarrow>
                    if meta_hash \<noteq> jr_meta_hash record then None
                    else if m_txid metadata \<noteq> jr_txid record
                            \<or> mi_generation (m_integrity metadata) \<noteq> jr_generation record then None
                    else res_ok (ensure_integrity cd metadata)))"

fun replay_lines ::
  "codec \<Rightarrow> string \<Rightarrow> metadata option \<Rightarrow> bool \<Rightarrow> string list \<Rightarrow> metadata option result" where
  "replay_lines cd previous_hash latest replay_failed [] = Inr latest"
| "replay_lines cd previous_hash latest replay_failed (raw # rest) =
     (case chain_record cd previous_hash raw of
        None \<Rightarrow> replay_lines cd previous_hash latest replay_failed rest
      | Some (value, record) \<Rightarrow>
        (let previous_hash = jr_record_hash record
         in case metadata_member value of
              None \<Rightarrow>
                if replay_failed then replay_lines cd previous_hash latest replay_failed rest
                else (case (latest, jr_metadata_delta record) of
                        (Some base, Some delta) \<Rightarrow>
                          (case replay_delta cd base record delta of
                             None \<Rightarrow> replay_lines cd previous_hash latest True rest
                           | Some metadata \<Rightarrow> replay_lines cd previous_hash (Some metadata) False rest)
                      | _ \<Rightarrow> replay_lines cd previous_hash latest replay_failed rest)
            | Some metadata_value \<Rightarrow>
                (case canonical_metadata_hash_value cd metadata_value of
                   Inl _ \<Rightarrow> replay_lines cd previous_hash latest replay_failed rest
                 | Inr meta_hash \<Rightarrow>
                     if meta_hash \<noteq> jr_meta_hash record
                     then replay_lines cd previous_hash latest replay_failed rest
                     else (case jr_metadata record of
                             None \<Rightarrow> replay_lines cd previous_hash latest replay_failed rest
                           | Some metadata \<Rightarrow>
                               rbind (ensure_integrity cd metadata) (\<lambda>metadata.
                                 replay_lines cd previous_hash (Some metadata) False rest)))))"

definition report_latest_recoverable_metadata :: "codec \<Rightarrow> meta_store \<Rightarrow> metadata option result" where
  "report_latest_recoverable_metadata cd st =
     (case journal_text st of
        None \<Rightarrow> Inr None
      | Some text \<Rightarrow> replay_lines cd [] None False (lines text))"

fun has_checkpoint_lines :: "codec \<Rightarrow> string \<Rightarrow> string list \<Rightarrow> bool" where
  "has_checkpoint_lines cd previous_hash [] = False"
| "has_checkpoint_lines cd previous_hash (raw # rest) =
     (case chain_record cd previous_hash raw of
        None \<Rightarrow> has_checkpoint_lines cd previous_hash rest
      | Some (_, record) \<Rightarrow>
          if jr_record_type record = Checkpoint \<and> jr_metadata record \<noteq> None then True
          else has_checkpoint_lines cd (jr_record_hash record) rest)"

definition has_valid_checkpoint :: "codec \<Rightarrow> meta_store \<Rightarrow> bool" where
  "has_valid_checkpoint cd st =
     (case journal_text st of None \<Rightarrow> False | Some text \<Rightarrow> has_checkpoint_lines cd [] (lines text))"

definition should_write_checkpoint :: "codec \<Rightarrow> nat \<Rightarrow> meta_store \<Rightarrow> nat \<Rightarrow> bool" where
  "should_write_checkpoint cd interval st txid \<longleftrightarrow>
     \<not> has_valid_checkpoint cd st \<or> txid mod interval = 0"

section \<open>Compaction\<close>

fun valid_journal_chain_records :: "codec \<Rightarrow> string \<Rightarrow> string list \<Rightarrow> journal_record list" where
  "valid_journal_chain_records cd previous_hash [] = []"
| "valid_journal_chain_records cd previous_hash (raw # rest) =
     (if trim raw = [] then valid_journal_chain_records cd previous_hash rest
      else case chain_record cd previous_hash raw of
             None \<Rightarrow> valid_journal_chain_records cd previous_hash rest
           | Some (_, record) \<Rightarrow> record # valid_journal_chain_records cd (jr_record_hash record) rest)"

fun rehash_records :: "codec \<Rightarrow> string \<Rightarrow> journal_record list \<Rightarrow> journal_record list result" where
  "rehash_records cd previous_hash [] = Inr []"
| "rehash_records cd previous_hash (record # rest) =
     (let record = record\<lparr>jr_previous_record_hash := previous_hash, jr_record_hash := []\<rparr>
      in rbind (record_hash cd record) (\<lambda>hash.
         rbind (rehash_records cd hash rest) (\<lambda>rest. Inr (record\<lparr>jr_record_hash := hash\<rparr> # rest))))"

definition rposition :: "('a \<Rightarrow> bool) \<Rightarrow> 'a list \<Rightarrow> nat option" where
  "rposition P xs = map_option (\<lambda>i. length xs - 1 - i) (position P (rev xs))"

definition compact_journal :: "codec \<Rightarrow> bool \<Rightarrow> meta_store \<Rightarrow> meta_store result" where
  "compact_journal cd disabled st =
     (if disabled then Inr st
      else case journal_text st of
        None \<Rightarrow> Inr st
      | Some text \<Rightarrow>
          (let records = valid_journal_chain_records cd [] (lines text)
           in case rposition (\<lambda>r. jr_record_type r = Checkpoint \<and> jr_metadata r \<noteq> None) records of
                None \<Rightarrow> Inr st
              | Some checkpoint_index \<Rightarrow>
                  rbind (rehash_records cd [] (drop checkpoint_index records)) (\<lambda>compacted.
                    Inr (st\<lparr>ms_journal := Some (concat (map (\<lambda>r.
                      str_bytes (cd_line cd r) @ str_bytes [CHR 0x0A]) compacted))\<rparr>))))"

section \<open>Metadata copies and recovery\<close>

definition read_candidate :: "codec \<Rightarrow> byte list option \<Rightarrow> metadata option" where
  "read_candidate cd file =
     (case file of
        None \<Rightarrow> None
      | Some bytes \<Rightarrow>
          res_ok (rbind (canonical_metadata_hash_bytes cd bytes) (\<lambda>hash.
                  rbind (ok_or Json (cd_meta_parse cd bytes)) (\<lambda>metadata.
                    validate_metadata metadata hash))))"

definition metadata_files :: "meta_store \<Rightarrow> (string \<times> byte list option) list" where
  "metadata_files st = [(''compat'', ms_compat st), (''primary'', ms_primary st), (''secondary'', ms_secondary st)]"

definition metadata_order :: "metadata \<Rightarrow> nat \<times> nat" where
  "metadata_order meta = (m_txid meta, mi_generation (m_integrity meta))"

definition order_less :: "nat \<times> nat \<Rightarrow> nat \<times> nat \<Rightarrow> bool" where
  "order_less a b \<longleftrightarrow> fst a < fst b \<or> fst a = fst b \<and> snd a < snd b"

text \<open>\<open>Iterator::max_by\<close> keeps the last of several maximal elements.\<close>

fun max_by_order :: "('a \<Rightarrow> metadata) \<Rightarrow> 'a list \<Rightarrow> 'a option" where
  "max_by_order f [] = None"
| "max_by_order f (x # xs) =
     (case max_by_order f xs of
        None \<Rightarrow> Some x
      | Some y \<Rightarrow> if order_less (metadata_order (f y)) (metadata_order (f x)) then Some x else Some y)"

definition candidates :: "codec \<Rightarrow> meta_store \<Rightarrow> (string \<times> metadata) list" where
  "candidates cd st =
     concat (map (\<lambda>(source, file). case read_candidate cd file of None \<Rightarrow> [] | Some m \<Rightarrow> [(source, m)])
       (metadata_files st))"

definition latest_metadata_copy :: "codec \<Rightarrow> meta_store \<Rightarrow> metadata option" where
  "latest_metadata_copy cd st = map_option snd (max_by_order snd (candidates cd st))"

definition latest_recoverable_metadata :: "codec \<Rightarrow> meta_store \<Rightarrow> metadata result" where
  "latest_recoverable_metadata cd st =
     rbind (report_latest_recoverable_metadata cd st) (\<lambda>replayed.
       case (latest_metadata_copy cd st, replayed) of
         (None, None) \<Rightarrow> Inl Invalid
       | (Some m, None) \<Rightarrow> Inr m
       | (None, Some r) \<Rightarrow> Inr r
       | (Some m, Some r) \<Rightarrow> Inr (if order_less (metadata_order m) (metadata_order r) then r else m))"

text \<open>Number of present but invalid copies, plus the number of extra distinct hashes.\<close>

definition double_write_mismatches :: "codec \<Rightarrow> meta_store \<Rightarrow> nat" where
  "double_write_mismatches cd st =
     (let present = filter (\<lambda>(_, file). file \<noteq> None) (metadata_files st);
          invalid = length (filter (\<lambda>(_, file). read_candidate cd file = None) present);
          hashes = foldr (\<lambda>(_, m) hs. bs_insert (mi_meta_hash (m_integrity m)) hs) (candidates cd st) [];
          divergent = (if length hashes > 1 then length hashes - 1 else 0)
      in invalid + divergent + (if length present > 0 \<and> hashes = [] then 1 else 0))"

definition missing_or_invalid_copy :: "codec \<Rightarrow> meta_store \<Rightarrow> bool" where
  "missing_or_invalid_copy cd st \<longleftrightarrow>
     (\<exists>(_, file) \<in> set (metadata_files st). file = None \<or> read_candidate cd file = None)"

definition load_or_recover ::
  "codec \<Rightarrow> meta_store \<Rightarrow> (metadata \<times> transaction_report \<times> meta_store) result" where
  "load_or_recover cd st =
     rbind (scan cd st) (\<lambda>report0.
     let report1 = report0\<lparr>tr_double_write_mismatches := double_write_mismatches cd st\<rparr>;
         best = max_by_order snd (candidates cd st)
     in rbind (report_latest_recoverable_metadata cd st) (\<lambda>replayed.
        let (report2, best2) =
              (case replayed of
                 None \<Rightarrow> (report1, best)
               | Some r \<Rightarrow>
                   if (case best of None \<Rightarrow> True
                       | Some (_, m) \<Rightarrow> order_less (metadata_order m) (metadata_order r))
                   then (report1\<lparr>tr_replayed := True\<rparr>, Some (''journal-replay'', r))
                   else (report1, best))
        in case best2 of
             None \<Rightarrow> Inl Invalid
           | Some (source, metadata0) \<Rightarrow>
               rbind (ensure_integrity cd metadata0) (\<lambda>metadata.
                 if m_format metadata \<noteq> FORMAT_VERSION then Inl Invalid
                 else (let report3 = report2\<lparr>tr_selected_metadata_source := source\<rparr>;
                           needs_repair = (tr_replayed report3 \<or> tr_double_write_mismatches report3 > 0
                                           \<or> missing_or_invalid_copy cd st);
                           st' = (if needs_repair then write_metadata_copies cd st metadata else st)
                       in Inr (metadata, report3, st')))))"

section \<open>Transactions\<close>

text \<open>
  \<open>inject\<close> says at which points \<open>inject_crash\<close> stops. A transaction returns the store as it is at
  that moment, the metadata in memory, and its result.
\<close>

definition write_metadata_copies_with_injection ::
  "codec \<Rightarrow> (string \<Rightarrow> bool) \<Rightarrow> meta_store \<Rightarrow> metadata \<Rightarrow> meta_store \<times> unit result" where
  "write_metadata_copies_with_injection cd inject st meta =
     (let bytes = cd_meta_pretty cd meta;
          st1 = st\<lparr>ms_primary := Some bytes\<rparr>
      in if inject ''after-primary-metadata'' then (st1, Inl (InjectedCrash ''after-primary-metadata''))
         else (let st2 = st1\<lparr>ms_secondary := Some bytes\<rparr>
               in if inject ''after-secondary-metadata''
                  then (st2, Inl (InjectedCrash ''after-secondary-metadata''))
                  else (let st3 = st2\<lparr>ms_compat := Some bytes\<rparr>
                        in if inject ''after-compatible-metadata''
                           then (st3, Inl (InjectedCrash ''after-compatible-metadata''))
                           else (st3, Inr ()))))"

definition previous_metadata :: "codec \<Rightarrow> meta_store \<Rightarrow> transaction_report \<Rightarrow> metadata result" where
  "previous_metadata cd st report =
     (case latest_metadata_copy cd st of
        Some metadata \<Rightarrow>
          if m_txid metadata \<ge> tr_last_valid_txid report then Inr metadata
          else latest_recoverable_metadata cd st
      | None \<Rightarrow> latest_recoverable_metadata cd st)"

definition transaction_record ::
  "codec \<Rightarrow> nat \<Rightarrow> meta_store \<Rightarrow> metadata \<Rightarrow> metadata \<Rightarrow> string \<Rightarrow> string \<Rightarrow> json \<Rightarrow> f64 \<Rightarrow> journal_record result"
where
  "transaction_record cd interval st previous meta previous_record_hash action details now =
     (let checkpoint = should_write_checkpoint cd interval st (m_txid meta)
      in build_record cd meta (if checkpoint then Checkpoint else Transaction) action details
           previous_record_hash now (if checkpoint then Some meta else None)
           (if checkpoint then None else Some (metadata_delta cd previous meta)))"

definition append_transaction_checked ::
  "codec \<Rightarrow> nat \<Rightarrow> bool \<Rightarrow> (string \<Rightarrow> bool) \<Rightarrow> f64 \<Rightarrow> meta_store \<Rightarrow> metadata \<Rightarrow> nat option \<Rightarrow> string \<Rightarrow> json
    \<Rightarrow> meta_store \<times> metadata \<times> unit result" where
  "append_transaction_checked cd interval compaction_disabled inject now st meta expected action details =
     (case rbind (scan cd st) (\<lambda>report. rbind (previous_metadata cd st report) (\<lambda>previous. Inr (report, previous))) of
        Inl err \<Rightarrow> (st, meta, Inl err)
      | Inr (report, previous) \<Rightarrow>
        if (case expected of Some txid \<Rightarrow> m_txid previous > txid | None \<Rightarrow> False)
        then (st, meta, Inl Conflict)
        else if inject ''before-journal'' then (st, meta, Inl (InjectedCrash ''before-journal''))
        else case rbind (if mi_meta_hash (m_integrity meta) = [] then canonical_metadata_hash cd meta
                         else Inr (mi_meta_hash (m_integrity meta)))
                    (prepare_metadata_integrity cd meta) of
               Inl err \<Rightarrow> (st, meta, Inl err)
             | Inr meta' \<Rightarrow>
               (case transaction_record cd interval st previous meta' (tr_last_valid_record_hash report)
                       action details now of
                  Inl err \<Rightarrow> (st, meta', Inl err)
                | Inr record \<Rightarrow>
                  (let st1 = append_record cd st record
                   in if inject ''after-journal'' then (st1, meta', Inl (InjectedCrash ''after-journal''))
                      else case write_metadata_copies_with_injection cd inject st1 meta' of
                             (st2, Inl err) \<Rightarrow> (st2, meta', Inl err)
                           | (st2, Inr _) \<Rightarrow>
                               (if should_write_checkpoint cd interval st (m_txid meta')
                                then (case compact_journal cd compaction_disabled st2 of
                                        Inr st3 \<Rightarrow> st3 | Inl _ \<Rightarrow> st2)
                                else st2, meta', Inr ()))))"

definition append_event ::
  "codec \<Rightarrow> f64 \<Rightarrow> meta_store \<Rightarrow> metadata \<Rightarrow> string \<Rightarrow> json \<Rightarrow> meta_store result" where
  "append_event cd now st meta action details =
     rbind (scan cd st) (\<lambda>report.
     rbind (build_record cd meta Event action details (tr_last_valid_record_hash report) now None None) (\<lambda>record.
       Inr (append_record cd st record)))"

definition initialize_volume :: "codec \<Rightarrow> meta_store \<Rightarrow> metadata \<Rightarrow> f64 \<Rightarrow> (meta_store \<times> metadata) result" where
  "initialize_volume cd st meta created_at =
     rbind (prepare_metadata_integrity cd meta []) (\<lambda>meta.
     rbind (build_record cd meta Checkpoint ''mkfs'' (JObject [(''txid'', JNumber (PosInt (m_txid meta)))])
              [] created_at (Some meta) None) (\<lambda>record.
       Inr (write_metadata_copies cd (append_record cd st record) meta, meta)))"

section \<open>What is relied on of serde and SHA-256\<close>

text \<open>A blank line is no JSON value, a digest in hexadecimal is not empty, and JSON pointers
  follow RFC 6901.\<close>

definition codec_ok :: "codec \<Rightarrow> bool" where
  "codec_ok cd \<longleftrightarrow>
     (\<forall>raw. trim raw = [] \<longrightarrow> cd_value cd raw = None) \<and> (\<forall>bs. cd_sha256_hex cd bs \<noteq> [])
     \<and> rfc6901_pointer (cd_pointer_mut cd)"

text \<open>The metadata survives serialisation (serde_json reads back what it wrote; for times this
  holds of the values whose decimal form it parses exactly).\<close>

definition meta_exact :: "codec \<Rightarrow> metadata \<Rightarrow> bool" where
  "meta_exact cd m \<longleftrightarrow>
     cd_meta_parse cd (cd_meta_pretty cd m) = Some m
     \<and> (let m0 = m\<lparr>m_integrity := default_integrity\<rparr> in cd_meta_parse cd (cd_meta_pretty cd m0) = Some m0)
     \<and> cd_meta_from_value cd (cd_meta_to_value cd m) = Some m
     \<and> json_ok (cd_meta_to_value cd m) \<and> cd_meta_to_value cd m \<noteq> JNull"

text \<open>The record survives serialisation, as one line of text.\<close>

definition record_exact :: "codec \<Rightarrow> journal_record \<Rightarrow> bool" where
  "record_exact cd r \<longleftrightarrow>
     (let line = cd_line cd r; r0 = r\<lparr>jr_record_hash := []\<rparr>
      in CHR 0x0A \<notin> set line \<and> last line \<noteq> CHR 0x0D \<and> trim line \<noteq> [] \<and> valid_utf8 (nat_bytes line)
         \<and> (\<exists>v. cd_value cd line = Some v \<and> cd_record cd v = Some r
               \<and> metadata_member v = map_option (cd_meta_to_value cd) (jr_metadata r))
         \<and> cd_record_parse cd (cd_record_pretty cd r0) = Some r0)"

definition mhash :: "codec \<Rightarrow> metadata \<Rightarrow> string" where
  "mhash cd m = cd_sha256_hex cd (cd_meta_pretty cd (m\<lparr>m_integrity := default_integrity\<rparr>))"

definition rhash :: "codec \<Rightarrow> journal_record \<Rightarrow> string" where
  "rhash cd r = cd_sha256_hex cd (cd_record_pretty cd (r\<lparr>jr_record_hash := []\<rparr>))"

lemma canonical_hash_exact: "meta_exact cd m \<Longrightarrow> canonical_metadata_hash cd m = Inr (mhash cd m)"
  by (simp add: meta_exact_def canonical_metadata_hash_def mhash_def ok_or_def Let_def)

lemma mhash_integrity [simp]: "mhash cd (m\<lparr>m_integrity := i\<rparr>) = mhash cd m"
  by (simp add: mhash_def)

lemma rhash_hash [simp]: "rhash cd (r\<lparr>jr_record_hash := h\<rparr>) = rhash cd r"
  by (simp add: rhash_def)

lemma record_hash_exact:
  assumes "record_exact cd (r\<lparr>jr_record_hash := h\<rparr>)"
  shows "record_hash cd r = Inr (rhash cd r)"
  using assms by (simp add: record_exact_def record_hash_def rhash_def ok_or_def Let_def)

section \<open>Lines\<close>

definition ends_line :: "string \<Rightarrow> bool" where
  "ends_line t \<longleftrightarrow> t = [] \<or> last t = CHR 0x0A"

lemma lines_append:
  assumes "ends_line t" "CHR 0x0A \<notin> set l" "last l \<noteq> CHR 0x0D"
  shows "lines (t @ l @ [CHR 0x0A]) = lines t @ [l]" and "ends_line (t @ l @ [CHR 0x0A])"
proof -
  have strip: "strip_cr l = l" using assms(3) by (simp add: strip_cr_def)
  have one: "split_on CHR 0x0A (l @ [CHR 0x0A]) = [l, []]"
    using split_on_sep [of "CHR 0x0A" l "[]"] assms(2) by (simp add: split_on_absent)
  show "lines (t @ l @ [CHR 0x0A]) = lines t @ [l]"
  proof (cases t rule: rev_cases)
    case Nil
    then show ?thesis using one strip by (simp add: lines_def)
  next
    case (snoc t0 c)
    then have t: "t = t0 @ CHR 0x0A # []" using assms(1) by (simp add: ends_line_def)
    have "split_on CHR 0x0A t = split_on CHR 0x0A t0 @ [[]]"
      unfolding t by (subst split_on_sep) simp
    moreover have "split_on CHR 0x0A (t @ l @ [CHR 0x0A]) = split_on CHR 0x0A t0 @ [l, []]"
      using split_on_sep [of "CHR 0x0A" t0 "l @ [CHR 0x0A]"] one by (simp add: t)
    ultimately show ?thesis using strip by (simp add: lines_def butlast_append)
  qed
  show "ends_line (t @ l @ [CHR 0x0A])" by (simp add: ends_line_def)
qed

section \<open>The readers as folds\<close>

type_synonym replay_state = "string \<times> metadata option \<times> bool"

definition replay_step :: "codec \<Rightarrow> replay_state \<Rightarrow> string \<Rightarrow> replay_state result" where
  "replay_step cd s raw =
     (case s of (previous_hash, latest, failed) \<Rightarrow>
      (case chain_record cd previous_hash raw of
        None \<Rightarrow> Inr s
      | Some (value, record) \<Rightarrow>
        (case metadata_member value of
           None \<Rightarrow>
             (if failed then Inr (jr_record_hash record, latest, failed)
              else case (latest, jr_metadata_delta record) of
                     (Some base, Some delta) \<Rightarrow>
                       (case replay_delta cd base record delta of
                          None \<Rightarrow> Inr (jr_record_hash record, latest, True)
                        | Some metadata \<Rightarrow> Inr (jr_record_hash record, Some metadata, False))
                   | _ \<Rightarrow> Inr (jr_record_hash record, latest, failed))
         | Some metadata_value \<Rightarrow>
             (case canonical_metadata_hash_value cd metadata_value of
                Inl _ \<Rightarrow> Inr (jr_record_hash record, latest, failed)
              | Inr meta_hash \<Rightarrow>
                  if meta_hash \<noteq> jr_meta_hash record then Inr (jr_record_hash record, latest, failed)
                  else (case jr_metadata record of
                          None \<Rightarrow> Inr (jr_record_hash record, latest, failed)
                        | Some metadata \<Rightarrow>
                            rbind (ensure_integrity cd metadata) (\<lambda>metadata.
                              Inr (jr_record_hash record, Some metadata, False)))))))"

fun replay_run :: "codec \<Rightarrow> replay_state \<Rightarrow> string list \<Rightarrow> replay_state result" where
  "replay_run cd s [] = Inr s"
| "replay_run cd s (raw # rest) = rbind (replay_step cd s raw) (\<lambda>s. replay_run cd s rest)"

lemma replay_lines_run:
  "replay_lines cd h latest failed raws = rbind (replay_run cd (h, latest, failed) raws) (\<lambda>s. Inr (fst (snd s)))"
proof (induction raws arbitrary: h latest failed)
  case (Cons raw rest)
  show ?case
    by (simp add: replay_step_def Cons rbind_assoc Let_def split: option.split prod.split sum.split)
qed simp

lemma replay_run_append:
  "replay_run cd s (xs @ ys) = rbind (replay_run cd s xs) (\<lambda>s. replay_run cd s ys)"
  by (induction xs arbitrary: s) (auto simp: rbind_def split: sum.splits)

type_synonym scan_state = "string \<times> transaction_report"

definition scan_accept :: "transaction_report \<Rightarrow> journal_record \<Rightarrow> scan_state" where
  "scan_accept report record =
     (jr_record_hash record,
      report\<lparr>tr_valid_entries := tr_valid_entries report + 1, tr_last_valid_txid := jr_txid record,
             tr_last_valid_generation := jr_generation record,
             tr_last_valid_record_hash := jr_record_hash record\<rparr>)"

definition scan_step :: "codec \<Rightarrow> scan_state \<Rightarrow> string \<Rightarrow> scan_state result" where
  "scan_step cd s raw =
     (case s of (previous_hash, report) \<Rightarrow>
      if trim raw = [] then Inr s
      else case cd_value cd raw of
        None \<Rightarrow> Inr (previous_hash, bump_invalid report)
      | Some value \<Rightarrow>
        (case cd_record cd value of
           None \<Rightarrow> Inr (previous_hash, bump_invalid report)
         | Some record \<Rightarrow>
           if jr_record_hash record = [] then
             Inr (previous_hash,
               report\<lparr>tr_valid_entries := tr_valid_entries report + 1,
                      tr_legacy_entries := tr_legacy_entries report + 1,
                      tr_last_valid_txid := max (tr_last_valid_txid report) (jr_txid record)\<rparr>)
           else rbind (record_hash_is_valid cd value record) (\<lambda>valid.
             if \<not> valid then Inr (previous_hash, bump_invalid report)
             else if jr_previous_record_hash record \<noteq> previous_hash
             then Inr (previous_hash, bump_invalid report)
             else case metadata_member value of
                    None \<Rightarrow> Inr (scan_accept report record)
                  | Some metadata_value \<Rightarrow>
                      (case canonical_metadata_hash_value cd metadata_value of
                         Inr hash \<Rightarrow>
                           if hash = jr_meta_hash record
                           then Inr (scan_accept (report\<lparr>tr_latest_snapshot_txid := jr_txid record,
                                       tr_latest_snapshot_generation := jr_generation record\<rparr>) record)
                           else Inr (previous_hash, bump_invalid report)
                       | Inl _ \<Rightarrow> Inr (previous_hash, bump_invalid report)))))"

fun scan_run :: "codec \<Rightarrow> scan_state \<Rightarrow> string list \<Rightarrow> scan_state result" where
  "scan_run cd s [] = Inr s"
| "scan_run cd s (raw # rest) = rbind (scan_step cd s raw) (\<lambda>s. scan_run cd s rest)"

lemma scan_lines_run:
  "scan_lines cd h report raws = rbind (scan_run cd (h, report) raws) (\<lambda>s. Inr (snd s))"
proof (induction raws arbitrary: h report)
  case (Cons raw rest)
  show ?case
    by (simp add: scan_step_def scan_accept_def Cons rbind_assoc Let_def
        split: option.split sum.split)
       (auto intro!: rbind_cong simp: Cons scan_accept_def split: option.split sum.split)
qed simp

lemma scan_run_append: "scan_run cd s (xs @ ys) = rbind (scan_run cd s xs) (\<lambda>s. scan_run cd s ys)"
  by (induction xs arbitrary: s) (auto simp: rbind_def split: sum.splits)

lemma scan_step_hash:
  assumes "scan_step cd s raw = Inr s'" "fst s = tr_last_valid_record_hash (snd s)"
  shows "fst s' = tr_last_valid_record_hash (snd s')"
  using assms unfolding scan_step_def
  by (auto simp: scan_accept_def bump_invalid_def rbind_eq_Inr_iff
      split: if_splits option.splits prod.splits sum.splits)

lemma scan_run_hash:
  "scan_run cd s raws = Inr s' \<Longrightarrow> fst s = tr_last_valid_record_hash (snd s) \<Longrightarrow>
     fst s' = tr_last_valid_record_hash (snd s')"
  by (induction raws arbitrary: s) (auto simp: rbind_eq_Inr_iff dest: scan_step_hash)

section \<open>One more record\<close>

definition sealed_record :: "codec \<Rightarrow> journal_record \<Rightarrow> string \<Rightarrow> bool" where
  "sealed_record cd r h \<longleftrightarrow>
     record_exact cd r \<and> jr_record_hash r = rhash cd r \<and> jr_previous_record_hash r = h"

lemma sealed_chain_record:
  assumes "codec_ok cd" "sealed_record cd r h"
  obtains v where "cd_value cd (cd_line cd r) = Some v" "cd_record cd v = Some r"
    "metadata_member v = map_option (cd_meta_to_value cd) (jr_metadata r)"
    "record_hash_is_valid cd v r = Inr True" "chain_record cd h (cd_line cd r) = Some (v, r)"
    "jr_record_hash r \<noteq> []"
proof -
  have ex: "record_exact cd r" and hash: "jr_record_hash r = rhash cd r"
    and prev: "jr_previous_record_hash r = h"
    using assms(2) by (simp_all add: sealed_record_def)
  obtain v where v: "cd_value cd (cd_line cd r) = Some v" "cd_record cd v = Some r"
    "metadata_member v = map_option (cd_meta_to_value cd) (jr_metadata r)"
    using ex by (auto simp: record_exact_def Let_def)
  have "record_hash cd (r\<lparr>jr_record_hash := []\<rparr>) = Inr (rhash cd r)"
    using record_hash_exact [where r = "r\<lparr>jr_record_hash := []\<rparr>" and h = "jr_record_hash r" and cd = cd] ex
    by simp
  then have valid: "record_hash_is_valid cd v r = Inr True"
    using v(2) hash by (simp add: record_hash_is_valid_def record_hash_value_def ok_or_def)
  have ne: "jr_record_hash r \<noteq> []" using assms(1) hash by (simp add: codec_ok_def rhash_def)
  have "chain_record cd h (cd_line cd r) = Some (v, r)"
    using v valid ne prev by (simp add: chain_record_def)
  then show thesis using that v valid ne by blast
qed

text \<open>The metadata a record stands for, on top of the metadata replayed so far.\<close>

definition record_yields :: "codec \<Rightarrow> metadata option \<Rightarrow> bool \<Rightarrow> journal_record \<Rightarrow> metadata \<Rightarrow> bool" where
  "record_yields cd latest failed r m \<longleftrightarrow>
     (jr_metadata r = Some m \<and> meta_exact cd m \<and> jr_meta_hash r = mhash cd m
        \<and> mi_meta_hash (m_integrity m) \<noteq> [])
     \<or> (jr_metadata r = None \<and> \<not> failed \<and> (\<exists>base delta. latest = Some base \<and> jr_metadata_delta r = Some delta
        \<and> replay_delta cd base r delta = Some m))"

lemma replay_step_sealed:
  assumes ok: "codec_ok cd" and r: "sealed_record cd r h" and y: "record_yields cd latest failed r m"
  shows "replay_step cd (h, latest, failed) (cd_line cd r) = Inr (jr_record_hash r, Some m, False)"
proof -
  obtain v where v: "metadata_member v = map_option (cd_meta_to_value cd) (jr_metadata r)"
    "chain_record cd h (cd_line cd r) = Some (v, r)"
    using sealed_chain_record [OF ok r] by blast
  show ?thesis
    using y v
    by (auto simp: record_yields_def replay_step_def canonical_metadata_hash_value_def ok_or_def
        canonical_hash_exact meta_exact_def ensure_integrity_def)
qed

lemma scan_step_sealed:
  assumes ok: "codec_ok cd" and r: "sealed_record cd r h"
    and m: "\<forall>m. jr_metadata r = Some m \<longrightarrow> meta_exact cd m \<and> jr_meta_hash r = mhash cd m"
  shows "\<exists>report'. scan_step cd (h, report) (cd_line cd r) = Inr (jr_record_hash r, report')
    \<and> tr_last_valid_txid report' = jr_txid r"
proof -
  obtain v where v: "cd_value cd (cd_line cd r) = Some v" "cd_record cd v = Some r"
    "metadata_member v = map_option (cd_meta_to_value cd) (jr_metadata r)"
    "record_hash_is_valid cd v r = Inr True" "jr_record_hash r \<noteq> []"
    using sealed_chain_record [OF ok r] by blast
  have "trim (cd_line cd r) \<noteq> []" "jr_previous_record_hash r = h"
    using r by (auto simp: sealed_record_def record_exact_def Let_def)
  then show ?thesis
    using v m
    by (cases "jr_metadata r")
       (auto simp: scan_step_def scan_accept_def canonical_metadata_hash_value_def ok_or_def
         canonical_hash_exact meta_exact_def)
qed

section \<open>Journal and copies in step\<close>

definition meta_sealed :: "codec \<Rightarrow> metadata \<Rightarrow> bool" where
  "meta_sealed cd m \<longleftrightarrow> meta_exact cd m \<and> m_format m = FORMAT_VERSION
     \<and> mi_meta_hash (m_integrity m) = mhash cd m \<and> mi_generation (m_integrity m) = m_txid m"

text \<open>The journal file is readable, its last line is complete, its chain ends in \<open>h\<close> and replays
  to \<open>m\<close>.\<close>

definition journal_at :: "codec \<Rightarrow> byte list option \<Rightarrow> string \<Rightarrow> metadata \<Rightarrow> bool" where
  "journal_at cd file h m \<longleftrightarrow>
     (\<exists>bs text report. file = Some bs \<and> from_utf8 bs = Some text \<and> ends_line text
        \<and> scan_run cd ([], default_report) (lines text) = Inr (h, report)
        \<and> tr_last_valid_txid report \<le> m_txid m
        \<and> replay_run cd ([], None, False) (lines text) = Inr (h, Some m, False))"

text \<open>The store holds \<open>m\<close>: the journal replays to it and it is the newest copy.\<close>

definition synced :: "codec \<Rightarrow> meta_store \<Rightarrow> metadata \<Rightarrow> bool" where
  "synced cd st m \<longleftrightarrow> (\<exists>h. journal_at cd (ms_journal st) h m) \<and> latest_metadata_copy cd st = Some m
     \<and> meta_sealed cd m"

lemma append_record_simps [simp]:
  "ms_primary (append_record cd st r) = ms_primary st" "ms_secondary (append_record cd st r) = ms_secondary st"
  "ms_compat (append_record cd st r) = ms_compat st"
  by (simp_all add: append_record_def)

lemma journal_extend:
  assumes ok: "codec_ok cd" and r: "sealed_record cd r h" and tx: "jr_txid r = m_txid m'"
    and utf8: "from_utf8 bs = Some tt" "ends_line tt"
    and scan: "scan_run cd ([], default_report) (lines tt) = Inr (h, report)"
    and replay: "replay_run cd ([], None, False) (lines tt) = Inr (h, latest, failed)"
    and y: "record_yields cd latest failed r m'"
  shows "journal_at cd (Some (bs @ str_bytes (cd_line cd r) @ str_bytes [CHR 0x0A])) (jr_record_hash r) m'"
proof -
  have ex: "CHR 0x0A \<notin> set (cd_line cd r)" "last (cd_line cd r) \<noteq> CHR 0x0D" "valid_utf8 (nat_bytes (cd_line cd r))"
    using r by (simp_all add: sealed_record_def record_exact_def Let_def)
  let ?tt = "tt @ cd_line cd r @ [CHR 0x0A]"
  have "from_utf8 ((bs @ str_bytes (cd_line cd r)) @ str_bytes [CHR 0x0A]) = Some ((tt @ cd_line cd r) @ [CHR 0x0A])"
    using ex(3) by (intro from_utf8_append_str) (simp_all add: utf8(1) nat_bytes_def)
  then have utf: "from_utf8 (bs @ str_bytes (cd_line cd r) @ str_bytes [CHR 0x0A]) = Some ?tt" by simp
  note ls = lines_append [OF utf8(2) ex(1,2)]
  have "\<forall>m. jr_metadata r = Some m \<longrightarrow> meta_exact cd m \<and> jr_meta_hash r = mhash cd m"
    using y by (auto simp: record_yields_def)
  then obtain report' where "scan_step cd (h, report) (cd_line cd r) = Inr (jr_record_hash r, report')"
    "tr_last_valid_txid report' = jr_txid r"
    using scan_step_sealed [OF ok r] by blast
  then have "scan_run cd ([], default_report) (lines ?tt) = Inr (jr_record_hash r, report')"
    "tr_last_valid_txid report' \<le> m_txid m'"
    using scan tx by (simp_all add: ls(1) scan_run_append)
  moreover have "replay_run cd ([], None, False) (lines ?tt) = Inr (jr_record_hash r, Some m', False)"
    using replay replay_step_sealed [OF ok r y] by (simp add: ls(1) replay_run_append)
  ultimately show ?thesis using utf ls(2) unfolding journal_at_def by blast
qed

lemma journal_at_extend:
  assumes "codec_ok cd" "sealed_record cd r h" "jr_txid r = m_txid m'"
    and "journal_at cd (ms_journal st) h m" "record_yields cd (Some m) False r m'"
  shows "journal_at cd (ms_journal (append_record cd st r)) (jr_record_hash r) m'"
proof -
  obtain bs tt report where "ms_journal st = Some bs" "from_utf8 bs = Some tt" "ends_line tt"
    "scan_run cd ([], default_report) (lines tt) = Inr (h, report)"
    "replay_run cd ([], None, False) (lines tt) = Inr (h, Some m, False)"
    using assms(4) unfolding journal_at_def by blast
  then show ?thesis
    using journal_extend [OF assms(1-3) _ _ _ _ assms(5)] by (simp add: append_record_def)
qed

lemma from_utf8_Nil [simp]: "from_utf8 [] = Some []"
  by (simp add: from_utf8_def bytes_str_def)

lemma lines_Nil [simp]: "lines [] = []"
  by (simp add: lines_def)

lemma journal_single:
  assumes "codec_ok cd" "sealed_record cd r []" "jr_txid r = m_txid m'" "record_yields cd None False r m'"
  shows "journal_at cd (Some (str_bytes (cd_line cd r) @ str_bytes [CHR 0x0A])) (jr_record_hash r) m'"
  using journal_extend [of cd r "[]" m' "[]" "[]" default_report None False] assms
  by (simp add: ends_line_def)

lemma journal_at_readers:
  assumes "journal_at cd (ms_journal st) h m"
  shows "\<exists>report. scan cd st = Inr report \<and> tr_last_valid_record_hash report = h
      \<and> tr_last_valid_txid report \<le> m_txid m"
    and "report_latest_recoverable_metadata cd st = Inr (Some m)"
proof -
  obtain bs tt report where f: "ms_journal st = Some bs" "from_utf8 bs = Some tt"
    and sc: "scan_run cd ([], default_report) (lines tt) = Inr (h, report)"
    "tr_last_valid_txid report \<le> m_txid m"
    and rp: "replay_run cd ([], None, False) (lines tt) = Inr (h, Some m, False)"
    using assms unfolding journal_at_def by blast
  have jtext: "journal_text st = Some tt" using f by (simp add: journal_text_def)
  have "h = tr_last_valid_record_hash report"
    using scan_run_hash [OF sc(1)] by (simp add: default_report_def)
  then show "\<exists>report. scan cd st = Inr report \<and> tr_last_valid_record_hash report = h
      \<and> tr_last_valid_txid report \<le> m_txid m"
    using sc by (simp add: scan_def jtext scan_lines_run)
  show "report_latest_recoverable_metadata cd st = Inr (Some m)"
    using rp by (simp add: report_latest_recoverable_metadata_def jtext replay_lines_run)
qed

section \<open>Copies\<close>

lemma meta_sealed_hash: "codec_ok cd \<Longrightarrow> meta_sealed cd m \<Longrightarrow> mi_meta_hash (m_integrity m) \<noteq> []"
  by (simp add: codec_ok_def meta_sealed_def mhash_def)

lemma ensure_integrity_sealed: "codec_ok cd \<Longrightarrow> meta_sealed cd m \<Longrightarrow> ensure_integrity cd m = Inr m"
  by (simp add: ensure_integrity_def meta_sealed_hash)

lemma read_candidate_sealed:
  assumes "codec_ok cd" "meta_sealed cd m"
  shows "read_candidate cd (Some (cd_meta_pretty cd m)) = Some m"
proof -
  have ex: "meta_exact cd m" using assms(2) by (simp add: meta_sealed_def)
  then have "cd_meta_parse cd (cd_meta_pretty cd m) = Some m" by (simp add: meta_exact_def)
  then show ?thesis
    using assms meta_sealed_hash [OF assms] canonical_hash_exact [OF ex]
    by (simp add: read_candidate_def canonical_metadata_hash_bytes_def ok_or_def validate_metadata_def meta_sealed_def)
qed

lemma max_by_order_Some:
  "max_by_order f xs = Some y \<Longrightarrow> y \<in> set xs \<and> (\<forall>x \<in> set xs. \<not> order_less (metadata_order (f y)) (metadata_order (f x)))"
proof (induction xs arbitrary: y)
  case (Cons x xs)
  show ?case
  proof (cases "max_by_order f xs")
    case None
    then have "xs = []" by (cases xs) (auto split: option.splits if_splits)
    then show ?thesis using Cons.prems by (simp add: order_less_def)
  next
    case (Some z)
    note z = Cons.IH [OF Some]
    show ?thesis
      using Cons.prems Some z by (auto simp: order_less_def split: if_splits)
  qed
qed simp

lemma max_by_order_None: "max_by_order f xs = None \<longleftrightarrow> xs = []"
  by (cases xs) (auto split: option.splits if_splits)

definition copies :: "codec \<Rightarrow> meta_store \<Rightarrow> metadata set" where
  "copies cd st = {m. \<exists>file \<in> {ms_compat st, ms_primary st, ms_secondary st}. read_candidate cd file = Some m}"

lemma copies_candidates: "copies cd st = snd ` set (candidates cd st)"
  by (force simp: copies_def candidates_def metadata_files_def split: option.splits)

abbreviation older :: "metadata \<Rightarrow> metadata \<Rightarrow> bool" where
  "older a b \<equiv> order_less (metadata_order a) (metadata_order b)"

lemma latest_copyI:
  assumes "m \<in> copies cd st" "\<forall>c \<in> copies cd st. c = m \<or> older c m"
  shows "latest_metadata_copy cd st = Some m"
proof (cases "max_by_order snd (candidates cd st)")
  case None
  then show ?thesis using assms(1) by (simp add: max_by_order_None copies_candidates)
next
  case (Some y)
  note y = max_by_order_Some [OF Some]
  have "snd y = m"
    using assms y unfolding copies_candidates by (metis imageE image_eqI)
  then show ?thesis by (simp add: latest_metadata_copy_def Some)
qed

lemma latest_copyD:
  assumes "latest_metadata_copy cd st = Some m"
  shows "m \<in> copies cd st" "\<forall>c \<in> copies cd st. \<not> older m c"
proof -
  obtain y where y: "max_by_order snd (candidates cd st) = Some y" "snd y = m"
    using assms by (auto simp: latest_metadata_copy_def)
  show "m \<in> copies cd st" "\<forall>c \<in> copies cd st. \<not> older m c"
    using max_by_order_Some [OF y(1)] y(2) unfolding copies_candidates by auto
qed

lemma older_trans: "\<not> older m c \<Longrightarrow> older m n \<Longrightarrow> older c n"
  by (auto simp: order_less_def)

lemma latest_copy_newer:
  assumes "latest_metadata_copy cd st = Some m" "older m n"
    and "copies cd st' \<subseteq> insert n (copies cd st)" "n \<in> copies cd st'"
  shows "latest_metadata_copy cd st' = Some n"
proof (rule latest_copyI [OF assms(4)])
  show "\<forall>c \<in> copies cd st'. c = n \<or> older c n"
    using latest_copyD(2) [OF assms(1)] assms(2,3) older_trans by blast
qed

lemma latest_copy_written:
  assumes "codec_ok cd" "meta_sealed cd n"
  shows "latest_metadata_copy cd (write_metadata_copies cd st n) = Some n"
  using read_candidate_sealed [OF assms]
  by (intro latest_copyI) (auto simp: copies_def write_metadata_copies_def Let_def)

section \<open>Recovery\<close>

lemma synced_written:
  assumes "codec_ok cd" "meta_sealed cd n" "journal_at cd (ms_journal st) h n"
  shows "synced cd (write_metadata_copies cd st n) n"
  using assms latest_copy_written [OF assms(1,2)] by (auto simp: synced_def write_metadata_copies_def Let_def)

lemma load_or_recover_newest:
  assumes ok: "codec_ok cd" and n: "meta_sealed cd n" and jn: "journal_at cd (ms_journal st) h n"
    and c: "latest_metadata_copy cd st = Some c" "c = n \<or> older c n"
  shows "\<exists>report st'. load_or_recover cd st = Inr (n, report, st') \<and> synced cd st' n"
proof -
  obtain report where scan: "scan cd st = Inr report" using journal_at_readers(1) [OF jn] by blast
  note replay = journal_at_readers(2) [OF jn]
  obtain src where best: "max_by_order snd (candidates cd st) = Some (src, c)"
    using c(1) by (auto simp: latest_metadata_copy_def)
  note ens = ensure_integrity_sealed [OF ok n]
  have fmt: "m_format n = FORMAT_VERSION" using n by (simp add: meta_sealed_def)
  note written = synced_written [OF ok n jn]
  show ?thesis
  proof (cases "older c n")
    case True
    then show ?thesis
      using written by (simp add: load_or_recover_def scan replay best ens fmt Let_def)
  next
    case False
    then have "c = n" using c(2) by simp
    moreover have "synced cd st n" using c(1) jn n \<open>c = n\<close> by (auto simp: synced_def)
    ultimately show ?thesis
      using written False by (auto simp: load_or_recover_def scan replay best ens fmt Let_def)
  qed
qed

lemma load_or_recover_synced:
  assumes "codec_ok cd" "synced cd st m"
  shows "\<exists>report st'. load_or_recover cd st = Inr (m, report, st') \<and> synced cd st' m"
  using assms load_or_recover_newest [of cd m st] unfolding synced_def by blast

section \<open>Committing\<close>

text \<open>The metadata and the record that a transaction writes.\<close>

definition next_meta :: "codec \<Rightarrow> metadata \<Rightarrow> metadata \<Rightarrow> metadata" where
  "next_meta cd m meta =
     meta\<lparr>m_integrity := \<lparr>mi_generation = m_txid meta,
        mi_previous_meta_hash = mi_meta_hash (m_integrity m), mi_meta_hash = mhash cd meta\<rparr>\<rparr>"

definition tx_record ::
  "codec \<Rightarrow> bool \<Rightarrow> metadata \<Rightarrow> metadata \<Rightarrow> string \<Rightarrow> string \<Rightarrow> json \<Rightarrow> f64 \<Rightarrow> journal_record" where
  "tx_record cd checkpoint m n h action details now =
     (let r = \<lparr>jr_version = JOURNAL_VERSION, jr_record_type = (if checkpoint then Checkpoint else Transaction),
             jr_time = now, jr_volume_uuid = m_uuid n, jr_txid = m_txid n,
             jr_generation = mi_generation (m_integrity n), jr_action = action, jr_details = details,
             jr_previous_record_hash = h, jr_previous_meta_hash = mi_previous_meta_hash (m_integrity n),
             jr_meta_hash = mhash cd n, jr_metadata = (if checkpoint then Some n else None),
             jr_metadata_delta = (if checkpoint then None else Some (metadata_delta cd m n)),
             jr_record_hash = []\<rparr>
      in r\<lparr>jr_record_hash := rhash cd r\<rparr>)"

lemma canonical_hash_integrity [simp]:
  "canonical_metadata_hash cd (m\<lparr>m_integrity := i\<rparr>) = canonical_metadata_hash cd m"
  by (simp add: canonical_metadata_hash_def)

lemma prepare_next_meta:
  assumes "meta_exact cd (next_meta cd m meta)" "m_integrity meta = m_integrity m"
  shows "prepare_metadata_integrity cd meta (mi_meta_hash (m_integrity m)) = Inr (next_meta cd m meta)"
proof -
  have "canonical_metadata_hash cd meta = Inr (mhash cd meta)"
    using canonical_hash_exact [OF assms(1)] by (simp add: next_meta_def)
  then show ?thesis using assms(2) by (simp add: prepare_metadata_integrity_def next_meta_def)
qed

lemma transaction_record_eq:
  assumes "meta_exact cd n"
    and "record_exact cd (tx_record cd (should_write_checkpoint cd interval st (m_txid n)) m n h action details now)"
  shows "transaction_record cd interval st m n h action details now
    = Inr (tx_record cd (should_write_checkpoint cd interval st (m_txid n)) m n h action details now)"
proof -
  let ?c = "should_write_checkpoint cd interval st (m_txid n)"
  define r where "r = (tx_record cd ?c m n h action details now)\<lparr>jr_record_hash := []\<rparr>"
  have tx: "tx_record cd ?c m n h action details now = r\<lparr>jr_record_hash := rhash cd r\<rparr>"
    by (simp add: r_def tx_record_def Let_def)
  then have "record_hash cd r = Inr (rhash cd r)"
    using record_hash_exact [where r = r and h = "rhash cd r" and cd = cd] assms(2) by simp
  then show ?thesis
    using canonical_hash_exact [OF assms(1)] tx
    by (cases ?c) (simp_all add: transaction_record_def build_record_def r_def tx_record_def Let_def)
qed

lemma next_meta_fields:
  "m_txid (next_meta cd m meta) = m_txid meta" "m_format (next_meta cd m meta) = m_format meta"
  "mi_previous_meta_hash (m_integrity (next_meta cd m meta)) = mi_meta_hash (m_integrity m)"
  "mi_meta_hash (m_integrity (next_meta cd m meta)) = mhash cd (next_meta cd m meta)"
  "mi_generation (m_integrity (next_meta cd m meta)) = m_txid meta"
  by (simp_all add: next_meta_def)

lemma meta_sealed_next:
  "meta_exact cd (next_meta cd m meta) \<Longrightarrow> m_format meta = FORMAT_VERSION \<Longrightarrow> meta_sealed cd (next_meta cd m meta)"
  by (simp add: meta_sealed_def next_meta_fields)

lemma apply_metadata_delta_next:
  assumes "codec_ok cd" "meta_sealed cd m" "meta_sealed cd n"
  shows "apply_metadata_delta cd m (metadata_delta cd m n) = Inr n"
proof -
  have ex: "meta_exact cd m" "meta_exact cd n" using assms by (simp_all add: meta_sealed_def)
  have "apply_delta (cd_pointer_mut cd) (cd_meta_to_value cd m) (metadata_delta cd m n) = Inr (cd_meta_to_value cd n)"
    using apply_diff_at [of "cd_pointer_mut cd" "cd_meta_to_value cd m" "cd_meta_to_value cd m"
        "cd_meta_to_value cd n" "[]"] assms(1) ex
    by (simp add: metadata_delta_def codec_ok_def meta_exact_def)
  then show ?thesis
    using ex assms meta_sealed_hash [OF assms(1,3)] canonical_hash_exact [OF ex(2)]
    by (simp add: apply_metadata_delta_def ok_or_def validate_metadata_def meta_sealed_def meta_exact_def)
qed

lemma tx_record_sealed:
  assumes "record_exact cd (tx_record cd c m n h action details now)"
  shows "sealed_record cd (tx_record cd c m n h action details now) h"
  using assms by (simp add: sealed_record_def) (simp add: tx_record_def Let_def rhash_def)

lemma tx_record_yields:
  assumes ok: "codec_ok cd" and m: "meta_sealed cd m" and n: "meta_sealed cd n"
    and prev: "mi_previous_meta_hash (m_integrity n) = mi_meta_hash (m_integrity m)"
    and base: "c \<or> (latest = Some m \<and> \<not> failed)"
  shows "record_yields cd latest failed (tx_record cd c m n h action details now) n"
proof (cases c)
  case True
  then show ?thesis
    using n meta_sealed_hash [OF ok n] by (simp add: record_yields_def tx_record_def Let_def meta_sealed_def)
next
  case False
  have ex: "meta_exact cd n" using n by (simp add: meta_sealed_def)
  have "replay_delta cd m (tx_record cd c m n h action details now) (metadata_delta cd m n) = Some n"
    using False prev apply_metadata_delta_next [OF ok m n] canonical_hash_exact [OF ex]
      ensure_integrity_sealed [OF ok n]
    by (simp add: replay_delta_def tx_record_def Let_def)
  then show ?thesis
    using False base by (simp add: record_yields_def tx_record_def Let_def)
qed

lemma tx_record_txid [simp]: "jr_txid (tx_record cd c m n h action details now) = m_txid n"
  by (simp add: tx_record_def Let_def)

lemma tx_journal:
  assumes ok: "codec_ok cd" and m: "meta_sealed cd m" and n: "meta_sealed cd n"
    and prev: "mi_previous_meta_hash (m_integrity n) = mi_meta_hash (m_integrity m)"
    and ex: "record_exact cd (tx_record cd c m n h action details now)"
    and jn: "journal_at cd (ms_journal st) h m"
  shows "journal_at cd (ms_journal (append_record cd st (tx_record cd c m n h action details now)))
      (jr_record_hash (tx_record cd c m n h action details now)) n"
proof -
  have "record_yields cd (Some m) False (tx_record cd c m n h action details now) n"
    by (rule tx_record_yields [OF ok m n prev]) simp
  then show ?thesis
    by (rule journal_at_extend [OF ok tx_record_sealed [OF ex] tx_record_txid jn])
qed

section \<open>Compaction\<close>

lemma replay_step_chain:
  assumes "replay_step cd s raw = Inr s'"
  shows "fst s' = (case chain_record cd (fst s) raw of None \<Rightarrow> fst s | Some (_, r) \<Rightarrow> jr_record_hash r)"
  using assms unfolding replay_step_def
  by (auto simp: rbind_eq_Inr_iff split: prod.splits option.splits if_splits sum.splits)

lemma chain_records_snoc:
  assumes "codec_ok cd" "replay_run cd s xs = Inr s'" "trim l \<noteq> []"
  shows "valid_journal_chain_records cd (fst s) (xs @ [l]) = valid_journal_chain_records cd (fst s) xs
    @ (case chain_record cd (fst s') l of None \<Rightarrow> [] | Some (_, r) \<Rightarrow> [r])"
  using assms(2)
proof (induction xs arbitrary: s)
  case Nil
  then show ?case using assms(3) by (auto split: option.splits)
next
  case (Cons x xs)
  obtain s1 where s1: "replay_step cd s x = Inr s1" "replay_run cd s1 xs = Inr s'"
    using Cons.prems by (auto simp: rbind_eq_Inr_iff)
  note chain = replay_step_chain [OF s1(1)] and IH = Cons.IH [OF s1(2)]
  show ?case
  proof (cases "trim x = []")
    case True
    then have "chain_record cd (fst s) x = None" using assms(1) by (simp add: codec_ok_def chain_record_def)
    then show ?thesis using True chain IH by simp
  next
    case False
    then show ?thesis using chain IH by (auto split: option.splits)
  qed
qed

lemma rposition_snoc: "P x \<Longrightarrow> rposition P (xs @ [x]) = Some (length xs)"
  by (simp add: rposition_def)

text \<open>Right after a checkpoint was appended, compaction leaves that record alone in the journal.\<close>

lemma compact_after_checkpoint:
  assumes r_def: "\<And>h. r h = tx_record cd True m n h action details now"
    and ok: "codec_ok cd" and n: "meta_sealed cd n"
    and ex: "record_exact cd (r h)" "record_exact cd (r [])"
    and jn: "journal_at cd (ms_journal st) h m0"
    and st2: "ms_journal st2 = ms_journal (append_record cd st (r h))" "\<not> disabled"
  obtains f h' where "compact_journal cd disabled st2 = Inr (st2\<lparr>ms_journal := f\<rparr>)"
    "journal_at cd f h' n"
proof -
  obtain bs tt where f: "ms_journal st = Some bs" "from_utf8 bs = Some tt" "ends_line tt"
    and rp: "replay_run cd ([], None, False) (lines tt) = Inr (h, Some m0, False)"
    using jn unfolding journal_at_def by blast
  have sealed: "sealed_record cd (r h) h" "sealed_record cd (r []) []"
    using ex unfolding r_def by (simp_all add: tx_record_sealed)
  have l: "CHR 0x0A \<notin> set (cd_line cd (r h))" "last (cd_line cd (r h)) \<noteq> CHR 0x0D"
    "valid_utf8 (nat_bytes (cd_line cd (r h)))" "trim (cd_line cd (r h)) \<noteq> []"
    using ex(1) by (simp_all add: record_exact_def Let_def)
  have "from_utf8 ((bs @ str_bytes (cd_line cd (r h))) @ str_bytes [CHR 0x0A])
      = Some ((tt @ cd_line cd (r h)) @ [CHR 0x0A])"
    using l(3) by (intro from_utf8_append_str) (simp_all add: f nat_bytes_def)
  then have jt: "journal_text st2 = Some (tt @ cd_line cd (r h) @ [CHR 0x0A])"
    using st2(1) f by (simp add: journal_text_def append_record_def)
  obtain v where "chain_record cd h (cd_line cd (r h)) = Some (v, r h)"
    using sealed_chain_record [OF ok sealed(1)] by blast
  then have recs: "valid_journal_chain_records cd [] (lines (tt @ cd_line cd (r h) @ [CHR 0x0A]))
      = valid_journal_chain_records cd [] (lines tt) @ [r h]"
    using chain_records_snoc [OF ok rp l(4)] by (simp add: lines_append [OF f(3) l(1,2)])
  have cp: "jr_record_type (r h) = Checkpoint \<and> jr_metadata (r h) \<noteq> None"
    by (simp add: r_def tx_record_def Let_def)
  define r0 where "r0 = (r [])\<lparr>jr_record_hash := []\<rparr>"
  have r0: "(r h)\<lparr>jr_previous_record_hash := [], jr_record_hash := []\<rparr> = r0"
    "r [] = r0\<lparr>jr_record_hash := rhash cd r0\<rparr>"
    by (simp_all add: r0_def r_def tx_record_def Let_def)
  have "record_hash cd r0 = Inr (rhash cd r0)"
    using record_hash_exact [where r = r0 and h = "rhash cd r0" and cd = cd] ex(2) r0(2) by simp
  then have re: "rehash_records cd [] [r h] = Inr [r []]"
    using r0 by (simp add: Let_def)
  have "compact_journal cd disabled st2
      = Inr (st2\<lparr>ms_journal := Some (str_bytes (cd_line cd (r [])) @ str_bytes [CHR 0x0A])\<rparr>)"
    using st2(2) re cp by (simp add: compact_journal_def jt recs rposition_snoc)
  moreover have "journal_at cd (Some (str_bytes (cd_line cd (r [])) @ str_bytes [CHR 0x0A])) (jr_record_hash (r [])) n"
  proof (rule journal_single [OF ok sealed(2)])
    show "jr_txid (r []) = m_txid n" by (simp add: r_def)
    show "record_yields cd None False (r []) n"
      using n meta_sealed_hash [OF ok n]
      by (simp add: r_def record_yields_def tx_record_def Let_def meta_sealed_def)
  qed
  ultimately show thesis using that by blast
qed

section \<open>Transactions are atomic\<close>

text \<open>
  What a caller of \<open>append_transaction_checked\<close> passes: the metadata it opened, changed and with
  the next transaction number. serde reads back the new metadata and the record, whichever record
  it is chained to.
\<close>

definition tx_input :: "metadata \<Rightarrow> metadata \<Rightarrow> bool" where
  "tx_input m meta \<longleftrightarrow> m_integrity meta = m_integrity m \<and> m_txid m < m_txid meta \<and> m_format meta = FORMAT_VERSION"

definition journal_head :: "codec \<Rightarrow> meta_store \<Rightarrow> string" where
  "journal_head cd st = (case scan cd st of Inr report \<Rightarrow> tr_last_valid_record_hash report | Inl _ \<Rightarrow> [])"

definition tx_exact :: "codec \<Rightarrow> meta_store \<Rightarrow> metadata \<Rightarrow> metadata \<Rightarrow> string \<Rightarrow> json \<Rightarrow> f64 \<Rightarrow> bool" where
  "tx_exact cd st m meta action details now \<longleftrightarrow>
     meta_exact cd (next_meta cd m meta)
     \<and> (\<forall>c. \<forall>h \<in> {[], journal_head cd st}.
          record_exact cd (tx_record cd c m (next_meta cd m meta) h action details now))"

lemma older_next: "tx_input m meta \<Longrightarrow> older m (next_meta cd m meta)"
  by (simp add: tx_input_def order_less_def metadata_order_def next_meta_fields)

lemma synced_head:
  assumes "synced cd st m"
  obtains report where "scan cd st = Inr report" "tr_last_valid_record_hash report = journal_head cd st"
    "tr_last_valid_txid report \<le> m_txid m" "journal_at cd (ms_journal st) (journal_head cd st) m"
    "previous_metadata cd st report = Inr m"
proof -
  obtain h where h: "journal_at cd (ms_journal st) h m" and l: "latest_metadata_copy cd st = Some m"
    using assms by (auto simp: synced_def)
  obtain report where "scan cd st = Inr report" "tr_last_valid_record_hash report = h"
    "tr_last_valid_txid report \<le> m_txid m"
    using journal_at_readers(1) [OF h] by blast
  then show thesis
    using that h l by (simp add: journal_head_def previous_metadata_def)
qed

lemma copies_partly_written:
  assumes ok: "codec_ok cd" and n: "meta_sealed cd n" and l: "latest_metadata_copy cd st = Some m"
    and o: "older m n" and w: "write_metadata_copies_with_injection cd inject st1 n = (st2, res)"
    and st1: "ms_primary st1 = ms_primary st" "ms_secondary st1 = ms_secondary st" "ms_compat st1 = ms_compat st"
  shows "latest_metadata_copy cd st2 = Some n" "ms_journal st2 = ms_journal st1"
proof -
  note rc = read_candidate_sealed [OF ok n]
  show "latest_metadata_copy cd st2 = Some n"
  proof (rule latest_copy_newer [OF l o])
    show "copies cd st2 \<subseteq> insert n (copies cd st)" "n \<in> copies cd st2"
      using w st1 rc
      by (auto simp: write_metadata_copies_with_injection_def copies_def Let_def split: if_splits)
  qed
  show "ms_journal st2 = ms_journal st1"
    using w by (auto simp: write_metadata_copies_with_injection_def Let_def split: if_splits)
qed

lemma latest_copy_journal [simp]: "latest_metadata_copy cd (st\<lparr>ms_journal := f\<rparr>) = latest_metadata_copy cd st"
  by (simp add: latest_metadata_copy_def candidates_def metadata_files_def)

lemma latest_copy_append [simp]: "latest_metadata_copy cd (append_record cd st r) = latest_metadata_copy cd st"
  by (simp add: append_record_def)

text \<open>Where a transaction can end: nothing was written, or the record is in the journal. The error tells
  which, by the crash point it names.\<close>

definition written_points :: "string set" where
  "written_points = {''after-journal'', ''after-primary-metadata'', ''after-secondary-metadata'', ''after-compatible-metadata''}"

lemma copies_error:
  "write_metadata_copies_with_injection cd inject st meta = (st', Inl err) \<Longrightarrow> err \<in> InjectedCrash ` written_points"
  by (auto simp: write_metadata_copies_with_injection_def written_points_def Let_def split: if_splits)

text \<open>What a transaction does when it is not stopped before the journal.\<close>

lemma transaction_run:
  assumes ok: "codec_ok cd" and sy: "synced cd st m" and tx: "tx_input m meta" and ex: "tx_exact cd st m meta action details now"
    and go: "\<not> inject ''before-journal''" "\<not> (case expected of Some txid \<Rightarrow> m_txid m > txid | None \<Rightarrow> False)"
  shows "append_transaction_checked cd interval disabled inject now st meta expected action details =
    (let n = next_meta cd m meta; c = should_write_checkpoint cd interval st (m_txid n);
         st1 = append_record cd st (tx_record cd c m n (journal_head cd st) action details now)
     in if inject ''after-journal'' then (st1, n, Inl (InjectedCrash ''after-journal''))
        else case write_metadata_copies_with_injection cd inject st1 n of
               (st2, Inl err) \<Rightarrow> (st2, n, Inl err)
             | (st2, Inr _) \<Rightarrow> (if c then (case compact_journal cd disabled st2 of Inr st3 \<Rightarrow> st3 | Inl _ \<Rightarrow> st2) else st2, n, Inr ()))"
proof -
  let ?n = "next_meta cd m meta"
  obtain report where sc: "scan cd st = Inr report" "tr_last_valid_record_hash report = journal_head cd st"
    and prev: "previous_metadata cd st report = Inr m"
    using synced_head [OF sy] by blast
  have m: "meta_sealed cd m" using sy by (simp add: synced_def)
  have hash: "mi_meta_hash (m_integrity meta) = mi_meta_hash (m_integrity m)" "mi_meta_hash (m_integrity meta) \<noteq> []"
    using tx meta_sealed_hash [OF ok m] by (simp_all add: tx_input_def)
  have prep: "prepare_metadata_integrity cd meta (mi_meta_hash (m_integrity meta)) = Inr ?n"
    using prepare_next_meta ex tx hash(1) by (simp add: tx_exact_def tx_input_def)
  have rec: "transaction_record cd interval st m ?n (journal_head cd st) action details now
      = Inr (tx_record cd (should_write_checkpoint cd interval st (m_txid ?n)) m ?n (journal_head cd st) action details now)"
    by (rule transaction_record_eq) (use ex in \<open>simp_all add: tx_exact_def\<close>)
  show ?thesis
    using go hash(2) by (simp add: append_transaction_checked_def Let_def sc prev prep rec)
qed

lemma transaction_outcome:
  assumes n_def: "n = next_meta cd m meta" and ok: "codec_ok cd" and sy: "synced cd st m" and tx: "tx_input m meta"
    and ex: "tx_exact cd st m meta action details now"
    and run: "append_transaction_checked cd interval disabled inject now st meta expected action details = (st', mm, res)"
  shows "st' = st \<and> mm = meta \<and> (res = Inl Conflict \<or> res = Inl (InjectedCrash ''before-journal''))
    \<or> (\<exists>h. journal_at cd (ms_journal st') h n) \<and> mm = n
      \<and> (latest_metadata_copy cd st' = Some n \<or> latest_metadata_copy cd st' = Some m \<and> res \<noteq> Inr ())
      \<and> (\<forall>err. res = Inl err \<longrightarrow> err \<in> InjectedCrash ` written_points)"
proof -
  obtain report where sc: "scan cd st = Inr report" "tr_last_valid_record_hash report = journal_head cd st"
    and jn: "journal_at cd (ms_journal st) (journal_head cd st) m"
    and prev: "previous_metadata cd st report = Inr m"
    using synced_head [OF sy] by blast
  have m: "meta_sealed cd m" and lm: "latest_metadata_copy cd st = Some m"
    using sy by (simp_all add: synced_def)
  have n: "meta_sealed cd n"
    using ex tx by (simp add: n_def tx_exact_def tx_input_def meta_sealed_next)
  define c where "c = should_write_checkpoint cd interval st (m_txid n)"
  define r where "r = (\<lambda>h. tx_record cd c m n h action details now)"
  have rex: "record_exact cd (r (journal_head cd st))" "record_exact cd (r [])"
    using ex by (simp_all add: tx_exact_def n_def r_def)
  let ?st1 = "append_record cd st (r (journal_head cd st))"
  have j1: "journal_at cd (ms_journal ?st1) (jr_record_hash (r (journal_head cd st))) n"
    unfolding r_def
    by (rule tx_journal [OF ok m n _ _ jn]) (use rex in \<open>simp_all add: n_def next_meta_fields r_def\<close>)
  obtain st2 wres where w: "write_metadata_copies_with_injection cd inject ?st1 n = (st2, wres)"
    by (cases "write_metadata_copies_with_injection cd inject ?st1 n")
  note st2 = copies_partly_written [OF ok n lm older_next [OF tx, of cd, folded n_def] w]
  have comp: "(\<exists>h. journal_at cd (ms_journal st3) h n) \<and> latest_metadata_copy cd st3 = Some n"
    if "c" and "compact_journal cd disabled st2 = Inr st3" for st3
  proof (cases disabled)
    case True
    then show ?thesis using that st2 j1 by (auto simp: compact_journal_def)
  next
    case False
    have rT: "r h = tx_record cd True m n h action details now" for h using that(1) by (simp add: r_def)
    obtain f h' where "compact_journal cd disabled st2 = Inr (st2\<lparr>ms_journal := f\<rparr>)" "journal_at cd f h' n"
      using compact_after_checkpoint [OF rT ok n rex jn] st2(2) False by (metis append_record_simps)
    then show ?thesis using that st2 by auto
  qed
  show ?thesis
  proof (cases "inject ''before-journal'' \<or> (case expected of Some txid \<Rightarrow> m_txid m > txid | None \<Rightarrow> False)")
    case True
    then have "st' = st \<and> mm = meta \<and> (res = Inl Conflict \<or> res = Inl (InjectedCrash ''before-journal''))"
      using run sc prev by (auto simp: append_transaction_checked_def split: if_splits)
    then show ?thesis by blast
  next
    case False
    then have "append_transaction_checked cd interval disabled inject now st meta expected action details
      = (if inject ''after-journal'' then (?st1, n, Inl (InjectedCrash ''after-journal''))
        else case wres of Inl err \<Rightarrow> (st2, n, Inl err)
             | Inr _ \<Rightarrow> (if c then (case compact_journal cd disabled st2 of Inr st3 \<Rightarrow> st3 | Inl _ \<Rightarrow> st2)
                        else st2, n, Inr ()))"
      using w unfolding c_def r_def n_def
      by (cases wres) (simp_all add: transaction_run [OF ok sy tx ex] Let_def)
    note run' = this [unfolded run, symmetric]
    show ?thesis
      using run' j1 st2 lm comp copies_error [of cd inject ?st1 n] w
      by (auto simp: written_points_def split: if_splits sum.splits)
  qed
qed

lemma transaction_recovers:
  assumes ok: "codec_ok cd" and sy: "synced cd st m" and tx: "tx_input m meta"
    and ex: "tx_exact cd st m meta action details now"
    and run: "append_transaction_checked cd interval disabled inject now st meta expected action details = (st', mm, res)"
  obtains "st' = st" "res \<noteq> Inr ()" "res = Inl Conflict \<or> res = Inl (InjectedCrash ''before-journal'')"
    | "res = Inr ()" "mm = next_meta cd m meta" "synced cd st' mm"
    | report st'' point where "res \<noteq> Inr ()" "load_or_recover cd st' = Inr (next_meta cd m meta, report, st'')"
      "synced cd st'' (next_meta cd m meta)" "mm = next_meta cd m meta" "res = Inl (InjectedCrash point)" "point \<in> written_points"
proof -
  let ?n = "next_meta cd m meta"
  have n: "meta_sealed cd ?n"
    using ex tx by (simp add: tx_exact_def tx_input_def meta_sealed_next)
  consider (none) "st' = st" "res \<noteq> Inr ()" "res = Inl Conflict \<or> res = Inl (InjectedCrash ''before-journal'')"
    | (rec) h c where "journal_at cd (ms_journal st') h ?n" "mm = ?n" "latest_metadata_copy cd st' = Some c"
        "c = ?n \<or> c = m \<and> res \<noteq> Inr ()" "\<And>err. res = Inl err \<Longrightarrow> err \<in> InjectedCrash ` written_points"
    using transaction_outcome [OF refl ok sy tx ex run] by blast
  then show thesis
  proof cases
    case none
    then show thesis by (rule that(1))
  next
    case rec
    show thesis
    proof (cases "res = Inr ()")
      case True
      then have "synced cd st' mm" using rec n by (auto simp: synced_def)
      then show thesis using True rec that(2) by blast
    next
      case False
      obtain report st'' where "load_or_recover cd st' = Inr (?n, report, st'')" "synced cd st'' ?n"
        using load_or_recover_newest [OF ok n rec(1,3)] rec(4) older_next [OF tx] by blast
      moreover obtain point where "res = Inl (InjectedCrash point)" "point \<in> written_points"
        using False rec(5) by (cases res) auto
      ultimately show thesis using False that(3) rec(2) by blast
    qed
  qed
qed

text \<open>A transaction on the newest metadata that is not cut off succeeds.\<close>

lemma transaction_uncut:
  assumes "codec_ok cd" "synced cd st m" "tx_input m meta" "tx_exact cd st m meta action details now"
    and "append_transaction_checked cd interval disabled inject now st meta (Some (m_txid m)) action details = (st', mm, res)"
    and "\<And>point. \<not> inject point"
  shows "res = Inr ()"
  using assms(5,6) by (simp add: transaction_run [OF assms(1-4)] write_metadata_copies_with_injection_def Let_def)

lemma synced_event:
  assumes ok: "codec_ok cd" and sy: "synced cd st m"
    and r: "sealed_record cd r (journal_head cd st)" "jr_metadata r = None" "jr_metadata_delta r = None" "jr_txid r = m_txid m"
  shows "synced cd (append_record cd st r) m"
proof -
  have jn: "journal_at cd (ms_journal st) (journal_head cd st) m" using synced_head [OF sy] by blast
  obtain bs tt report where f: "ms_journal st = Some bs" "from_utf8 bs = Some tt" "ends_line tt"
    and sc: "scan_run cd ([], default_report) (lines tt) = Inr (journal_head cd st, report)"
    and rp: "replay_run cd ([], None, False) (lines tt) = Inr (journal_head cd st, Some m, False)"
    using jn unfolding journal_at_def by blast
  let ?l = "cd_line cd r"
  have l: "CHR 0x0A \<notin> set ?l" "last ?l \<noteq> CHR 0x0D" "valid_utf8 (nat_bytes ?l)"
    using r(1) by (simp_all add: sealed_record_def record_exact_def Let_def)
  note ls = lines_append [OF f(3) l(1,2)]
  have "from_utf8 ((bs @ str_bytes ?l) @ str_bytes [CHR 0x0A]) = Some ((tt @ ?l) @ [CHR 0x0A])"
    using l(3) by (intro from_utf8_append_str) (simp_all add: f nat_bytes_def)
  moreover obtain v where "metadata_member v = None" "chain_record cd (journal_head cd st) ?l = Some (v, r)"
    using sealed_chain_record [OF ok r(1)] r(2) by (metis option.map(1))
  then have "replay_step cd (journal_head cd st, Some m, False) ?l = Inr (jr_record_hash r, Some m, False)"
    using r(3) by (simp add: replay_step_def)
  moreover obtain report' where "scan_step cd (journal_head cd st, report) ?l = Inr (jr_record_hash r, report')"
    "tr_last_valid_txid report' = jr_txid r"
    using scan_step_sealed [OF ok r(1)] r(2) by auto
  ultimately have "journal_at cd (ms_journal (append_record cd st r)) (jr_record_hash r) m"
    unfolding journal_at_def using f ls sc rp r(4)
    by (simp add: append_record_def scan_run_append replay_run_append)
  then show ?thesis using sy by (auto simp: synced_def)
qed

text \<open>The metadata and the record that \<open>initialize_volume\<close> writes.\<close>

definition mkfs_meta :: "codec \<Rightarrow> metadata \<Rightarrow> metadata" where
  "mkfs_meta cd meta = meta\<lparr>m_integrity :=
     \<lparr>mi_generation = m_txid meta, mi_previous_meta_hash = [], mi_meta_hash = mhash cd meta\<rparr>\<rparr>"

definition mkfs_record :: "codec \<Rightarrow> metadata \<Rightarrow> f64 \<Rightarrow> journal_record" where
  "mkfs_record cd meta t = tx_record cd True (mkfs_meta cd meta) (mkfs_meta cd meta) [] ''mkfs''
     (JObject [(''txid'', JNumber (PosInt (m_txid meta)))]) t"

lemma initialize_synced:
  assumes ok: "codec_ok cd" and st: "ms_journal st = None" and fmt: "m_format meta = FORMAT_VERSION"
    and ex: "meta_exact cd (mkfs_meta cd meta)" "record_exact cd (mkfs_record cd meta t)"
  obtains st' where "initialize_volume cd st meta t = Inr (st', mkfs_meta cd meta)"
    "synced cd st' (mkfs_meta cd meta)"
proof -
  let ?n = "mkfs_meta cd meta" and ?r = "mkfs_record cd meta t"
  have n: "meta_sealed cd ?n" using ex fmt by (simp add: meta_sealed_def mkfs_meta_def)
  have ch: "canonical_metadata_hash cd meta = Inr (mhash cd meta)" "canonical_metadata_hash cd ?n = Inr (mhash cd meta)"
    using canonical_hash_exact [OF ex(1)] by (simp_all add: mkfs_meta_def)
  have prep: "prepare_metadata_integrity cd meta [] = Inr ?n"
    using ch by (simp add: prepare_metadata_integrity_def mkfs_meta_def)
  define r0 where "r0 = ?r\<lparr>jr_record_hash := []\<rparr>"
  have r0: "?r = r0\<lparr>jr_record_hash := rhash cd r0\<rparr>"
    by (simp add: r0_def mkfs_record_def tx_record_def Let_def)
  then have "record_hash cd r0 = Inr (rhash cd r0)"
    using record_hash_exact [where r = r0 and h = "rhash cd r0" and cd = cd] ex(2) by simp
  then have "build_record cd ?n Checkpoint ''mkfs'' (JObject [(''txid'', JNumber (PosInt (m_txid ?n)))]) []
      t (Some ?n) None = Inr ?r"
    using ch by (simp add: build_record_def Let_def r0)
      (simp add: r0_def mkfs_record_def tx_record_def Let_def mkfs_meta_def)
  then have run: "initialize_volume cd st meta t = Inr (write_metadata_copies cd (append_record cd st ?r) ?n, ?n)"
    using prep by (simp add: initialize_volume_def)
  have "journal_at cd (Some (str_bytes (cd_line cd ?r) @ str_bytes [CHR 0x0A])) (jr_record_hash ?r) ?n"
  proof (rule journal_single [OF ok])
    show "sealed_record cd ?r []"
      using tx_record_sealed ex(2) by (simp add: mkfs_record_def)
    show "jr_txid ?r = m_txid ?n" by (simp add: mkfs_record_def mkfs_meta_def)
    show "record_yields cd None False ?r ?n"
      using tx_record_yields [OF ok n n] n meta_sealed_hash [OF ok n]
      by (simp add: mkfs_record_def record_yields_def tx_record_def Let_def meta_sealed_def)
  qed
  then have "synced cd (write_metadata_copies cd (append_record cd st ?r) ?n) ?n"
    using st by (intro synced_written [OF ok n]) (simp add: append_record_def)
  then show thesis using run that by blast
qed

end
