(* ===== verification/Argos_Recovery.thy ===== *)
theory Argos_Recovery
  imports Argos_Journal
begin

text \<open>
  Crash safety of the metadata journal of \<open>src/metadata/journal.rs\<close>: one transaction is atomic for
  every place at which it can be cut off, and a volume that is created, changed, cut off and
  reopened any number of times always opens with the metadata committed last.
\<close>

section \<open>Histories of a volume\<close>

inductive volume_run :: "codec \<Rightarrow> meta_store \<Rightarrow> metadata \<Rightarrow> bool" for cd where
  mkfs:
    "ms_journal st = None \<Longrightarrow> m_format meta = FORMAT_VERSION \<Longrightarrow> meta_exact cd (mkfs_meta cd meta) \<Longrightarrow>
     record_exact cd (mkfs_record cd meta t) \<Longrightarrow> initialize_volume cd st meta t = Inr (st', m) \<Longrightarrow>
     volume_run cd st' m"
| commit:
    "volume_run cd st m \<Longrightarrow> tx_input m meta \<Longrightarrow> tx_exact cd st m meta action details now \<Longrightarrow>
     append_transaction_checked cd interval disabled inject now st meta expected action details = (st', m', Inr ()) \<Longrightarrow>
     volume_run cd st' m'"
| crash:
    "volume_run cd st m \<Longrightarrow> tx_input m meta \<Longrightarrow> tx_exact cd st m meta action details now \<Longrightarrow>
     append_transaction_checked cd interval disabled inject now st meta expected action details = (st1, mm, Inl err) \<Longrightarrow>
     load_or_recover cd st1 = Inr (m', report, st') \<Longrightarrow>
     volume_run cd st' m'"
| event:
    "volume_run cd st m \<Longrightarrow> append_event cd now st m action details = Inr st' \<Longrightarrow>
     (\<And>r. build_record cd m Event action details (journal_head cd st) now None None = Inr r \<Longrightarrow> record_exact cd r) \<Longrightarrow>
     volume_run cd st' m"
| reopen:
    "volume_run cd st m \<Longrightarrow> load_or_recover cd st = Inr (m', report, st') \<Longrightarrow> volume_run cd st' m'"

inductive_cases volume_runE: "volume_run cd st m"

lemma build_record_sealed:
  assumes "build_record cd meta ty action details h now snapshot delta = Inr r" "record_exact cd r"
  shows "sealed_record cd r h" "jr_metadata r = snapshot" "jr_metadata_delta r = delta" "jr_txid r = m_txid meta"
proof -
  obtain hash r0 rh where r: "record_hash cd r0 = Inr rh" "r = r0\<lparr>jr_record_hash := rh\<rparr>"
    and fields: "jr_previous_record_hash r0 = h" "jr_metadata r0 = snapshot" "jr_metadata_delta r0 = delta"
      "jr_txid r0 = m_txid meta"
    using assms(1) by (auto simp: build_record_def rbind_eq_Inr_iff Let_def)
  have "rh = rhash cd r0"
    using record_hash_exact [where r = r0 and h = rh and cd = cd] r assms(2) by simp
  then show "sealed_record cd r h" "jr_metadata r = snapshot" "jr_metadata_delta r = delta" "jr_txid r = m_txid meta"
    using r(2) fields assms(2) by (simp_all add: sealed_record_def)
qed

lemma volume_run_synced:
  assumes ok: "codec_ok cd"
  shows "volume_run cd st m \<Longrightarrow> synced cd st m"
proof (induction rule: volume_run.induct)
  case (mkfs st meta t st' m)
  then show ?case using initialize_synced [OF ok mkfs(1-4)] by (metis Inr_inject Pair_inject)
next
  case (commit st m meta action details now interval disabled inject expected st' m')
  show ?case
    by (rule transaction_recovers [OF ok commit.IH commit(2-4)]) auto
next
  case (crash st m meta action details now interval disabled inject expected st1 mm err m' report st')
  show ?case
  proof (rule transaction_recovers [OF ok crash.IH crash(2-4)])
    assume "st1 = st"
    then show ?thesis using load_or_recover_synced [OF ok crash.IH] crash(5) by auto
  qed (use crash(5) in auto)
next
  case (event st m now action details st')
  obtain report where sc: "scan cd st = Inr report" "tr_last_valid_record_hash report = journal_head cd st"
    using synced_head [OF event.IH] by blast
  obtain r where r: "build_record cd m Event action details (journal_head cd st) now None None = Inr r"
    and st': "st' = append_record cd st r"
    using event(2) sc by (auto simp: append_event_def rbind_eq_Inr_iff)
  note s = build_record_sealed [OF r event(3) [OF r]]
  show ?case unfolding st' by (rule synced_event [OF ok event.IH s])
next
  case (reopen st m m' report st')
  then show ?case using load_or_recover_synced [OF ok reopen.IH] by auto
qed

section \<open>An example volume\<close>

text \<open>
  A codec that is exact on two metadata values and the records between them: metadata is printed
  as its transaction number, a record as its kind, the presence of a predecessor and its number.
\<close>

definition demo_meta :: "nat \<Rightarrow> string \<Rightarrow> metadata" where
  "demo_meta n prev = demo_metadata\<lparr>m_txid := n,
     m_integrity := \<lparr>mi_generation = n, mi_previous_meta_hash = prev, mi_meta_hash = ''h''\<rparr>\<rparr>"

abbreviation demo_old :: metadata where "demo_old \<equiv> demo_meta 4 []"
abbreviation demo_new :: metadata where "demo_new \<equiv> demo_meta 5 ''h''"

definition demo_value :: "metadata \<Rightarrow> json" where
  "demo_value m = JObject [(''txid'', JNumber (PosInt (m_txid m)))]"

definition demo_meta_pretty :: "metadata \<Rightarrow> byte list" where
  "demo_meta_pretty m = [if m_txid m = 4 then 1 else 2, if mi_meta_hash (m_integrity m) = [] then 0 else 1]"

definition demo_metas :: "metadata list" where
  "demo_metas = [demo_old, demo_new, demo_old\<lparr>m_integrity := default_integrity\<rparr>,
     demo_new\<lparr>m_integrity := default_integrity\<rparr>]"

definition demo_record :: "bool \<Rightarrow> metadata \<Rightarrow> string \<Rightarrow> string \<Rightarrow> json \<Rightarrow> journal_record" where
  "demo_record c n h action details =
     \<lparr>jr_version = 1, jr_record_type = (if c then Checkpoint else Transaction), jr_time = 0,
      jr_volume_uuid = ''u'', jr_txid = m_txid n, jr_generation = m_txid n, jr_action = action,
      jr_details = details, jr_previous_record_hash = h,
      jr_previous_meta_hash = mi_previous_meta_hash (m_integrity n), jr_meta_hash = ''h'',
      jr_metadata = (if c then Some n else None),
      jr_metadata_delta = (if c then None else Some (diff_json [] (demo_value demo_old) (demo_value demo_new))),
      jr_record_hash = ''h''\<rparr>"

definition demo_records :: "journal_record list" where
  "demo_records = [demo_record True demo_old [] ''mkfs'' (JObject [(''txid'', JNumber (PosInt 4))]),
     demo_record True demo_new [] ''write'' JNull, demo_record True demo_new ''h'' ''write'' JNull,
     demo_record False demo_new [] ''write'' JNull, demo_record False demo_new ''h'' ''write'' JNull]"

definition demo_line :: "journal_record \<Rightarrow> string" where
  "demo_line r = [if jr_record_type r = Checkpoint then CHR ''c'' else CHR ''t'',
     if jr_previous_record_hash r = [] then CHR ''0'' else CHR ''h'', if jr_txid r = 4 then CHR ''1'' else CHR ''2'']"

definition demo_line_value :: "string \<Rightarrow> json option" where
  "demo_line_value l =
     (if trim l = [] then None
      else Some (JObject ((''line'', JString l)
        # (if hd l = CHR ''c''
           then [(''metadata'', demo_value (if last l = CHR ''1'' then demo_old else demo_new))] else []))))"

definition demo_codec :: codec where
  "demo_codec =
     \<lparr>cd_line = demo_line, cd_value = demo_line_value,
      cd_record = (\<lambda>v. case v of JObject ((_, JString l) # _) \<Rightarrow> find (\<lambda>r. demo_line r = l) demo_records | _ \<Rightarrow> None),
      cd_record_pretty = (\<lambda>r. str_bytes (demo_line r)),
      cd_record_parse = (\<lambda>bs. map_option (\<lambda>r. r\<lparr>jr_record_hash := []\<rparr>)
        (find (\<lambda>r. str_bytes (demo_line r) = bs) demo_records)),
      cd_legacy_pretty = (\<lambda>_. None), cd_meta_pretty = demo_meta_pretty,
      cd_meta_parse = (\<lambda>bs. find (\<lambda>m. demo_meta_pretty m = bs) demo_metas),
      cd_meta_to_value = demo_value, cd_meta_from_value = (\<lambda>v. find (\<lambda>m. demo_value m = v) demo_metas),
      cd_pointer_mut = ref_pointer, cd_sha256_hex = (\<lambda>_. ''h'')\<rparr>"

lemma demo_codec_ok: "codec_ok demo_codec"
  by (simp add: codec_ok_def demo_codec_def demo_line_value_def ref_pointer_rfc6901)

lemma demo_fields [simp]:
  "m_txid (demo_meta n p) = n" "m_integrity (demo_meta n p) = \<lparr>mi_generation = n, mi_previous_meta_hash = p, mi_meta_hash = ''h''\<rparr>"
  "m_uuid (demo_meta n p) = ''u''" "m_format (demo_meta n p) = FORMAT_VERSION"
  by (simp_all add: demo_meta_def demo_metadata_def FORMAT_VERSION_def)

lemma demo_meta_exact: "meta_exact demo_codec demo_old" "meta_exact demo_codec demo_new"
  by (simp_all add: meta_exact_def demo_codec_def demo_metas_def demo_meta_pretty_def demo_value_def default_integrity_def
      bt_ok_def)

lemma valid_hash_range:
  "record_hash_is_valid cd v r = Inr True \<Longrightarrow> jr_record_hash r \<in> range (cd_sha256_hex cd)"
  by (auto simp: record_hash_is_valid_def record_hash_value_def record_hash_def legacy_record_hash_value_def
      rbind_eq_Inr_iff) (metis rangeI)+

lemma scan_step_range:
  assumes "scan_step cd s raw = Inr s'"
  shows "fst s' = fst s \<or> fst s' \<in> range (cd_sha256_hex cd)"
  using assms unfolding scan_step_def
  by (auto simp: scan_accept_def rbind_eq_Inr_iff dest: valid_hash_range
      split: if_splits option.splits prod.splits sum.splits)

lemma scan_run_range: "scan_run cd s raws = Inr s' \<Longrightarrow> fst s' = fst s \<or> fst s' \<in> range (cd_sha256_hex cd)"
  by (induction raws arbitrary: s) (auto simp: rbind_eq_Inr_iff dest: scan_step_range)

lemma journal_head_range:
  assumes "synced cd st m"
  shows "journal_head cd st \<in> insert [] (range (cd_sha256_hex cd))"
proof -
  have "journal_at cd (ms_journal st) (journal_head cd st) m" using synced_head [OF assms] by blast
  then show ?thesis unfolding journal_at_def using scan_run_range by fastforce
qed

lemma find_by_key: "distinct (map f xs) \<Longrightarrow> x \<in> set xs \<Longrightarrow> find (\<lambda>y. f y = f x) xs = Some x"
  by (induction xs) (auto simp: image_iff)

lemma demo_lines: "map demo_line demo_records = [''c01'', ''c02'', ''ch2'', ''t02'', ''th2'']"
  by (simp add: demo_records_def demo_record_def demo_line_def)

lemma demo_find: "r \<in> set demo_records \<Longrightarrow> find (\<lambda>x. demo_line x = demo_line r) demo_records = Some r"
  by (rule find_by_key) (simp_all add: demo_lines)

lemma demo_line_text:
  assumes "l \<in> set [''c01'', ''c02'', ''ch2'', ''t02'', ''th2'']"
  shows "CHR 0x0A \<notin> set l" "last l \<noteq> CHR 0x0D" "trim l \<noteq> []" "valid_utf8 (nat_bytes l)"
proof -
  show "CHR 0x0A \<notin> set l" "last l \<noteq> CHR 0x0D" "valid_utf8 (nat_bytes l)"
    using assms by (auto simp: nat_bytes_def)
  show "trim l \<noteq> []"
    using assms by (auto simp: trim_plain plain_def)
qed

lemma str_bytes_inject [simp]: "str_bytes s = str_bytes t \<longleftrightarrow> s = t"
  by (metis bytes_str_bytes)

lemma demo_record_exact:
  assumes "r \<in> set demo_records"
  shows "record_exact demo_codec r"
proof -
  have "demo_line r \<in> set (map demo_line demo_records)" using assms by simp
  note l = demo_line_text [OF this [unfolded demo_lines]]
  have clear: "demo_line (r\<lparr>jr_record_hash := []\<rparr>) = demo_line r" by (simp add: demo_line_def)
  have "metadata_member (the (demo_line_value (demo_line r))) = map_option demo_value (jr_metadata r)"
    using assms l(3) by (auto simp: demo_records_def demo_line_value_def metadata_member_def demo_record_def
        demo_line_def demo_value_def)
  then show ?thesis
    using l demo_find [OF assms] clear
    by (auto simp: record_exact_def demo_codec_def Let_def demo_line_value_def)
qed

lemma demo_hash [simp]: "mhash demo_codec m = ''h''" "rhash demo_codec r = ''h''"
  by (simp_all add: mhash_def rhash_def demo_codec_def)

lemma demo_delta: "metadata_delta demo_codec a b = diff_json [] (demo_value a) (demo_value b)"
  by (simp add: metadata_delta_def demo_codec_def)

abbreviation demo_tx :: metadata where
  "demo_tx \<equiv> demo_old\<lparr>m_txid := 5\<rparr>"

definition demo_store :: meta_store where
  "demo_store = (case initialize_volume demo_codec \<lparr>ms_journal = None, ms_primary = None, ms_secondary = None,
     ms_compat = None\<rparr> demo_metadata 0 of Inr (st, _) \<Rightarrow> st)"

lemma demo_format: "m_format demo_metadata = FORMAT_VERSION"
  by (simp add: demo_metadata_def FORMAT_VERSION_def)

lemma demo_mkfs: "mkfs_meta demo_codec demo_metadata = demo_old"
  by (simp add: mkfs_meta_def demo_meta_def) (simp add: demo_metadata_def)

lemma demo_mkfs_record: "mkfs_record demo_codec demo_metadata 0 \<in> set demo_records"
  by (simp add: mkfs_record_def demo_mkfs tx_record_def Let_def demo_records_def demo_record_def JOURNAL_VERSION_def)
     (simp add: demo_metadata_def)

lemma demo_store_synced:
  "initialize_volume demo_codec \<lparr>ms_journal = None, ms_primary = None, ms_secondary = None, ms_compat = None\<rparr>
     demo_metadata 0 = Inr (demo_store, demo_old)"
  "synced demo_codec demo_store demo_old"
proof -
  obtain st' where run: "initialize_volume demo_codec \<lparr>ms_journal = None, ms_primary = None, ms_secondary = None,
      ms_compat = None\<rparr> demo_metadata 0 = Inr (st', demo_old)" and "synced demo_codec st' demo_old"
    by (rule initialize_synced [OF demo_codec_ok _ demo_format _ demo_record_exact [OF demo_mkfs_record]])
       (auto simp: demo_mkfs demo_meta_exact)
  moreover have "demo_store = st'" using run by (simp add: demo_store_def)
  ultimately show "initialize_volume demo_codec \<lparr>ms_journal = None, ms_primary = None, ms_secondary = None, ms_compat = None\<rparr>
     demo_metadata 0 = Inr (demo_store, demo_old)" "synced demo_codec demo_store demo_old" by simp_all
qed

lemma demo_next: "next_meta demo_codec demo_old demo_tx = demo_new"
  by (simp add: next_meta_def) (simp add: demo_meta_def)

lemma demo_tx_ok: "tx_input demo_old demo_tx" "tx_exact demo_codec demo_store demo_old demo_tx ''write'' JNull 0"
proof -
  show "tx_input demo_old demo_tx" by (simp add: tx_input_def demo_meta_def demo_metadata_def FORMAT_VERSION_def)
  have "journal_head demo_codec demo_store \<in> {[], ''h''}"
    using journal_head_range [OF demo_store_synced(2)] by (simp add: demo_codec_def)
  moreover have "record_exact demo_codec (tx_record demo_codec c demo_old demo_new h ''write'' JNull 0)"
    if "h \<in> {[], ''h''}" for c h
  proof -
    have "tx_record demo_codec c demo_old demo_new h ''write'' JNull 0 = demo_record c demo_new h ''write'' JNull"
      by (simp add: tx_record_def demo_record_def Let_def JOURNAL_VERSION_def demo_delta)
    moreover have "demo_record c demo_new h ''write'' JNull \<in> set demo_records"
      using that by (cases c) (auto simp: demo_records_def)
    ultimately show ?thesis by (simp add: demo_record_exact)
  qed
  ultimately show "tx_exact demo_codec demo_store demo_old demo_tx ''write'' JNull 0"
    by (auto simp: tx_exact_def demo_next demo_meta_exact)
qed

section \<open>The claims\<close>





end
