(* ===== verification/Argos_Pages.thy ===== *)
theory Argos_Pages
  imports Argos_Types Argos_Text
begin

text \<open>
  \<open>src/metadata/store.rs\<close>: the metadata document cut into hashed pages (a header, one page per
  disk and per inode, and pages of directory entries, extended attributes and file blocks), the
  way back, and page deltas. The hash of a page is SHA-256 of serde's encoding of its body; both
  are fields of the parameter \<open>pc\<close>.
\<close>

section \<open>Data\<close>

record paged_metadata_options =
  po_directory_entries_per_page :: nat
  po_xattrs_per_page :: nat
  po_file_blocks_per_page :: nat

definition default_paged_options :: paged_metadata_options where
  "default_paged_options =
     \<lparr>po_directory_entries_per_page = 128, po_xattrs_per_page = 64, po_file_blocks_per_page = 32\<rparr>"

definition validate_options :: "paged_metadata_options \<Rightarrow> unit result" where
  "validate_options options =
     (if po_directory_entries_per_page options = 0 then Inl Invalid
      else if po_xattrs_per_page options = 0 then Inl Invalid
      else if po_file_blocks_per_page options = 0 then Inl Invalid
      else Inr ())"

datatype metadata_page_kind = KHeader | KDisk | KInode | KDirectory | KXattr | KShardIndex

datatype metadata_page_key = PageKey (pk_kind: metadata_page_kind) (pk_owner: string) (pk_page: nat)

text \<open>The derived \<open>Ord\<close>: constructors in declaration order, then fields in declaration order.\<close>

fun kind_rank :: "metadata_page_kind \<Rightarrow> nat" where
  "kind_rank KHeader = 0"
| "kind_rank KDisk = 1"
| "kind_rank KInode = 2"
| "kind_rank KDirectory = 3"
| "kind_rank KXattr = 4"
| "kind_rank KShardIndex = 5"

lemma kind_rank_inject [simp]: "kind_rank a = kind_rank b \<longleftrightarrow> a = b"
  by (cases a; cases b) simp_all

instantiation metadata_page_kind :: linorder
begin

definition less_eq_metadata_page_kind :: "metadata_page_kind \<Rightarrow> metadata_page_kind \<Rightarrow> bool" where
  "less_eq_metadata_page_kind a b \<longleftrightarrow> kind_rank a \<le> kind_rank b"

definition less_metadata_page_kind :: "metadata_page_kind \<Rightarrow> metadata_page_kind \<Rightarrow> bool" where
  "less_metadata_page_kind a b \<longleftrightarrow> kind_rank a < kind_rank b"

instance
  by standard (auto simp: less_eq_metadata_page_kind_def less_metadata_page_kind_def)

end

instantiation metadata_page_key :: linorder
begin

definition less_metadata_page_key :: "metadata_page_key \<Rightarrow> metadata_page_key \<Rightarrow> bool" where
  "less_metadata_page_key a b \<longleftrightarrow>
     pk_kind a < pk_kind b
     \<or> pk_kind a = pk_kind b \<and> (pk_owner a < pk_owner b
        \<or> pk_owner a = pk_owner b \<and> pk_page a < pk_page b)"

definition less_eq_metadata_page_key :: "metadata_page_key \<Rightarrow> metadata_page_key \<Rightarrow> bool" where
  "less_eq_metadata_page_key a b \<longleftrightarrow> a < b \<or> a = b"

instance
proof
  fix x y z :: metadata_page_key
  show "(x < y) = (x \<le> y \<and> \<not> y \<le> x)"
    by (auto simp: less_eq_metadata_page_key_def less_metadata_page_key_def)
  show "x \<le> x" by (simp add: less_eq_metadata_page_key_def)
  show "x \<le> y \<Longrightarrow> y \<le> z \<Longrightarrow> x \<le> z"
    by (auto simp: less_eq_metadata_page_key_def less_metadata_page_key_def)
  show "x \<le> y \<Longrightarrow> y \<le> x \<Longrightarrow> x = y"
    by (auto simp: less_eq_metadata_page_key_def less_metadata_page_key_def)
  show "x \<le> y \<or> y \<le> x"
    by (cases x; cases y)
       (use less_linear in \<open>auto simp: less_eq_metadata_page_key_def less_metadata_page_key_def\<close>)
qed

end

definition header_key :: metadata_page_key where
  "header_key = PageKey KHeader [] 0"

definition disk_key :: "string \<Rightarrow> metadata_page_key" where
  "disk_key disk_id = PageKey KDisk disk_id 0"

definition inode_key :: "inode_id \<Rightarrow> metadata_page_key" where
  "inode_key ino = PageKey KInode (dec ino) 0"

definition directory_key :: "inode_id \<Rightarrow> nat \<Rightarrow> metadata_page_key" where
  "directory_key ino page = PageKey KDirectory (dec ino) page"

definition xattr_key :: "inode_id \<Rightarrow> nat \<Rightarrow> metadata_page_key" where
  "xattr_key ino page = PageKey KXattr (dec ino) page"

definition shard_index_key :: "inode_id \<Rightarrow> nat \<Rightarrow> metadata_page_key" where
  "shard_index_key ino page = PageKey KShardIndex (dec ino) page"

record metadata_header_page =
  hp_format :: string
  hp_uuid :: string
  hp_backend :: backend_kind
  hp_raw_pool :: raw_pool_metadata
  hp_created_at :: f64
  hp_updated_at :: f64
  hp_txid :: nat
  hp_next_inode :: inode_id
  hp_next_stripe :: nat
  hp_config :: volume_config
  hp_layouts :: "(string, layout_config) btree"
  hp_current_write_layout :: string
  hp_reshape :: "reshape_state option"
  hp_encryption :: encryption_config
  hp_integrity :: metadata_integrity

definition header_of :: "metadata \<Rightarrow> metadata_header_page" where
  "header_of meta =
     \<lparr>hp_format = m_format meta, hp_uuid = m_uuid meta, hp_backend = m_backend meta,
      hp_raw_pool = m_raw_pool meta, hp_created_at = m_created_at meta, hp_updated_at = m_updated_at meta,
      hp_txid = m_txid meta, hp_next_inode = m_next_inode meta, hp_next_stripe = m_next_stripe meta,
      hp_config = m_config meta, hp_layouts = m_layouts meta,
      hp_current_write_layout = m_current_write_layout meta, hp_reshape = m_reshape meta,
      hp_encryption = m_encryption meta, hp_integrity = m_integrity meta\<rparr>"

record inode_core_page =
  ic_id :: inode_id
  ic_kind :: node_kind
  ic_mode :: "32 word"
  ic_uid :: "32 word"
  ic_gid :: "32 word"
  ic_nlink :: "32 word"
  ic_size :: nat
  ic_rdev :: nat
  ic_atime :: f64
  ic_mtime :: f64
  ic_ctime :: f64
  ic_target :: "string option"
  ic_inline_data :: "8 word list option"
  ic_inline_sha256 :: string
  ic_quota_bytes :: "nat option"
  ic_posix_acl_access :: "posix_acl option"
  ic_posix_acl_default :: "posix_acl option"
  ic_nfs4_acl :: "nfs4_acl option"
  ic_access_count :: nat
  ic_write_count :: nat
  ic_read_bytes :: nat
  ic_write_bytes :: nat
  ic_storage_class :: storage_tier
  ic_boot_critical :: bool
  ic_workload_score :: f64
  ic_last_accessed_at :: f64
  ic_last_written_at :: f64

definition core_of :: "inode \<Rightarrow> inode_core_page" where
  "core_of inode =
     \<lparr>ic_id = i_id inode, ic_kind = i_kind inode, ic_mode = i_mode inode, ic_uid = i_uid inode,
      ic_gid = i_gid inode, ic_nlink = i_nlink inode, ic_size = i_size inode, ic_rdev = i_rdev inode,
      ic_atime = i_atime inode, ic_mtime = i_mtime inode, ic_ctime = i_ctime inode,
      ic_target = i_target inode, ic_inline_data = i_inline_data inode,
      ic_inline_sha256 = i_inline_sha256 inode, ic_quota_bytes = i_quota_bytes inode,
      ic_posix_acl_access = i_posix_acl_access inode, ic_posix_acl_default = i_posix_acl_default inode,
      ic_nfs4_acl = i_nfs4_acl inode, ic_access_count = i_access_count inode,
      ic_write_count = i_write_count inode, ic_read_bytes = i_read_bytes inode,
      ic_write_bytes = i_write_bytes inode, ic_storage_class = i_storage_class inode,
      ic_boot_critical = i_boot_critical inode, ic_workload_score = i_workload_score inode,
      ic_last_accessed_at = i_last_accessed_at inode, ic_last_written_at = i_last_written_at inode\<rparr>"

definition into_inode ::
  "inode_core_page \<Rightarrow> (string, inode_id) btree \<Rightarrow> (string, string) btree \<Rightarrow> file_block list \<Rightarrow> inode" where
  "into_inode core entries xattrs blocks =
     \<lparr>i_id = ic_id core, i_kind = ic_kind core, i_mode = ic_mode core, i_uid = ic_uid core,
      i_gid = ic_gid core, i_nlink = ic_nlink core, i_size = ic_size core, i_rdev = ic_rdev core,
      i_atime = ic_atime core, i_mtime = ic_mtime core, i_ctime = ic_ctime core, i_entries = entries,
      i_target = ic_target core, i_inline_data = ic_inline_data core,
      i_inline_sha256 = ic_inline_sha256 core, i_blocks = blocks, i_xattrs = xattrs,
      i_quota_bytes = ic_quota_bytes core, i_posix_acl_access = ic_posix_acl_access core,
      i_posix_acl_default = ic_posix_acl_default core, i_nfs4_acl = ic_nfs4_acl core,
      i_access_count = ic_access_count core, i_write_count = ic_write_count core,
      i_read_bytes = ic_read_bytes core, i_write_bytes = ic_write_bytes core,
      i_storage_class = ic_storage_class core, i_boot_critical = ic_boot_critical core,
      i_workload_score = ic_workload_score core, i_last_accessed_at = ic_last_accessed_at core,
      i_last_written_at = ic_last_written_at core\<rparr>"

record directory_page =
  dp_inode :: inode_id
  dp_first_name :: "string option"
  dp_entries :: "(string \<times> inode_id) list"

record xattr_page =
  xp_inode :: inode_id
  xp_first_name :: "string option"
  xp_xattrs :: "(string \<times> string) list"

record shard_index_page =
  sp_inode :: inode_id
  sp_first_block :: nat
  sp_blocks :: "file_block list"

datatype metadata_page_body =
    BHeader metadata_header_page
  | BDisk disk
  | BInode inode_core_page
  | BDirectory directory_page
  | BXattr xattr_page
  | BShardIndex shard_index_page

record metadata_page =
  mp_key :: metadata_page_key
  mp_txid :: nat
  mp_body_hash :: string
  mp_body :: metadata_page_body

record paged_metadata =
  pm_version :: nat
  pm_options :: paged_metadata_options
  pm_pages :: "(metadata_page_key, metadata_page) btree"

record page_codec =
  pc_to_vec :: "metadata_page_body \<Rightarrow> 8 word list"  \<comment> \<open>\<open>serde_json::to_vec\<close>\<close>
  pc_sha256_hex :: "8 word list \<Rightarrow> string"

definition PAGED_METADATA_VERSION :: nat where "PAGED_METADATA_VERSION = 1"

section \<open>Pages\<close>

definition hash_page_body :: "page_codec \<Rightarrow> metadata_page_body \<Rightarrow> string" where
  "hash_page_body pc body = pc_sha256_hex pc (pc_to_vec pc body)"

definition validate_page_key :: "metadata_page_key \<Rightarrow> metadata_page_body \<Rightarrow> unit result" where
  "validate_page_key key body =
     (let expected = (case body of
            BHeader _ \<Rightarrow> header_key
          | BDisk disk \<Rightarrow> disk_key (d_id disk)
          | BInode core \<Rightarrow> inode_key (ic_id core)
          | BDirectory directory \<Rightarrow> directory_key (dp_inode directory) (pk_page key)
          | BXattr xattr \<Rightarrow> xattr_key (xp_inode xattr) (pk_page key)
          | BShardIndex shard_index \<Rightarrow> shard_index_key (sp_inode shard_index) (pk_page key))
      in if key \<noteq> expected then Inl CorruptedMetadata else Inr ())"

definition page_new :: "page_codec \<Rightarrow> metadata_page_key \<Rightarrow> nat \<Rightarrow> metadata_page_body \<Rightarrow> metadata_page result" where
  "page_new pc key txid body =
     rbind (validate_page_key key body) (\<lambda>_.
       Inr \<lparr>mp_key = key, mp_txid = txid, mp_body_hash = hash_page_body pc body, mp_body = body\<rparr>)"

definition verify_hash :: "page_codec \<Rightarrow> metadata_page \<Rightarrow> unit result" where
  "verify_hash pc page =
     (if hash_page_body pc (mp_body page) \<noteq> mp_body_hash page then Inl CorruptedMetadata else Inr ())"

definition put_page :: "page_codec \<Rightarrow> metadata_page \<Rightarrow> paged_metadata \<Rightarrow> paged_metadata result" where
  "put_page pc page store =
     rbind (verify_hash pc page) (\<lambda>_.
     rbind (validate_page_key (mp_key page) (mp_body page)) (\<lambda>_.
       Inr (store\<lparr>pm_pages := bt_insert (mp_key page) page (pm_pages store)\<rparr>)))"

section \<open>From a document to pages\<close>

definition chunked_pairs :: "'a list \<Rightarrow> nat \<Rightarrow> 'a list list" where
  "chunked_pairs items page_size = chunks page_size items"

definition directory_pages :: "paged_metadata_options \<Rightarrow> inode \<Rightarrow> (metadata_page_key \<times> metadata_page_body) list" where
  "directory_pages options inode =
     map (\<lambda>(page, chunk). (directory_key (i_id inode) page,
          BDirectory \<lparr>dp_inode = i_id inode, dp_first_name = map_option fst (first_opt chunk), dp_entries = chunk\<rparr>))
       (enumerate 0 (chunked_pairs (i_entries inode) (po_directory_entries_per_page options)))"

definition xattr_pages :: "paged_metadata_options \<Rightarrow> inode \<Rightarrow> (metadata_page_key \<times> metadata_page_body) list" where
  "xattr_pages options inode =
     map (\<lambda>(page, chunk). (xattr_key (i_id inode) page,
          BXattr \<lparr>xp_inode = i_id inode, xp_first_name = map_option fst (first_opt chunk), xp_xattrs = chunk\<rparr>))
       (enumerate 0 (chunked_pairs (i_xattrs inode) (po_xattrs_per_page options)))"

definition shard_index_pages :: "paged_metadata_options \<Rightarrow> inode \<Rightarrow> (metadata_page_key \<times> metadata_page_body) list" where
  "shard_index_pages options inode =
     map (\<lambda>(page, chunk). (shard_index_key (i_id inode) page,
          BShardIndex \<lparr>sp_inode = i_id inode, sp_first_block = page * po_file_blocks_per_page options,
                       sp_blocks = chunk\<rparr>))
       (enumerate 0 (chunks (po_file_blocks_per_page options) (i_blocks inode)))"

definition inode_pages :: "paged_metadata_options \<Rightarrow> inode \<Rightarrow> (metadata_page_key \<times> metadata_page_body) list" where
  "inode_pages options inode =
     (inode_key (i_id inode), BInode (core_of inode)) # directory_pages options inode
       @ xattr_pages options inode @ shard_index_pages options inode"

definition metadata_pages :: "paged_metadata_options \<Rightarrow> metadata \<Rightarrow> (metadata_page_key \<times> metadata_page_body) list" where
  "metadata_pages options meta =
     (header_key, BHeader (header_of meta))
       # map (\<lambda>disk. (disk_key (d_id disk), BDisk disk)) (bt_values (m_disks meta))
       @ concat (map (inode_pages options) (bt_values (m_inodes meta)))"

fun put_pages ::
  "page_codec \<Rightarrow> nat \<Rightarrow> (metadata_page_key \<times> metadata_page_body) list \<Rightarrow> paged_metadata \<Rightarrow> paged_metadata result" where
  "put_pages pc txid [] store = Inr store"
| "put_pages pc txid ((key, body) # rest) store =
     rbind (page_new pc key txid body) (\<lambda>page.
     rbind (put_page pc page store) (put_pages pc txid rest))"

definition from_metadata_with_options ::
  "page_codec \<Rightarrow> metadata \<Rightarrow> paged_metadata_options \<Rightarrow> paged_metadata result" where
  "from_metadata_with_options pc meta options =
     rbind (validate_options options) (\<lambda>_.
       put_pages pc (m_txid meta) (metadata_pages options meta)
         \<lparr>pm_version = PAGED_METADATA_VERSION, pm_options = options, pm_pages = []\<rparr>)"

definition from_metadata :: "page_codec \<Rightarrow> metadata \<Rightarrow> paged_metadata result" where
  "from_metadata pc meta = from_metadata_with_options pc meta default_paged_options"

section \<open>From pages to a document\<close>

record collected =
  co_disks :: "(string, disk) btree"
  co_cores :: "(inode_id, inode_core_page) btree"
  co_entries :: "(inode_id, (string, inode_id) btree) btree"
  co_xattrs :: "(inode_id, (string, string) btree) btree"
  co_blocks :: "(inode_id, file_block list) btree"
  co_seen :: "metadata_page_key list"

definition collected_empty :: collected where
  "collected_empty =
     \<lparr>co_disks = [], co_cores = [], co_entries = [], co_xattrs = [], co_blocks = [], co_seen = []\<rparr>"

definition collect_body :: "metadata_page_body \<Rightarrow> collected \<Rightarrow> collected" where
  "collect_body body c =
     (case body of
        BHeader _ \<Rightarrow> c
      | BDisk disk \<Rightarrow> c\<lparr>co_disks := bt_insert (d_id disk) disk (co_disks c)\<rparr>
      | BInode core \<Rightarrow> c\<lparr>co_cores := bt_insert (ic_id core) core (co_cores c)\<rparr>
      | BDirectory directory \<Rightarrow>
          c\<lparr>co_entries := entry_or_default (dp_inode directory) (insert_all (dp_entries directory)) (co_entries c)\<rparr>
      | BXattr xattr \<Rightarrow>
          c\<lparr>co_xattrs := entry_or_default (xp_inode xattr) (insert_all (xp_xattrs xattr)) (co_xattrs c)\<rparr>
      | BShardIndex shard_index \<Rightarrow>
          c\<lparr>co_blocks := entry_or_default (sp_inode shard_index) (\<lambda>bs. bs @ sp_blocks shard_index) (co_blocks c)\<rparr>)"

fun collect_pages :: "metadata_page list \<Rightarrow> collected \<Rightarrow> collected result" where
  "collect_pages [] c = Inr c"
| "collect_pages (page # rest) c =
     rbind (validate_page_key (mp_key page) (mp_body page)) (\<lambda>_.
       if mp_key page \<in> set (co_seen c) then Inl CorruptedMetadata
       else collect_pages rest
              (collect_body (mp_body page) (c\<lparr>co_seen := bs_insert (mp_key page) (co_seen c)\<rparr>)))"

text \<open>\<open>map.remove(key).unwrap_or_default()\<close>: the value and the map without it\<close>

definition remove_or_default :: "('k, 'v list) btree \<Rightarrow> 'k \<Rightarrow> 'v list" where
  "remove_or_default m k = (case map_of m k of Some v \<Rightarrow> v | None \<Rightarrow> [])"

fun assemble_inodes ::
  "(inode_id, inode_core_page) btree \<Rightarrow> (inode_id, inode) btree \<Rightarrow> collected \<Rightarrow> (inode_id, inode) btree \<times> collected" where
  "assemble_inodes [] inodes c = (inodes, c)"
| "assemble_inodes ((ino, core) # rest) inodes c =
     assemble_inodes rest
       (bt_insert ino (into_inode core (remove_or_default (co_entries c) ino)
          (remove_or_default (co_xattrs c) ino) (remove_or_default (co_blocks c) ino)) inodes)
       (c\<lparr>co_entries := bt_remove ino (co_entries c), co_xattrs := bt_remove ino (co_xattrs c),
          co_blocks := bt_remove ino (co_blocks c)\<rparr>)"

fun verify_pages :: "page_codec \<Rightarrow> metadata_page list \<Rightarrow> unit result" where
  "verify_pages pc [] = Inr ()"
| "verify_pages pc (page # rest) = rbind (verify_hash pc page) (\<lambda>_. verify_pages pc rest)"

definition find_header :: "paged_metadata \<Rightarrow> metadata_header_page result" where
  "find_header store =
     (case map_of (pm_pages store) header_key of
        None \<Rightarrow> Inl CorruptedMetadata
      | Some page \<Rightarrow> (case mp_body page of BHeader header \<Rightarrow> Inr header | _ \<Rightarrow> Inl CorruptedMetadata))"

definition metadata_of :: "metadata_header_page \<Rightarrow> (string, disk) btree \<Rightarrow> (inode_id, inode) btree \<Rightarrow> metadata" where
  "metadata_of header disks inodes =
     \<lparr>m_format = hp_format header, m_uuid = hp_uuid header, m_backend = hp_backend header,
      m_raw_pool = hp_raw_pool header, m_created_at = hp_created_at header, m_updated_at = hp_updated_at header,
      m_txid = hp_txid header, m_next_inode = hp_next_inode header, m_next_stripe = hp_next_stripe header,
      m_config = hp_config header, m_layouts = hp_layouts header,
      m_current_write_layout = hp_current_write_layout header, m_reshape = hp_reshape header,
      m_encryption = hp_encryption header, m_integrity = hp_integrity header, m_disks = disks,
      m_inodes = inodes\<rparr>"

definition to_metadata :: "page_codec \<Rightarrow> paged_metadata \<Rightarrow> metadata result" where
  "to_metadata pc store =
     (if pm_version store \<noteq> PAGED_METADATA_VERSION then Inl Invalid
      else rbind (validate_options (pm_options store)) (\<lambda>_.
           rbind (verify_pages pc (bt_values (pm_pages store))) (\<lambda>_.
           rbind (find_header store) (\<lambda>header.
           rbind (collect_pages (bt_values (pm_pages store)) collected_empty) (\<lambda>c.
             let (inodes, rest) = assemble_inodes (co_cores c) [] c
             in if co_entries rest \<noteq> [] then Inl CorruptedMetadata
                else if co_xattrs rest \<noteq> [] then Inl CorruptedMetadata
                else if co_blocks rest \<noteq> [] then Inl CorruptedMetadata
                else Inr (metadata_of header (co_disks c) inodes))))))"

section \<open>Page deltas\<close>

datatype metadata_page_delta_op = Put metadata_page | Delete metadata_page_key

definition metadata_page_delta :: "paged_metadata \<Rightarrow> paged_metadata \<Rightarrow> metadata_page_delta_op list" where
  "metadata_page_delta previous nxt =
     map Delete (filter (\<lambda>key. \<not> bt_contains key (pm_pages nxt)) (bt_keys (pm_pages previous)))
     @ map (\<lambda>(key, page). Put page)
         (filter (\<lambda>(key, page). case map_of (pm_pages previous) key of
                    None \<Rightarrow> True
                  | Some previous_page \<Rightarrow> mp_body_hash previous_page \<noteq> mp_body_hash page) (pm_pages nxt))"

fun apply_page_delta :: "page_codec \<Rightarrow> metadata_page_delta_op list \<Rightarrow> paged_metadata \<Rightarrow> paged_metadata result" where
  "apply_page_delta pc [] store = Inr store"
| "apply_page_delta pc (op # rest) store =
     (case op of
        Put page \<Rightarrow> rbind (put_page pc page store) (apply_page_delta pc rest)
      | Delete key \<Rightarrow> apply_page_delta pc rest (store\<lparr>pm_pages := bt_remove key (pm_pages store)\<rparr>))"

definition import_metadata :: "page_codec \<Rightarrow> paged_metadata \<Rightarrow> metadata \<Rightarrow> paged_metadata result" where
  "import_metadata pc store metadata = from_metadata_with_options pc metadata (pm_options store)"

section \<open>Collecting\<close>

fun sel_disk :: "metadata_page_body \<Rightarrow> (string \<times> disk) option" where
  "sel_disk (BDisk d) = Some (d_id d, d)"
| "sel_disk _ = None"

fun sel_core :: "metadata_page_body \<Rightarrow> (inode_id \<times> inode_core_page) option" where
  "sel_core (BInode c) = Some (ic_id c, c)"
| "sel_core _ = None"

fun sel_entries :: "metadata_page_body \<Rightarrow> (inode_id \<times> (string \<times> inode_id) list) option" where
  "sel_entries (BDirectory d) = Some (dp_inode d, dp_entries d)"
| "sel_entries _ = None"

fun sel_xattrs :: "metadata_page_body \<Rightarrow> (inode_id \<times> (string \<times> string) list) option" where
  "sel_xattrs (BXattr x) = Some (xp_inode x, xp_xattrs x)"
| "sel_xattrs _ = None"

fun sel_blocks :: "metadata_page_body \<Rightarrow> (inode_id \<times> file_block list) option" where
  "sel_blocks (BShardIndex x) = Some (sp_inode x, sp_blocks x)"
| "sel_blocks _ = None"

abbreviation (input) disks_of :: "metadata_page_body list \<Rightarrow> (string \<times> disk) list" where
  "disks_of \<equiv> List.map_filter sel_disk"

abbreviation (input) cores_of :: "metadata_page_body list \<Rightarrow> (inode_id \<times> inode_core_page) list" where
  "cores_of \<equiv> List.map_filter sel_core"

abbreviation (input) entries_of :: "metadata_page_body list \<Rightarrow> (inode_id \<times> (string \<times> inode_id) list) list" where
  "entries_of \<equiv> List.map_filter sel_entries"

abbreviation (input) xattrs_of :: "metadata_page_body list \<Rightarrow> (inode_id \<times> (string \<times> string) list) list" where
  "xattrs_of \<equiv> List.map_filter sel_xattrs"

abbreviation (input) blocks_of :: "metadata_page_body list \<Rightarrow> (inode_id \<times> file_block list) list" where
  "blocks_of \<equiv> List.map_filter sel_blocks"

text \<open>Grouping: the values of one key are combined in the order they come in.\<close>

definition group_all :: "('x list \<Rightarrow> 'v list \<Rightarrow> 'v list) \<Rightarrow> ('k::linorder \<times> 'x list) list \<Rightarrow> ('k, 'v list) btree \<Rightarrow> ('k, 'v list) btree" where
  "group_all f gs m = fold (\<lambda>(k, xs). entry_or_default k (f xs)) gs m"

definition group_of :: "('k \<times> 'x) list \<Rightarrow> 'k \<Rightarrow> 'x list" where
  "group_of gs k = map snd (filter (\<lambda>g. fst g = k) gs)"

lemma bt_ok_group_all: "bt_ok m \<Longrightarrow> bt_ok (group_all f gs m)"
  by (induction gs arbitrary: m) (auto simp: group_all_def)

lemma map_of_group_all:
  "map_of (group_all f gs m) k =
     (if group_of gs k = [] then map_of m k
      else Some (fold f (group_of gs k) (remove_or_default m k)))"
proof (induction gs arbitrary: m)
  case (Cons g gs)
  obtain k' xs where g: "g = (k', xs)" by (cases g)
  have "map_of (group_all f (g # gs) m) k = map_of (group_all f gs (entry_or_default k' (f xs) m)) k"
    by (simp add: group_all_def g)
  then show ?case
    unfolding Cons by (auto simp: g group_of_def remove_or_default_def bt_get_entry_or_default)
qed (simp add: group_all_def group_of_def)

lemma group_all_default:
  "remove_or_default (group_all f gs []) k = fold f (group_of gs k) []"
  by (simp add: remove_or_default_def map_of_group_all)

lemma group_all_keys: "fst ` set (group_all f gs []) = fst ` set gs"
proof -
  have "k \<in> fst ` set (group_all f gs []) \<longleftrightarrow> group_of gs k \<noteq> []" for k
    using map_of_group_all [of f gs "[]" k] map_of_eq_None_iff [of "group_all f gs []" k] by auto
  moreover have "group_of gs k \<noteq> [] \<longleftrightarrow> k \<in> fst ` set gs" for k
    by (auto simp: group_of_def filter_empty_conv)
  ultimately show ?thesis by blast
qed

lemma fold_insert_all: "fold insert_all xss m = insert_all (concat xss) m"
  by (induction xss arbitrary: m) (auto simp: insert_all_append)

lemma fold_append: "fold (\<lambda>xs acc. acc @ xs) xss acc = acc @ concat xss"
  by (induction xss arbitrary: acc) auto

abbreviation append_blocks :: "file_block list \<Rightarrow> file_block list \<Rightarrow> file_block list" where
  "append_blocks xs acc \<equiv> acc @ xs"

definition collect_all :: "metadata_page_body list \<Rightarrow> collected \<Rightarrow> collected" where
  "collect_all bodies c =
     c\<lparr>co_disks := insert_all (disks_of bodies) (co_disks c),
       co_cores := insert_all (cores_of bodies) (co_cores c),
       co_entries := group_all insert_all (entries_of bodies) (co_entries c),
       co_xattrs := group_all insert_all (xattrs_of bodies) (co_xattrs c),
       co_blocks := group_all append_blocks (blocks_of bodies) (co_blocks c)\<rparr>"

lemma collect_all_Cons: "collect_all (b # bs) c = collect_all bs (collect_body b c)"
  by (cases b) (simp_all add: collect_all_def collect_body_def map_filter_simps group_all_def)

lemma collect_body_seen: "collect_body b (c\<lparr>co_seen := s\<rparr>) = (collect_body b c)\<lparr>co_seen := s\<rparr>"
  "co_seen (collect_body b c) = co_seen c"
  by (cases b; simp add: collect_body_def)+

lemma collect_all_seen: "collect_all bs (c\<lparr>co_seen := s\<rparr>) = (collect_all bs c)\<lparr>co_seen := s\<rparr>"
  by (simp add: collect_all_def)

lemma collect_pages_eq:
  assumes "\<forall>p \<in> set ps. validate_page_key (mp_key p) (mp_body p) = Inr ()"
    and "distinct (map mp_key ps)" "set (map mp_key ps) \<inter> set (co_seen c) = {}"
  shows "\<exists>s. collect_pages ps c = Inr ((collect_all (map mp_body ps) c)\<lparr>co_seen := s\<rparr>)"
  using assms
proof (induction ps arbitrary: c)
  case Nil
  have "c = (collect_all [] c)\<lparr>co_seen := co_seen c\<rparr>"
    by (simp add: collect_all_def map_filter_simps group_all_def)
  then show ?case by auto
next
  case (Cons p ps)
  let ?c = "collect_body (mp_body p) (c\<lparr>co_seen := bs_insert (mp_key p) (co_seen c)\<rparr>)"
  have "\<exists>s. collect_pages ps ?c = Inr ((collect_all (map mp_body ps) ?c)\<lparr>co_seen := s\<rparr>)"
    using Cons.prems by (intro Cons.IH) (auto simp: collect_body_seen)
  then show ?case
    using Cons.prems by (simp add: collect_all_Cons collect_body_seen collect_all_seen)
qed

lemma remove_or_default_remove: "i \<noteq> j \<Longrightarrow> remove_or_default (bt_remove i m) j = remove_or_default m j"
  by (simp add: remove_or_default_def)

lemma assemble_inodes_eq:
  assumes "distinct (map fst cores)"
  shows "assemble_inodes cores inodes c =
    (insert_all (map (\<lambda>(i, core). (i, into_inode core (remove_or_default (co_entries c) i)
         (remove_or_default (co_xattrs c) i) (remove_or_default (co_blocks c) i))) cores) inodes,
     c\<lparr>co_entries := filter (\<lambda>(k, _). k \<notin> fst ` set cores) (co_entries c),
       co_xattrs := filter (\<lambda>(k, _). k \<notin> fst ` set cores) (co_xattrs c),
       co_blocks := filter (\<lambda>(k, _). k \<notin> fst ` set cores) (co_blocks c)\<rparr>)"
  using assms
proof (induction cores arbitrary: inodes c)
  case Nil
  have "filter (\<lambda>(k, _). True) m = m" for m :: "('a \<times> 'b) list" by (induction m) auto
  then show ?case by simp
next
  case (Cons x cores)
  obtain i core where x: "x = (i, core)" by (cases x)
  have ne: "\<And>j core. (j, core) \<in> set cores \<Longrightarrow> i \<noteq> j" using Cons.prems by (force simp: x)
  have f: "filter (\<lambda>(k, _). k \<notin> fst ` set cores) (bt_remove i m)
      = filter (\<lambda>(k, _). k \<notin> insert i (fst ` set cores)) m" for m :: "(nat \<times> 'b) list"
    by (auto simp: bt_remove_def filter_filter intro!: filter_cong)
  have m: "map (\<lambda>(j, core). (j, into_inode core (remove_or_default (bt_remove i (co_entries c)) j)
        (remove_or_default (bt_remove i (co_xattrs c)) j) (remove_or_default (bt_remove i (co_blocks c)) j))) cores
    = map (\<lambda>(j, core). (j, into_inode core (remove_or_default (co_entries c) j)
        (remove_or_default (co_xattrs c) j) (remove_or_default (co_blocks c) j))) cores"
    using ne by (auto simp: remove_or_default_remove)
  show ?case
    using Cons.prems by (simp add: x Cons.IH m f)
qed

section \<open>What the pages of a document hold\<close>

text \<open>Maps are sorted, and disks and inodes are filed under their own id.\<close>

definition document_ok :: "metadata \<Rightarrow> bool" where
  "document_ok meta \<longleftrightarrow>
     bt_ok (m_disks meta) \<and> (\<forall>(k, d) \<in> set (m_disks meta). d_id d = k)
     \<and> bt_ok (m_inodes meta) \<and> (\<forall>(k, n) \<in> set (m_inodes meta). i_id n = k \<and> bt_ok (i_entries n) \<and> bt_ok (i_xattrs n))"

definition page_of :: "page_codec \<Rightarrow> nat \<Rightarrow> metadata_page_key \<times> metadata_page_body \<Rightarrow> metadata_page_key \<times> metadata_page" where
  "page_of pc txid kb =
     (fst kb, \<lparr>mp_key = fst kb, mp_txid = txid, mp_body_hash = hash_page_body pc (snd kb), mp_body = snd kb\<rparr>)"

lemma put_pages_eq:
  assumes "\<forall>(k, b) \<in> set pl. validate_page_key k b = Inr ()"
  shows "put_pages pc txid pl store
    = Inr (store\<lparr>pm_pages := insert_all (map (page_of pc txid) pl) (pm_pages store)\<rparr>)"
  using assms
proof (induction pl arbitrary: store)
  case (Cons x pl)
  obtain k b where x: "x = (k, b)" by (cases x)
  have v: "validate_page_key k b = Inr ()" using Cons.prems by (simp add: x)
  show ?case
    using Cons by (simp add: x v page_new_def put_page_def verify_hash_def page_of_def)
qed simp

lemmas page_key_defs = header_key_def disk_key_def inode_key_def directory_key_def xattr_key_def shard_index_key_def

lemmas page_list_defs = metadata_pages_def inode_pages_def directory_pages_def xattr_pages_def shard_index_pages_def

lemma metadata_pages_valid: "\<forall>(k, b) \<in> set (metadata_pages options meta). validate_page_key k b = Inr ()"
  by (auto simp: page_list_defs validate_page_key_def page_key_defs core_of_def)

lemma dec_inject [simp]: "dec a = dec b \<longleftrightarrow> a = b"
  by (metis parse_uint_dec [of a "max a b"] parse_uint_dec [of b "max a b"] max.cobounded1 max.cobounded2 option.inject)

lemma distinct_enumerate_key:
  assumes "inj f"
  shows "distinct (map (\<lambda>(page, chunk). f page) (enumerate n xs))"
  using assms by (induction xs arbitrary: n) (auto simp: in_set_enumerate_eq inj_eq)

lemma map_fst_pages:
  "map fst (directory_pages options n) = map (\<lambda>(page, chunk). directory_key (i_id n) page)
     (enumerate 0 (chunks (po_directory_entries_per_page options) (i_entries n)))"
  "map fst (xattr_pages options n) = map (\<lambda>(page, chunk). xattr_key (i_id n) page)
     (enumerate 0 (chunks (po_xattrs_per_page options) (i_xattrs n)))"
  "map fst (shard_index_pages options n) = map (\<lambda>(page, chunk). shard_index_key (i_id n) page)
     (enumerate 0 (chunks (po_file_blocks_per_page options) (i_blocks n)))"
  by (simp_all add: directory_pages_def xattr_pages_def shard_index_pages_def chunked_pairs_def case_prod_beta o_def)

lemma page_list_keys:
  "fst ` set (directory_pages options n) \<subseteq> range (directory_key (i_id n))"
  "fst ` set (xattr_pages options n) \<subseteq> range (xattr_key (i_id n))"
  "fst ` set (shard_index_pages options n) \<subseteq> range (shard_index_key (i_id n))"
  by (auto simp: directory_pages_def xattr_pages_def shard_index_pages_def)

lemma disjoint_subsets: "A \<subseteq> A' \<Longrightarrow> B \<subseteq> B' \<Longrightarrow> A' \<inter> B' = {} \<Longrightarrow> A \<inter> B = {}"
  by blast

lemma inode_pages_keys:
  "distinct (map fst (inode_pages options n))"
  "k \<in> fst ` set (inode_pages options n) \<Longrightarrow> pk_owner k = dec (i_id n) \<and> pk_kind k \<notin> {KHeader, KDisk}"
proof -
  have d: "distinct (map fst (directory_pages options n))" "distinct (map fst (xattr_pages options n))"
    "distinct (map fst (shard_index_pages options n))"
    unfolding map_fst_pages by (intro distinct_enumerate_key; simp add: page_key_defs inj_def)+
  note sub = page_list_keys [of options n]
  have "inode_key (i_id n) \<notin> fst ` set (directory_pages options n)" "inode_key (i_id n) \<notin> fst ` set (xattr_pages options n)"
    "inode_key (i_id n) \<notin> fst ` set (shard_index_pages options n)"
    using sub by (simp_all add: directory_pages_def xattr_pages_def shard_index_pages_def page_key_defs image_iff
        case_prod_beta)
  moreover have "fst ` set (directory_pages options n) \<inter> fst ` set (xattr_pages options n) = {}"
    by (rule disjoint_subsets [OF sub(1,2)]) (auto simp: page_key_defs)
  moreover have "fst ` set (directory_pages options n) \<inter> fst ` set (shard_index_pages options n) = {}"
    by (rule disjoint_subsets [OF sub(1,3)]) (auto simp: page_key_defs)
  moreover have "fst ` set (xattr_pages options n) \<inter> fst ` set (shard_index_pages options n) = {}"
    by (rule disjoint_subsets [OF sub(2,3)]) (auto simp: page_key_defs)
  ultimately show "distinct (map fst (inode_pages options n))"
    using d by (simp add: inode_pages_def Int_Un_distrib)
  assume "k \<in> fst ` set (inode_pages options n)"
  then consider "k = inode_key (i_id n)" | "k \<in> fst ` set (directory_pages options n)"
    | "k \<in> fst ` set (xattr_pages options n)" | "k \<in> fst ` set (shard_index_pages options n)"
    by (simp add: inode_pages_def image_Un) blast
  then show "pk_owner k = dec (i_id n) \<and> pk_kind k \<notin> {KHeader, KDisk}"
  proof cases
    case 2
    then show ?thesis by - (drule subsetD [OF sub(1)], auto simp: page_key_defs)
  next
    case 3
    then show ?thesis by - (drule subsetD [OF sub(2)], auto simp: page_key_defs)
  next
    case 4
    then show ?thesis by - (drule subsetD [OF sub(3)], auto simp: page_key_defs)
  qed (simp add: inode_key_def)
qed

lemma distinct_concat_owner:
  assumes "\<And>x. x \<in> set xs \<Longrightarrow> distinct (f x)" "\<And>x k. x \<in> set xs \<Longrightarrow> k \<in> set (f x) \<Longrightarrow> g k = h x"
    and "distinct (map h xs)"
  shows "distinct (concat (map f xs))"
  using assms
proof (induction xs)
  case (Cons x xs)
  have "set (f x) \<inter> set (concat (map f xs)) = {}"
  proof (rule ccontr)
    assume "\<not> ?thesis"
    then obtain k y where "k \<in> set (f x)" "y \<in> set xs" "k \<in> set (f y)" by auto
    then have "h x = h y" using Cons.prems(2) by (metis list.set_intros)
    then show False using Cons.prems(3) \<open>y \<in> set xs\<close> by auto
  qed
  then show ?case using Cons by auto
qed simp

lemma metadata_pages_distinct:
  assumes "document_ok meta"
  shows "distinct (map fst (metadata_pages options meta))"
proof -
  have ids: "map d_id (bt_values (m_disks meta)) = bt_keys (m_disks meta)"
    "map i_id (bt_values (m_inodes meta)) = bt_keys (m_inodes meta)"
    using assms by (auto simp: document_ok_def)
  have dd: "distinct (map d_id (bt_values (m_disks meta)))" "distinct (map i_id (bt_values (m_inodes meta)))"
    unfolding ids using assms by (auto simp: document_ok_def intro: bt_ok_distinct)
  let ?inodes = "concat (map (\<lambda>n. map fst (inode_pages options n)) (bt_values (m_inodes meta)))"
  have "distinct ?inodes"
    using inode_pages_keys dd(2)
    by (intro distinct_concat_owner [where g = pk_owner and h = "\<lambda>n. dec (i_id n)"])
       (auto simp: distinct_map inj_on_def)
  moreover have "map fst (metadata_pages options meta)
      = header_key # map (\<lambda>d. disk_key (d_id d)) (bt_values (m_disks meta)) @ ?inodes"
    by (simp add: metadata_pages_def map_concat o_def)
  moreover have "distinct (map (\<lambda>d. disk_key (d_id d)) (bt_values (m_disks meta)))"
    using dd(1) by (auto simp: distinct_map inj_on_def disk_key_def)
  moreover have "\<forall>k \<in> set ?inodes. pk_kind k \<notin> {KHeader, KDisk}"
    using inode_pages_keys(2) by fastforce
  ultimately show ?thesis by (fastforce simp: header_key_def disk_key_def)
qed

text \<open>Selecting the pages of one kind and inode from the sorted store gives them in the order they
  were cut.\<close>

lemma bt_set_ext: "bt_ok a \<Longrightarrow> bt_ok b \<Longrightarrow> set a = set b \<Longrightarrow> a = b"
  by (metis insert_all_eq)

lemma set_insert_all_distinct:
  assumes "distinct (map fst xs)"
  shows "set (insert_all xs []) = set xs"
proof -
  have "bt_ok (insert_all xs [])" by simp
  then have "(k, v) \<in> set (insert_all xs []) \<longleftrightarrow> map_of (rev xs) k = Some v" for k v
    by (simp add: bt_get_in_set [symmetric] bt_get_insert_all)
  moreover have "map_of (rev xs) k = Some v \<longleftrightarrow> (k, v) \<in> set xs" for k v
    using assms by (subst map_of_eq_Some_iff) (simp_all add: rev_map [symmetric])
  ultimately show ?thesis by auto
qed

lemma group_of_map_filter:
  "group_of (List.map_filter sel (map f m)) i = map (\<lambda>x. snd (the (sel (f x)))) (filter (\<lambda>x. \<exists>xs. sel (f x) = Some (i, xs)) m)"
  by (induction m) (auto simp: group_of_def map_filter_simps split: option.splits)

definition picks :: "('b \<Rightarrow> ('k \<times> 'x) option) \<Rightarrow> 'k \<Rightarrow> 'a \<times> 'b \<Rightarrow> bool" where
  "picks sel i x \<longleftrightarrow> (\<exists>xs. sel (snd x) = Some (i, xs))"

lemma group_of_sorted:
  assumes "distinct (map fst pl)" "filter (picks sel i) pl = sub" "bt_ok sub"
  shows "group_of (List.map_filter sel (map (\<lambda>x. mp_body (snd x)) (insert_all (map (page_of pc txid) pl) []))) i
    = map (\<lambda>x. snd (the (sel (snd x)))) sub"
proof -
  let ?m = "insert_all (map (page_of pc txid) pl) []"
  let ?q = "filter (\<lambda>x. \<exists>xs. sel (mp_body (snd x)) = Some (i, xs)) ?m"
  have keys: "map fst (map (page_of pc txid) xs) = map fst xs" for xs by (simp add: page_of_def o_def)
  have set: "set ?m = page_of pc txid ` set pl"
    using assms(1) keys [of pl] by (simp only: set_insert_all_distinct list.set_map)
  have "?q = map (page_of pc txid) sub"
  proof (rule bt_set_ext)
    show "bt_ok ?q" by (simp add: bt_ok_filter)
    show "bt_ok (map (page_of pc txid) sub)" using assms(3) unfolding bt_ok_def keys .
    show "set ?q = set (map (page_of pc txid) sub)"
      unfolding assms(2) [symmetric] by (auto simp: set page_of_def picks_def)
  qed
  then show ?thesis by (simp add: group_of_map_filter page_of_def o_def)
qed

lemma concat_map_unique:
  assumes "x \<in> set xs" "distinct (map h xs)"
  shows "concat (map (\<lambda>y. if h y = h x then f y else []) xs) = f x"
  using assms
proof (induction xs)
  case (Cons y ys)
  show ?case
  proof (cases "y = x")
    case True
    then have "\<forall>z \<in> set ys. h z \<noteq> h x" using Cons.prems(2) by (auto simp: image_iff)
    then have "concat (map (\<lambda>y. if h y = h x then f y else []) ys) = []" by simp
    then show ?thesis using True by simp
  next
    case False
    then have "x \<in> set ys" using Cons.prems(1) by simp
    moreover have "h y \<noteq> h x" using Cons.prems(2) \<open>x \<in> set ys\<close> by auto
    ultimately show ?thesis using Cons by simp
  qed
qed simp

lemma filter_inode_pages:
  "filter (picks sel_entries i) (inode_pages options n) = (if i_id n = i then directory_pages options n else [])"
  "filter (picks sel_xattrs i) (inode_pages options n) = (if i_id n = i then xattr_pages options n else [])"
  "filter (picks sel_blocks i) (inode_pages options n) = (if i_id n = i then shard_index_pages options n else [])"
  by (simp_all add: inode_pages_def directory_pages_def xattr_pages_def shard_index_pages_def filter_map o_def
      case_prod_beta picks_def)

lemma filter_metadata_pages:
  assumes "n \<in> set (bt_values (m_inodes meta))" "document_ok meta"
    and rest: "\<And>k d. \<not> P (k, BDisk d)" "\<And>k d. \<not> P (k, BHeader d)"
    and inode: "\<And>n'. filter P (inode_pages options n') = (if i_id n' = i_id n then f n' else [])"
  shows "filter P (metadata_pages options meta) = f n"
proof -
  have ids: "map i_id (bt_values (m_inodes meta)) = bt_keys (m_inodes meta)"
    using assms(2) by (auto simp: document_ok_def)
  have dist: "distinct (map i_id (bt_values (m_inodes meta)))"
    unfolding ids using assms(2) by (simp add: document_ok_def bt_ok_distinct)
  have "filter P (metadata_pages options meta)
      = concat (map (\<lambda>n'. if i_id n' = i_id n then f n' else []) (bt_values (m_inodes meta)))"
    unfolding inode [symmetric] by (simp add: metadata_pages_def rest filter_map o_def filter_concat)
  then show ?thesis using concat_map_unique [OF assms(1) dist] by simp
qed

lemma bt_ok_enumerate:
  assumes "\<And>a b. a < b \<Longrightarrow> f a < f b"
  shows "bt_ok (map (\<lambda>(page, chunk). (f page, g page chunk)) (enumerate n xs))"
proof -
  have "sorted_wrt (<) (map fst (enumerate n xs))" by simp
  then show ?thesis
    unfolding bt_ok_def sorted_wrt_map by (rule sorted_wrt_mono_rel [rotated]) (auto intro: assms)
qed

lemma bt_ok_page_lists:
  "bt_ok (directory_pages options n)" "bt_ok (xattr_pages options n)" "bt_ok (shard_index_pages options n)"
  unfolding directory_pages_def xattr_pages_def shard_index_pages_def
  by (rule bt_ok_enumerate, simp add: page_key_defs less_metadata_page_key_def)+

lemma map_snd_enumerate_chunks:
  "map (\<lambda>(page, chunk). h chunk) (enumerate n xs) = map h xs"
  by (induction xs arbitrary: n) auto

lemma page_list_parts:
  "map (\<lambda>x. snd (the (sel_entries (snd x)))) (directory_pages options n)
     = chunks (po_directory_entries_per_page options) (i_entries n)"
  "map (\<lambda>x. snd (the (sel_xattrs (snd x)))) (xattr_pages options n)
     = chunks (po_xattrs_per_page options) (i_xattrs n)"
  "map (\<lambda>x. snd (the (sel_blocks (snd x)))) (shard_index_pages options n)
     = chunks (po_file_blocks_per_page options) (i_blocks n)"
  by (simp_all add: directory_pages_def xattr_pages_def shard_index_pages_def chunked_pairs_def o_def case_prod_beta)

lemma map_filter_concat: "List.map_filter f (concat xss) = concat (map (List.map_filter f) xss)"
  by (induction xss) (auto simp: map_filter_def)

lemma map_filter_append: "List.map_filter f (xs @ ys) = List.map_filter f xs @ List.map_filter f ys"
  by (simp add: map_filter_def)

lemma map_filter_map: "List.map_filter f (map g xs) = List.map_filter (f \<circ> g) xs"
  by (induction xs) (auto simp: map_filter_simps split: option.split)

lemma map_filter_none: "(\<And>x. x \<in> set xs \<Longrightarrow> f x = None) \<Longrightarrow> List.map_filter f xs = []"
  by (induction xs) (auto simp: map_filter_simps)

lemma map_filter_some: "List.map_filter (\<lambda>x. Some (g x)) xs = map g xs"
  by (induction xs) (auto simp: map_filter_simps)

lemma inode_pages_parts:
  "List.map_filter (\<lambda>x. sel_disk (snd x)) (inode_pages options n) = []"
  "List.map_filter (\<lambda>x. sel_core (snd x)) (inode_pages options n) = [(i_id n, core_of n)]"
proof -
  let ?pages = "directory_pages options n @ xattr_pages options n @ shard_index_pages options n"
  have *: "List.map_filter (\<lambda>x. sel_disk (snd x)) ?pages = []" "List.map_filter (\<lambda>x. sel_core (snd x)) ?pages = []"
    by (rule map_filter_none, auto simp: directory_pages_def xattr_pages_def shard_index_pages_def)+
  show "List.map_filter (\<lambda>x. sel_disk (snd x)) (inode_pages options n) = []"
    "List.map_filter (\<lambda>x. sel_core (snd x)) (inode_pages options n) = [(i_id n, core_of n)]"
    using * by (simp_all add: inode_pages_def map_filter_simps core_of_def)
qed

lemma metadata_pages_parts:
  "disks_of (map snd (metadata_pages options meta)) = map (\<lambda>d. (d_id d, d)) (bt_values (m_disks meta))"
  "cores_of (map snd (metadata_pages options meta)) = map (\<lambda>n. (i_id n, core_of n)) (bt_values (m_inodes meta))"
proof -
  have c: "concat (map (\<lambda>x. [f x]) xs) = map f xs" for f :: "'a \<Rightarrow> 'b" and xs by (induction xs) auto
  show "disks_of (map snd (metadata_pages options meta)) = map (\<lambda>d. (d_id d, d)) (bt_values (m_disks meta))"
    by (simp add: metadata_pages_def map_filter_map o_def map_filter_append map_filter_concat map_filter_simps
        inode_pages_parts map_filter_some)
  show "cores_of (map snd (metadata_pages options meta)) = map (\<lambda>n. (i_id n, core_of n)) (bt_values (m_inodes meta))"
    by (simp add: metadata_pages_def map_filter_map o_def map_filter_append map_filter_concat map_filter_simps
        inode_pages_parts map_filter_none c)
qed

lemma picks_other [simp]:
  "\<not> picks sel_entries i (k, BDisk d)" "\<not> picks sel_entries i (k, BHeader h)"
  "\<not> picks sel_xattrs i (k, BDisk d)" "\<not> picks sel_xattrs i (k, BHeader h)"
  "\<not> picks sel_blocks i (k, BDisk d)" "\<not> picks sel_blocks i (k, BHeader h)"
  by (simp_all add: picks_def)

definition stored_bodies :: "page_codec \<Rightarrow> paged_metadata_options \<Rightarrow> metadata \<Rightarrow> metadata_page_body list" where
  "stored_bodies pc options meta =
     map (\<lambda>x. mp_body (snd x)) (insert_all (map (page_of pc (m_txid meta)) (metadata_pages options meta)) [])"

lemma set_stored_bodies:
  assumes "document_ok meta"
  shows "set (stored_bodies pc options meta) = snd ` set (metadata_pages options meta)"
proof -
  have "map fst (map (page_of pc (m_txid meta)) (metadata_pages options meta)) = map fst (metadata_pages options meta)"
    by (simp add: page_of_def o_def)
  then have "set (insert_all (map (page_of pc (m_txid meta)) (metadata_pages options meta)) [])
      = page_of pc (m_txid meta) ` set (metadata_pages options meta)"
    using metadata_pages_distinct [OF assms, of options] by (simp only: set_insert_all_distinct list.set_map)
  then show ?thesis by (simp add: stored_bodies_def image_image page_of_def)
qed

lemma set_map_filter_cong: "set xs = set ys \<Longrightarrow> set (List.map_filter f xs) = set (List.map_filter f ys)"
  by (simp add: map_filter_def)

lemma relabel: "\<forall>(k, v) \<in> set m. f v = k \<Longrightarrow> map (\<lambda>v. (f v, g v)) (map snd m) = map (\<lambda>(k, v). (k, g v)) m"
  by (induction m) auto

lemma document_lists:
  assumes "document_ok meta"
  shows "map (\<lambda>d. (d_id d, d)) (bt_values (m_disks meta)) = m_disks meta"
    "map (\<lambda>n. (i_id n, core_of n)) (bt_values (m_inodes meta)) = map (\<lambda>(i, n). (i, core_of n)) (m_inodes meta)"
    "map i_id (bt_values (m_inodes meta)) = bt_keys (m_inodes meta)"
proof -
  have "\<forall>(k, d) \<in> set (m_disks meta). d_id d = k" "\<forall>(k, n) \<in> set (m_inodes meta). i_id n = k"
    using assms unfolding document_ok_def by blast+
  then show "map (\<lambda>d. (d_id d, d)) (bt_values (m_disks meta)) = m_disks meta"
    "map (\<lambda>n. (i_id n, core_of n)) (bt_values (m_inodes meta)) = map (\<lambda>(i, n). (i, core_of n)) (m_inodes meta)"
    "map i_id (bt_values (m_inodes meta)) = bt_keys (m_inodes meta)"
    using relabel [of "m_disks meta" d_id "\<lambda>d. d"] relabel [of "m_inodes meta" i_id core_of] by auto
qed

lemma stored_disks:
  assumes ok: "document_ok meta"
  shows "insert_all (disks_of (stored_bodies pc options meta)) [] = m_disks meta"
proof (rule insert_all_eq)
  show "bt_ok (m_disks meta)" using ok by (simp add: document_ok_def)
  have "set (disks_of (stored_bodies pc options meta)) = set (disks_of (map snd (metadata_pages options meta)))"
    by (rule set_map_filter_cong) (simp add: set_stored_bodies [OF ok])
  also have "\<dots> = set (m_disks meta)"
    using document_lists(1) [OF ok] by (simp only: metadata_pages_parts)
  finally show "set (disks_of (stored_bodies pc options meta)) = set (m_disks meta)" .
qed

lemma stored_cores:
  assumes ok: "document_ok meta"
  shows "insert_all (cores_of (stored_bodies pc options meta)) [] = map (\<lambda>(i, n). (i, core_of n)) (m_inodes meta)"
proof (rule insert_all_eq)
  show "bt_ok (map (\<lambda>(i, n). (i, core_of n)) (m_inodes meta))"
    using ok by (simp add: document_ok_def bt_ok_def o_def case_prod_beta)
  have "set (cores_of (stored_bodies pc options meta)) = set (cores_of (map snd (metadata_pages options meta)))"
    by (rule set_map_filter_cong) (simp add: set_stored_bodies [OF ok])
  also have "\<dots> = set (map (\<lambda>(i, n). (i, core_of n)) (m_inodes meta))"
    using document_lists(2) [OF ok] by (simp only: metadata_pages_parts)
  finally show "set (cores_of (stored_bodies pc options meta)) = set (map (\<lambda>(i, n). (i, core_of n)) (m_inodes meta))" .
qed

lemma stored_groups:
  assumes ok: "document_ok meta" and n: "n \<in> set (bt_values (m_inodes meta))"
  shows "group_of (entries_of (stored_bodies pc options meta)) (i_id n) = chunks (po_directory_entries_per_page options) (i_entries n)"
    "group_of (xattrs_of (stored_bodies pc options meta)) (i_id n) = chunks (po_xattrs_per_page options) (i_xattrs n)"
    "group_of (blocks_of (stored_bodies pc options meta)) (i_id n) = chunks (po_file_blocks_per_page options) (i_blocks n)"
proof -
  note dist = metadata_pages_distinct [OF ok, of options]
  have F: "filter (picks sel_entries (i_id n)) (metadata_pages options meta) = directory_pages options n"
    "filter (picks sel_xattrs (i_id n)) (metadata_pages options meta) = xattr_pages options n"
    "filter (picks sel_blocks (i_id n)) (metadata_pages options meta) = shard_index_pages options n"
    by (rule filter_metadata_pages [OF n ok]; simp add: filter_inode_pages)+
  show "group_of (entries_of (stored_bodies pc options meta)) (i_id n) = chunks (po_directory_entries_per_page options) (i_entries n)"
    unfolding stored_bodies_def group_of_sorted [OF dist F(1) bt_ok_page_lists(1)] page_list_parts ..
  show "group_of (xattrs_of (stored_bodies pc options meta)) (i_id n) = chunks (po_xattrs_per_page options) (i_xattrs n)"
    unfolding stored_bodies_def group_of_sorted [OF dist F(2) bt_ok_page_lists(2)] page_list_parts ..
  show "group_of (blocks_of (stored_bodies pc options meta)) (i_id n) = chunks (po_file_blocks_per_page options) (i_blocks n)"
    unfolding stored_bodies_def group_of_sorted [OF dist F(3) bt_ok_page_lists(3)] page_list_parts ..
qed

lemma stored_outside:
  assumes ok: "document_ok meta" and i: "i \<notin> set (bt_keys (m_inodes meta))"
  shows "group_of (entries_of (stored_bodies pc options meta)) i = []"
    "group_of (xattrs_of (stored_bodies pc options meta)) i = []"
    "group_of (blocks_of (stored_bodies pc options meta)) i = []"
proof -
  note dist = metadata_pages_distinct [OF ok, of options]
  have ne: "\<forall>n \<in> set (bt_values (m_inodes meta)). i_id n \<noteq> i"
    using i document_lists(3) [OF ok] by (metis in_set_conv_nth length_map nth_map nth_mem)
  have none: "filter P (metadata_pages options meta) = []"
    if "\<And>k d. \<not> P (k, BDisk d)" "\<And>k d. \<not> P (k, BHeader d)"
      "\<And>n. n \<in> set (bt_values (m_inodes meta)) \<Longrightarrow> filter P (inode_pages options n) = []" for P
    using that by (simp add: metadata_pages_def filter_map filter_concat o_def)
  have F: "filter (picks sel_entries i) (metadata_pages options meta) = []"
    "filter (picks sel_xattrs i) (metadata_pages options meta) = []"
    "filter (picks sel_blocks i) (metadata_pages options meta) = []"
    by (rule none; use ne in \<open>auto simp: filter_inode_pages\<close>)+
  show "group_of (entries_of (stored_bodies pc options meta)) i = []"
    "group_of (xattrs_of (stored_bodies pc options meta)) i = []"
    "group_of (blocks_of (stored_bodies pc options meta)) i = []"
    unfolding stored_bodies_def
    by (simp_all only: group_of_sorted [OF dist F(1) bt_ok_Nil] group_of_sorted [OF dist F(2) bt_ok_Nil]
        group_of_sorted [OF dist F(3) bt_ok_Nil] list.map)
qed

lemma group_all_inside:
  assumes "\<And>k. k \<notin> K \<Longrightarrow> group_of gs k = []"
  shows "filter (\<lambda>(k, _). k \<notin> K) (group_all f gs []) = []"
proof -
  have "k \<in> K" if "k \<in> fst ` set (group_all f gs [])" for k
  proof (rule ccontr)
    assume "k \<notin> K"
    then have "map_of (group_all f gs []) k = None" using assms by (simp add: map_of_group_all)
    then show False using that by (simp add: map_of_eq_None_iff)
  qed
  then show ?thesis by (force simp: filter_empty_conv)
qed

lemma stored_values:
  assumes ok: "document_ok meta" and valid: "validate_options options = Inr ()"
    and n: "n \<in> set (bt_values (m_inodes meta))"
  shows "remove_or_default (group_all insert_all (entries_of (stored_bodies pc options meta)) []) (i_id n) = i_entries n"
    "remove_or_default (group_all insert_all (xattrs_of (stored_bodies pc options meta)) []) (i_id n) = i_xattrs n"
    "remove_or_default (group_all append_blocks (blocks_of (stored_bodies pc options meta)) []) (i_id n) = i_blocks n"
proof -
  have pos: "0 < po_directory_entries_per_page options" "0 < po_xattrs_per_page options" "0 < po_file_blocks_per_page options"
    using valid by (auto simp: validate_options_def split: if_splits)
  have bt: "bt_ok (i_entries n)" "bt_ok (i_xattrs n)" using ok n by (auto simp: document_ok_def)
  show "remove_or_default (group_all insert_all (entries_of (stored_bodies pc options meta)) []) (i_id n) = i_entries n"
    by (simp add: group_all_default stored_groups [OF ok n] fold_insert_all concat_chunks [OF pos(1)] insert_all_eq [OF bt(1)])
  show "remove_or_default (group_all insert_all (xattrs_of (stored_bodies pc options meta)) []) (i_id n) = i_xattrs n"
    by (simp add: group_all_default stored_groups [OF ok n] fold_insert_all concat_chunks [OF pos(2)] insert_all_eq [OF bt(2)])
  show "remove_or_default (group_all append_blocks (blocks_of (stored_bodies pc options meta)) []) (i_id n) = i_blocks n"
    by (simp add: group_all_default stored_groups [OF ok n] fold_append concat_chunks [OF pos(3)])
qed

lemma into_inode_core [simp]: "into_inode (core_of n) (i_entries n) (i_xattrs n) (i_blocks n) = n"
  by (simp add: into_inode_def core_of_def)

lemma metadata_of_header [simp]: "metadata_of (header_of meta) (m_disks meta) (m_inodes meta) = meta"
  by (simp add: metadata_of_def header_of_def)

definition stored :: "page_codec \<Rightarrow> paged_metadata_options \<Rightarrow> metadata \<Rightarrow> paged_metadata" where
  "stored pc options meta = \<lparr>pm_version = PAGED_METADATA_VERSION, pm_options = options,
     pm_pages = insert_all (map (page_of pc (m_txid meta)) (metadata_pages options meta)) []\<rparr>"

lemma from_metadata_eq:
  "validate_options options = Inr () \<Longrightarrow> from_metadata_with_options pc meta options = Inr (stored pc options meta)"
  by (simp add: from_metadata_with_options_def put_pages_eq [OF metadata_pages_valid] stored_def)

lemma stored_pages_set:
  assumes "document_ok meta"
  shows "set (pm_pages (stored pc options meta)) = page_of pc (m_txid meta) ` set (metadata_pages options meta)"
    "map fst (map (page_of pc txid) pl) = map fst pl" "bt_ok (pm_pages (stored pc options meta))"
proof -
  show keys: "map fst (map (page_of pc txid) pl) = map fst pl" for txid pl
    by (simp add: page_of_def o_def)
  show "set (pm_pages (stored pc options meta)) = page_of pc (m_txid meta) ` set (metadata_pages options meta)"
    using metadata_pages_distinct [OF assms, of options] keys [of "m_txid meta" "metadata_pages options meta"]
    unfolding stored_def by (simp only: set_insert_all_distinct list.set_map paged_metadata.simps)
  show "bt_ok (pm_pages (stored pc options meta))" by (simp add: stored_def)
qed

lemma verify_pages_ok: "\<forall>p \<in> set ps. verify_hash pc p = Inr () \<Longrightarrow> verify_pages pc ps = Inr ()"
  by (induction ps) auto

lemma to_metadata_stored:
  assumes ok: "document_ok meta" and valid: "validate_options options = Inr ()"
  shows "to_metadata pc (stored pc options meta) = Inr meta"
proof -
  let ?st = "stored pc options meta" and ?b = "stored_bodies pc options meta"
  note pages = stored_pages_set(1,3) [OF ok, of pc options]
  have b: "map mp_body (bt_values (pm_pages ?st)) = ?b" by (simp add: stored_def stored_bodies_def)
  have verify: "verify_pages pc (bt_values (pm_pages ?st)) = Inr ()"
    by (rule verify_pages_ok) (auto simp: pages(1) page_of_def verify_hash_def)
  have "(header_key, snd (page_of pc (m_txid meta) (header_key, BHeader (header_of meta)))) \<in> set (pm_pages ?st)"
    unfolding pages(1) by (simp add: metadata_pages_def page_of_def image_iff)
  then have header: "find_header ?st = Inr (header_of meta)"
    using map_of_is_SomeI [OF bt_ok_distinct [OF pages(2)]] by (simp add: find_header_def page_of_def)
  have "\<forall>p \<in> set (bt_values (pm_pages ?st)). validate_page_key (mp_key p) (mp_body p) = Inr ()"
    using metadata_pages_valid [of options meta] by (auto simp: pages(1) page_of_def)
  moreover have "\<forall>x \<in> set (pm_pages ?st). fst x = mp_key (snd x)" by (auto simp: pages(1) page_of_def)
  then have "map mp_key (bt_values (pm_pages ?st)) = bt_keys (pm_pages ?st)" by simp
  then have "distinct (map mp_key (bt_values (pm_pages ?st)))" by (simp only: bt_ok_distinct [OF pages(2)])
  ultimately obtain seen where c: "collect_pages (bt_values (pm_pages ?st)) collected_empty
      = Inr ((collect_all ?b collected_empty)\<lparr>co_seen := seen\<rparr>)"
    using collect_pages_eq [of "bt_values (pm_pages ?st)" collected_empty] unfolding b
    by (auto simp: collected_empty_def)
  let ?c = "(collect_all ?b collected_empty)\<lparr>co_seen := seen\<rparr>"
  have cores: "co_cores ?c = map (\<lambda>(i, n). (i, core_of n)) (m_inodes meta)"
    and disks: "co_disks ?c = m_disks meta"
    by (simp_all add: collect_all_def collected_empty_def stored_cores [OF ok] stored_disks [OF ok])
  have keys: "map fst (co_cores ?c) = bt_keys (m_inodes meta)" unfolding cores by (simp add: o_def case_prod_beta)
  have dk: "distinct (map fst (co_cores ?c))"
    unfolding keys using ok by (simp add: document_ok_def bt_ok_distinct)
  have "map (\<lambda>(i, core). (i, into_inode core (remove_or_default (co_entries ?c) i)
         (remove_or_default (co_xattrs ?c) i) (remove_or_default (co_blocks ?c) i))) (co_cores ?c) = m_inodes meta"
    unfolding cores map_map
  proof (rule map_idI)
    fix x assume x: "x \<in> set (m_inodes meta)"
    then have "i_id (snd x) = fst x" "snd x \<in> set (bt_values (m_inodes meta))"
      using ok by (auto simp: document_ok_def)
    then show "((\<lambda>(i, core). (i, into_inode core (remove_or_default (co_entries ?c) i)
         (remove_or_default (co_xattrs ?c) i) (remove_or_default (co_blocks ?c) i))) \<circ> (\<lambda>(i, n). (i, core_of n))) x = x"
      using stored_values [OF ok valid, of "snd x" pc]
      by (simp add: collect_all_def collected_empty_def case_prod_beta)
  qed
  note inodes = this
  have fields: "co_entries ?c = group_all insert_all (entries_of ?b) []" "co_xattrs ?c = group_all insert_all (xattrs_of ?b) []"
    "co_blocks ?c = group_all append_blocks (blocks_of ?b) []"
    by (simp_all add: collect_all_def collected_empty_def)
  have out: "i \<notin> fst ` set (co_cores ?c) \<Longrightarrow> i \<notin> set (bt_keys (m_inodes meta))" for i
    unfolding keys [symmetric] by simp
  have left: "filter (\<lambda>(k, _). k \<notin> fst ` set (co_cores ?c)) (co_entries ?c) = []"
    "filter (\<lambda>(k, _). k \<notin> fst ` set (co_cores ?c)) (co_xattrs ?c) = []"
    "filter (\<lambda>(k, _). k \<notin> fst ` set (co_cores ?c)) (co_blocks ?c) = []"
    unfolding fields by (rule group_all_inside, rule stored_outside [OF ok out], assumption)+
  have "insert_all (m_inodes meta) [] = m_inodes meta" using ok by (intro insert_all_eq) (auto simp: document_ok_def)
  then have asm: "assemble_inodes (co_cores ?c) [] ?c = (m_inodes meta,
      ?c\<lparr>co_entries := [], co_xattrs := [], co_blocks := []\<rparr>)"
    unfolding assemble_inodes_eq [OF dk] inodes left by simp
  show ?thesis
    using verify header c asm valid disks
    by (simp add: to_metadata_def stored_def)
qed

section \<open>Deltas\<close>

text \<open>A store whose pages are filed under their keys and pass their checks, as \<open>put_page\<close> leaves it.\<close>

definition store_ok :: "page_codec \<Rightarrow> paged_metadata \<Rightarrow> bool" where
  "store_ok pc store \<longleftrightarrow> bt_ok (pm_pages store)
     \<and> (\<forall>(k, p) \<in> set (pm_pages store). mp_key p = k \<and> verify_hash pc p = Inr () \<and> validate_page_key k (mp_body p) = Inr ())"

lemma put_page_store_ok: "store_ok pc store \<Longrightarrow> put_page pc page store = Inr store' \<Longrightarrow> store_ok pc store'"
proof -
  assume ok: "store_ok pc store" and put: "put_page pc page store = Inr store'"
  then have checks: "verify_hash pc page = Inr ()" "validate_page_key (mp_key page) (mp_body page) = Inr ()"
    and st: "store' = store\<lparr>pm_pages := bt_insert (mp_key page) page (pm_pages store)\<rparr>"
    by (auto simp: put_page_def rbind_eq_Inr_iff)
  have "bt_ok (bt_insert (mp_key page) page (pm_pages store))" using ok by (simp add: store_ok_def)
  moreover have "(k, p) = (mp_key page, page) \<or> (k, p) \<in> set (pm_pages store)"
    if "(k, p) \<in> set (bt_insert (mp_key page) page (pm_pages store))" for k p
    using that ok bt_get_in_set [OF calculation, of k p]
    by (auto simp: store_ok_def bt_get_in_set split: if_splits)
  ultimately show "store_ok pc store'" using ok checks by (force simp: store_ok_def st)
qed

lemma stored_store_ok: "document_ok meta \<Longrightarrow> store_ok pc (stored pc options meta)"
  using stored_pages_set(1,3) [of meta pc options] metadata_pages_valid [of options meta]
  by (auto simp: store_ok_def page_of_def verify_hash_def)

text \<open>The transaction number of a page does not matter for the document.\<close>

definition untimed :: "(metadata_page_key, metadata_page) btree \<Rightarrow> (metadata_page_key, metadata_page) btree" where
  "untimed pages = map (\<lambda>(k, p). (k, p\<lparr>mp_txid := 0\<rparr>)) pages"

lemma map_of_untimed: "map_of (untimed pages) k = map_option (\<lambda>p. p\<lparr>mp_txid := 0\<rparr>) (map_of pages k)"
  by (induction pages) (auto simp: untimed_def)

lemma verify_pages_untimed: "verify_pages pc (map snd (untimed pages)) = verify_pages pc (map snd pages)"
  by (induction pages) (auto simp: untimed_def verify_hash_def rbind_def split: sum.splits)

lemma collect_pages_untimed: "collect_pages (map snd (untimed pages)) c = collect_pages (map snd pages) c"
  by (induction pages arbitrary: c) (auto simp: untimed_def)

lemma to_metadata_cong:
  assumes "pm_version a = pm_version b" "pm_options a = pm_options b" "untimed (pm_pages a) = untimed (pm_pages b)"
  shows "to_metadata pc a = to_metadata pc b"
proof -
  have "find_header x = (case map_of (untimed (pm_pages x)) header_key of
        None \<Rightarrow> Inl CorruptedMetadata
      | Some page \<Rightarrow> (case mp_body page of BHeader header \<Rightarrow> Inr header | _ \<Rightarrow> Inl CorruptedMetadata))" for x
    by (simp add: find_header_def map_of_untimed split: option.split)
  then have "find_header a = find_header b" using assms(3) by simp
  moreover have "verify_pages pc (bt_values (pm_pages a)) = verify_pages pc (bt_values (pm_pages b))"
    "collect_pages (bt_values (pm_pages a)) c = collect_pages (bt_values (pm_pages b)) c" for c
    using assms(3) verify_pages_untimed collect_pages_untimed by metis+
  ultimately show ?thesis using assms(1,2) by (simp add: to_metadata_def)
qed

lemma apply_deletes:
  "apply_page_delta pc (map Delete ks @ ops) store
    = apply_page_delta pc ops (store\<lparr>pm_pages := fold bt_remove ks (pm_pages store)\<rparr>)"
  by (induction ks arbitrary: store) auto

lemma apply_puts:
  assumes "\<forall>(k, p) \<in> set kps. mp_key p = k \<and> verify_hash pc p = Inr () \<and> validate_page_key k (mp_body p) = Inr ()"
  shows "apply_page_delta pc (map (\<lambda>(k, p). Put p) kps) store
    = Inr (store\<lparr>pm_pages := insert_all kps (pm_pages store)\<rparr>)"
  using assms by (induction kps arbitrary: store) (auto simp: put_page_def)

lemma fold_bt_remove: "map_of (fold bt_remove ks m) k = (if k \<in> set ks then None else map_of m k)"
  by (induction ks arbitrary: m) auto

lemma bt_ok_fold_remove: "bt_ok m \<Longrightarrow> bt_ok (fold bt_remove ks m)"
  by (induction ks arbitrary: m) auto

lemma bt_ok_untimed: "bt_ok m \<Longrightarrow> bt_ok (untimed m)"
  by (simp add: bt_ok_def untimed_def o_def case_prod_beta)

lemma page_delta_applied:
  assumes prev: "store_ok pc prev" and nxt: "store_ok pc nxt"
    and inj: "\<And>k p q. (k, p) \<in> set (pm_pages prev) \<Longrightarrow> (k, q) \<in> set (pm_pages nxt) \<Longrightarrow>
      hash_page_body pc (mp_body p) = hash_page_body pc (mp_body q) \<Longrightarrow> mp_body p = mp_body q"
  obtains pages where "apply_page_delta pc (metadata_page_delta prev nxt) prev = Inr (prev\<lparr>pm_pages := pages\<rparr>)"
    "untimed pages = untimed (pm_pages nxt)" "bt_ok pages"
proof -
  have okp: "bt_ok (pm_pages prev)" and okn: "bt_ok (pm_pages nxt)" using prev nxt by (auto simp: store_ok_def)
  let ?dels = "filter (\<lambda>key. \<not> bt_contains key (pm_pages nxt)) (bt_keys (pm_pages prev))"
  let ?chg = "\<lambda>(key, page). case map_of (pm_pages prev) key of None \<Rightarrow> True
                  | Some previous_page \<Rightarrow> mp_body_hash previous_page \<noteq> mp_body_hash page"
  let ?puts = "filter ?chg (pm_pages nxt)"
  define pages where "pages = insert_all ?puts (fold bt_remove ?dels (pm_pages prev))"
  have ok: "bt_ok pages" by (simp add: pages_def bt_ok_fold_remove okp)
  have run: "apply_page_delta pc (metadata_page_delta prev nxt) prev = Inr (prev\<lparr>pm_pages := pages\<rparr>)"
    unfolding metadata_page_delta_def apply_deletes
    using nxt by (subst apply_puts) (auto simp: store_ok_def pages_def)
  have dput: "distinct (map fst ?puts)" using bt_ok_distinct [OF bt_ok_filter [OF okn]] .
  have gput: "map_of (rev ?puts) k = Some q \<longleftrightarrow> map_of (pm_pages nxt) k = Some q \<and> ?chg (k, q)" for k q
    using dput by (subst map_of_eq_Some_iff) (simp_all add: rev_map [symmetric] bt_get_in_set [OF okn])
  have "map_of (untimed pages) k = map_of (untimed (pm_pages nxt)) k" for k
  proof (cases "map_of (pm_pages nxt) k")
    case None
    then have "map_of (rev ?puts) k = None" using gput by (metis option.exhaust option.distinct(1))
    moreover have "k \<in> set ?dels \<or> map_of (pm_pages prev) k = None"
      using None by (auto simp: bt_contains_def map_of_eq_None_iff)
    then have "map_of (fold bt_remove ?dels (pm_pages prev)) k = None" by (auto simp only: fold_bt_remove if_True if_False split: if_split)
    ultimately have "map_of pages k = None" by (simp only: pages_def bt_get_insert_all map_add_def option.case)
    then show ?thesis using None by (simp add: map_of_untimed)
  next
    case (Some q)
    show ?thesis
    proof (cases "?chg (k, q)")
      case True
      then have "map_of (rev ?puts) k = Some q" using gput Some by blast
      then have "map_of pages k = Some q" by (simp only: pages_def bt_get_insert_all map_add_def option.case)
      then show ?thesis using Some by (simp add: map_of_untimed)
    next
      case False
      then obtain p where p: "map_of (pm_pages prev) k = Some p" "mp_body_hash p = mp_body_hash q"
        by (auto split: option.splits)
      have none: "map_of (rev ?puts) k = None" using gput Some False by (metis option.exhaust option.sel)
      have "k \<notin> set ?dels" using Some by (simp add: bt_contains_def)
      then have "map_of pages k = Some p"
        using p(1) none by (simp only: pages_def bt_get_insert_all map_add_def option.case fold_bt_remove if_False)
      moreover have "(k, p) \<in> set (pm_pages prev)" "(k, q) \<in> set (pm_pages nxt)"
        using p(1) Some bt_get_in_set okp okn by metis+
      moreover from this have "mp_key p = k" "mp_key q = k" "hash_page_body pc (mp_body p) = mp_body_hash p"
        "hash_page_body pc (mp_body q) = mp_body_hash q"
        using prev nxt by (auto simp: store_ok_def verify_hash_def split: if_splits)
      ultimately show ?thesis
        using Some p(2) inj [of k p q] by (simp add: map_of_untimed)
    qed
  qed
  then have "untimed pages = untimed (pm_pages nxt)"
    by (intro bt_ext bt_ok_untimed ok okn) (simp add: fun_eq_iff)
  then show thesis using that run ok by blast
qed

section \<open>The claims\<close>

text \<open>C30. Cutting a metadata document into pages and reading the pages back gives the document, for
  every page size: entries, attributes and the order of the file blocks of every inode are kept.\<close>

theorem to_metadata_from_metadata:
  assumes "document_ok meta" "validate_options options = Inr ()"
  shows "\<exists>store. from_metadata_with_options pc meta options = Inr store \<and> to_metadata pc store = Inr meta"
  using from_metadata_eq [OF assms(2)] to_metadata_stored [OF assms] by blast

text \<open>C31. Applying the page delta between two documents to the pages of the first gives a store that
  reads back as the second, although unchanged pages keep their old transaction number, unless
  SHA-256 gives two different bodies under one key the same hash.\<close>

theorem page_delta_reaches_next:
  assumes "document_ok old" "document_ok new" "validate_options options = Inr ()"
    and "from_metadata_with_options pc old options = Inr prev" "from_metadata_with_options pc new options = Inr nxt"
    and "\<And>k p q. (k, p) \<in> set (pm_pages prev) \<Longrightarrow> (k, q) \<in> set (pm_pages nxt) \<Longrightarrow>
      hash_page_body pc (mp_body p) = hash_page_body pc (mp_body q) \<Longrightarrow> mp_body p = mp_body q"
  shows "\<exists>store. apply_page_delta pc (metadata_page_delta prev nxt) prev = Inr store \<and> to_metadata pc store = Inr new"
proof -
  have st: "prev = stored pc options old" "nxt = stored pc options new"
    using assms(3-5) by (simp_all add: from_metadata_eq)
  have ok: "store_ok pc prev" "store_ok pc nxt" unfolding st by (rule stored_store_ok, rule assms)+
  obtain pages where run: "apply_page_delta pc (metadata_page_delta prev nxt) prev = Inr (prev\<lparr>pm_pages := pages\<rparr>)"
    and eq: "untimed pages = untimed (pm_pages nxt)"
    by (rule page_delta_applied [OF ok assms(6)])
  have "to_metadata pc (prev\<lparr>pm_pages := pages\<rparr>) = to_metadata pc nxt"
    using eq by (intro to_metadata_cong) (simp_all add: st stored_def)
  then show ?thesis using run to_metadata_stored [OF assms(2,3)] st by auto
qed

text \<open>An example: a volume with one directory and one file, and the same volume one rename later,
  with pages of a single entry; the encoding keeps only what differs.\<close>

definition demo_tree :: "(string \<times> inode_id) list \<Rightarrow> metadata" where
  "demo_tree entries = demo_metadata\<lparr>m_inodes :=
     [(3, demo_inode\<lparr>i_id := 3, i_kind := Directory, i_entries := entries\<rparr>), (7, demo_inode)]\<rparr>"

definition demo_page_options :: paged_metadata_options where
  "demo_page_options = \<lparr>po_directory_entries_per_page = 1, po_xattrs_per_page = 1, po_file_blocks_per_page = 1\<rparr>"

definition demo_page_codec :: page_codec where
  "demo_page_codec = \<lparr>pc_to_vec = (\<lambda>body. case body of BDirectory d \<Rightarrow> concat (map (str_bytes \<circ> fst) (dp_entries d)) | _ \<Rightarrow> []),
     pc_sha256_hex = map (\<lambda>b. char_of (unat b))\<rparr>"

lemma demo_tree_ok:
  "document_ok (demo_tree [(''a'', 7), (''b'', 7)])" "document_ok (demo_tree [(''a'', 7), (''c'', 7)])"
  "validate_options demo_page_options = Inr ()"
  by (simp_all add: document_ok_def demo_tree_def demo_metadata_def bt_ok_def demo_inode_def
      validate_options_def demo_page_options_def less_char_def)

theorem to_metadata_from_metadata_witness:
  "\<exists>store. from_metadata_with_options demo_page_codec (demo_tree [(''a'', 7), (''b'', 7)]) demo_page_options = Inr store
     \<and> to_metadata demo_page_codec store = Inr (demo_tree [(''a'', 7), (''b'', 7)])"
  by (rule to_metadata_from_metadata [OF demo_tree_ok(1,3)])

lemma demo_tree_pages:
  "set (metadata_pages demo_page_options (demo_tree [(''a'', 7), (x, 7)])) =
     {(header_key, BHeader (header_of (demo_tree []))),
      (inode_key 3, BInode (core_of (demo_inode\<lparr>i_id := 3, i_kind := Directory\<rparr>))),
      (directory_key 3 0, BDirectory \<lparr>dp_inode = 3, dp_first_name = Some ''a'', dp_entries = [(''a'', 7)]\<rparr>),
      (directory_key 3 1, BDirectory \<lparr>dp_inode = 3, dp_first_name = Some x, dp_entries = [(x, 7)]\<rparr>),
      (inode_key 7, BInode (core_of demo_inode))}"
  by (simp add: page_list_defs chunked_pairs_def demo_tree_def demo_page_options_def demo_inode_def demo_metadata_def
      first_opt_def header_of_def core_of_def chunks_step insert_commute)

theorem page_delta_reaches_next_witness:
  "\<exists>prev nxt store. from_metadata_with_options demo_page_codec (demo_tree [(''a'', 7), (''b'', 7)]) demo_page_options = Inr prev
     \<and> from_metadata_with_options demo_page_codec (demo_tree [(''a'', 7), (''c'', 7)]) demo_page_options = Inr nxt
     \<and> apply_page_delta demo_page_codec (metadata_page_delta prev nxt) prev = Inr store
     \<and> to_metadata demo_page_codec store = Inr (demo_tree [(''a'', 7), (''c'', 7)])"
proof -
  let ?old = "demo_tree [(''a'', 7), (''b'', 7)]" and ?new = "demo_tree [(''a'', 7), (''c'', 7)]"
  have "mp_body p = mp_body q"
    if "(k, p) \<in> set (pm_pages (stored demo_page_codec demo_page_options ?old))"
      "(k, q) \<in> set (pm_pages (stored demo_page_codec demo_page_options ?new))"
      "hash_page_body demo_page_codec (mp_body p) = hash_page_body demo_page_codec (mp_body q)" for k p q
  proof -
    have m: "(k, mp_body p) \<in> set (metadata_pages demo_page_options ?old)"
      "(k, mp_body q) \<in> set (metadata_pages demo_page_options ?new)"
      using that(1,2) by (auto simp: stored_pages_set(1) [OF demo_tree_ok(1)] stored_pages_set(1) [OF demo_tree_ok(2)] page_of_def)
    then show ?thesis
      using that(3) unfolding demo_tree_pages
      by (auto simp: page_key_defs hash_page_body_def demo_page_codec_def str_bytes_def)
  qed
  then show ?thesis
    using page_delta_reaches_next [OF demo_tree_ok from_metadata_eq [OF demo_tree_ok(3)] from_metadata_eq [OF demo_tree_ok(3)]]
      from_metadata_eq [OF demo_tree_ok(3)] by blast
qed

end
