(* ===== verification/Argos_Path.thy ===== *)
theory Argos_Path
  imports Argos_Error Argos_Text
begin

text \<open>
  The path functions of \<open>src/util.rs\<close>: \<open>clean_path\<close> resolves \<open>.\<close>, \<open>..\<close> and repeated slashes
  lexically, \<open>split_path\<close> and \<open>parent_name\<close> take a path apart. \<open>Path::components\<close> is the
  documented decomposition of a Unix path.
\<close>

section \<open>Definitions\<close>

datatype component = RootDir | CurDir | ParentDir | Normal string

definition body_component :: "string \<Rightarrow> component list" where
  "body_component part =
     (if part = [] \<or> part = ''.'' then [] else if part = ''..'' then [ParentDir] else [Normal part])"

definition components :: "string \<Rightarrow> component list" where
  "components path =
     (let parts = split_on CHR ''/'' path
      in (if path \<noteq> [] \<and> hd path = CHR ''/'' then [RootDir]
          else if hd parts = ''.'' then [CurDir] else [])
         @ concat (map body_component parts))"

fun clean_step :: "component \<Rightarrow> string list \<Rightarrow> string list" where
  "clean_step RootDir stack = []"
| "clean_step CurDir stack = stack"
| "clean_step ParentDir stack = butlast stack"
| "clean_step (Normal part) stack = stack @ [part]"

definition path_stack :: "string \<Rightarrow> string list" where
  "path_stack path = fold clean_step (components path) []"

definition clean_path :: "string \<Rightarrow> string" where
  "clean_path path =
     (let stack = path_stack path
      in if stack = [] then ''/'' else CHR ''/'' # join ''/'' stack)"

definition split_path :: "string \<Rightarrow> string list" where
  "split_path path = filter (\<lambda>part. part \<noteq> []) (split_on CHR ''/'' (clean_path path))"

definition parent_name :: "string \<Rightarrow> (string \<times> string) result" where
  "parent_name path =
     (let cleaned = clean_path path
      in if cleaned = ''/'' then Inl Invalid
         else let parts = split_path cleaned
              in if parts = [] then Inl Invalid
                 else Inr (if length parts = 1 then ''/'' else CHR ''/'' # join ''/'' (butlast parts), last parts))"

section \<open>Lemmas\<close>

definition part_ok :: "string \<Rightarrow> bool" where
  "part_ok p \<longleftrightarrow> p \<noteq> [] \<and> p \<noteq> ''.'' \<and> p \<noteq> ''..'' \<and> CHR ''/'' \<notin> set p"

definition path_of :: "string list \<Rightarrow> string" where
  "path_of parts = (if parts = [] then ''/'' else CHR ''/'' # join ''/'' parts)"

lemma clean_path_eq: "clean_path p = path_of (path_stack p)"
  by (simp add: clean_path_def path_of_def Let_def)

lemma components_parts:
  "Normal part \<in> set (components p) \<Longrightarrow> part_ok part"
  by (auto simp: components_def body_component_def part_ok_def Let_def dest: split_on_pieces split: if_splits)

lemma clean_step_ok:
  assumes "\<And>part. c = Normal part \<Longrightarrow> part_ok part" "\<forall>p \<in> set stack. part_ok p"
  shows "\<forall>p \<in> set (clean_step c stack). part_ok p"
proof (cases c)
  case ParentDir
  then show ?thesis using assms(2) by (simp add: in_set_butlastD)
qed (use assms in simp_all)

lemma fold_clean_ok:
  assumes "\<And>part. Normal part \<in> set cs \<Longrightarrow> part_ok part" "\<forall>p \<in> set stack. part_ok p"
  shows "\<forall>p \<in> set (fold clean_step cs stack). part_ok p"
  using assms
proof (induction cs arbitrary: stack)
  case (Cons c cs)
  have "\<forall>p \<in> set (fold clean_step cs (clean_step c stack)). part_ok p"
    by (rule Cons.IH [OF _ clean_step_ok]) (use Cons.prems in simp_all)
  then show ?case by simp
qed simp

lemma path_stack_ok: "\<forall>p \<in> set (path_stack path). part_ok p"
  unfolding path_stack_def by (rule fold_clean_ok) (simp_all add: components_parts)

lemma split_path_of:
  assumes "parts \<noteq> []" "\<forall>p \<in> set parts. part_ok p"
  shows "split_on CHR ''/'' (path_of parts) = [] # parts"
  using assms split_on_join [of parts "CHR ''/''"] by (simp add: path_of_def part_ok_def)

lemma body_component_ok: "\<forall>p \<in> set parts. part_ok p \<Longrightarrow> concat (map body_component parts) = map Normal parts"
  by (induction parts) (auto simp: body_component_def part_ok_def)

lemma fold_push: "fold clean_step (map Normal parts) stack = stack @ parts"
  by (induction parts arbitrary: stack) auto

lemma path_stack_of:
  assumes "\<forall>p \<in> set parts. part_ok p"
  shows "path_stack (path_of parts) = parts"
proof (cases "parts = []")
  case True
  then show ?thesis by (simp add: path_of_def path_stack_def components_def body_component_def)
next
  case False
  have "components (path_of parts) = RootDir # map Normal parts"
    using split_path_of [OF False assms] body_component_ok [OF assms]
    by (simp add: components_def body_component_def) (simp add: path_of_def False)
  then show ?thesis by (simp add: path_stack_def fold_push)
qed

lemma clean_path_of: "\<forall>p \<in> set parts. part_ok p \<Longrightarrow> clean_path (path_of parts) = path_of parts"
  by (simp add: clean_path_eq path_stack_of)

lemma split_path_eq: "split_path path = path_stack path"
proof -
  have "\<forall>p \<in> set (path_stack path). p \<noteq> []" using path_stack_ok by (auto simp: part_ok_def)
  then have "filter (\<lambda>part. part \<noteq> []) (path_stack path) = path_stack path" by (auto intro: filter_True)
  then show ?thesis
    using split_path_of [OF _ path_stack_ok, of path]
    by (cases "path_stack path = []") (auto simp: split_path_def clean_path_eq path_of_def)
qed

lemma path_of_root [simp]: "path_of parts = ''/'' \<longleftrightarrow> parts = [] \<or> parts = [[]]"
  by (cases parts; cases "tl parts") (auto simp: path_of_def)

lemma path_stack_not_empty_part: "path_stack path \<noteq> [[]]"
proof
  assume "path_stack path = [[]]"
  then have "part_ok []" using path_stack_ok [of path] by simp
  then show False by (simp add: part_ok_def)
qed

lemma path_stack_clean: "path_stack (clean_path path) = path_stack path"
  unfolding clean_path_eq by (rule path_stack_of [OF path_stack_ok])

lemma clean_path_root: "clean_path path = ''/'' \<longleftrightarrow> path_stack path = []"
  by (simp only: clean_path_eq path_of_root path_stack_not_empty_part simp_thms)

lemma parent_of_parts:
  "xs \<noteq> [] \<Longrightarrow> (if length xs = 1 then ''/'' else CHR ''/'' # join ''/'' (butlast xs)) = path_of (butlast xs)"
  by (cases xs rule: rev_cases) (simp_all add: path_of_def)

lemma parent_name_eq:
  "parent_name path =
     (if path_stack path = [] then Inl Invalid
      else Inr (path_of (butlast (path_stack path)), last (path_stack path)))"
proof (cases "path_stack path = []")
  case True
  then show ?thesis by (simp only: parent_name_def Let_def clean_path_root if_True simp_thms)
next
  case False
  then show ?thesis
    by (simp only: parent_name_def Let_def clean_path_root split_path_eq path_stack_clean parent_of_parts [OF False] if_False)
qed

text \<open>C33. A cleaned path is canonical: it is absolute, has no empty, \<open>.\<close> or \<open>..\<close> component,
  and cleaning it again changes nothing; \<open>parent_name\<close> fails exactly for the root, and otherwise
  takes off the last component, so that joining parent and name gives the cleaned path back.\<close>

theorem parent_name_join:
  "clean_path (clean_path path) = clean_path path
   \<and> list_all (\<lambda>part. part \<noteq> [] \<and> part \<noteq> ''.'' \<and> part \<noteq> ''..'' \<and> CHR ''/'' \<notin> set part) (split_path path)
   \<and> (case parent_name path of
        Inl _ \<Rightarrow> clean_path path = ''/''
      | Inr (parent, name) \<Rightarrow>
          clean_path path \<noteq> ''/'' \<and> clean_path parent = parent \<and> split_path path = split_path parent @ [name]
          \<and> clean_path (parent @ ''/'' @ name) = clean_path path)"
proof -
  have ok: "\<forall>p \<in> set (path_stack path). part_ok p" by (rule path_stack_ok)
  have idem: "clean_path (clean_path path) = clean_path path"
    unfolding clean_path_eq by (simp add: path_stack_of [OF ok])
  show ?thesis
  proof (cases "path_stack path = []")
    case True
    then show ?thesis using idem by (simp add: parent_name_eq split_path_eq clean_path_eq)
  next
    case False
    define ini nm where "ini = butlast (path_stack path)" and "nm = last (path_stack path)"
    have st: "path_stack path = ini @ [nm]" using False by (simp add: ini_def nm_def)
    have oki: "\<forall>p \<in> set ini. part_ok p" "part_ok nm" using ok by (auto simp: st)
    have "path_stack (path_of ini @ ''/'' @ nm) = ini @ [nm]"
    proof -
      have nm: "split_on CHR ''/'' nm = [nm]" using oki(2) by (simp add: split_on_absent part_ok_def)
      have "split_on CHR ''/'' (path_of ini @ CHR ''/'' # nm) = split_on CHR ''/'' (path_of ini) @ [nm]"
        by (simp add: split_on_sep nm)
      moreover have "concat (map body_component (split_on CHR ''/'' (path_of ini))) = map Normal ini"
        using split_path_of [OF _ oki(1)] body_component_ok [OF oki(1)]
        by (cases "ini = []") (simp_all add: body_component_def path_of_def)
      ultimately have "components (path_of ini @ ''/'' @ nm) = RootDir # map Normal (ini @ [nm])"
        using oki(2) by (simp add: components_def) (simp add: path_of_def body_component_def part_ok_def)
      then show ?thesis by (simp add: path_stack_def fold_push)
    qed
    moreover have "ini @ [nm] \<noteq> [[]]" using oki(2) by (auto simp: part_ok_def append_eq_Cons_conv)
    ultimately show ?thesis
      using idem oki ok
      by (simp add: parent_name_eq split_path_eq clean_path_eq st path_stack_of part_ok_def list_all_iff)
  qed
qed

end
