(* ===== verification/Argos_Util.thy ===== *)
theory Argos_Util
  imports Argos_Path Argos_Types Argos_Bytes
begin

text \<open>
  Helpers of \<open>src/util.rs\<close> that several components share: content hashes, the bounded re-reading of
  a value until it validates, and the environment settings. The crates \<open>blake3\<close> and \<open>sha2\<close>
  (with \<open>hex\<close>) are the parameter \<open>hs\<close>; the environment variables are arguments.
\<close>

section \<open>Definitions\<close>

record hashes =
  hs_blake3_hex :: "8 word list \<Rightarrow> string"
  hs_sha256_hex :: "8 word list \<Rightarrow> string"

definition content_hash_hex :: "hashes \<Rightarrow> 8 word list \<Rightarrow> string" where
  "content_hash_hex hs data = hs_blake3_hex hs data"

definition content_hash_matches :: "hashes \<Rightarrow> 8 word list \<Rightarrow> string \<Rightarrow> bool" where
  "content_hash_matches hs data expected \<longleftrightarrow>
     content_hash_hex hs data = expected \<or> hs_sha256_hex hs data = expected"

definition MAX_READ_RETRIES :: nat where "MAX_READ_RETRIES = 10"

definition env_flag :: "string option \<Rightarrow> bool" where
  "env_flag value =
     (case map_option trim value of
        Some v \<Rightarrow> v \<noteq> [] \<and> to_ascii_lowercase v \<notin> {''0'', ''false'', ''no'', ''off''}
      | None \<Rightarrow> False)"

definition env_usize :: "string option \<Rightarrow> nat \<Rightarrow> nat option" where
  "env_usize value maximum =
     map_option (\<lambda>v. min v maximum) (Option.bind value (\<lambda>v. parse_uint u64_max (trim v)))"

definition configured_read_retries :: "string option \<Rightarrow> string option \<Rightarrow> nat" where
  "configured_read_retries retries_var usb_var =
     (case env_usize retries_var MAX_READ_RETRIES of
        Some n \<Rightarrow> n
      | None \<Rightarrow> (if env_flag usb_var then 1 else 0))"

text \<open>\<open>retry_verified\<close>: the loop over the remaining attempts; \<open>read\<close> is what each attempt returns.\<close>

fun retry_loop :: "nat \<Rightarrow> nat \<Rightarrow> (nat \<Rightarrow> 'e + 'a) \<Rightarrow> ('a \<Rightarrow> bool) \<Rightarrow> 'e + ('a option \<times> nat)" where
  "retry_loop attempts 0 read valid = Inr (None, attempts)"
| "retry_loop attempts (Suc left) read valid =
     rbind (read (attempts - Suc left)) (\<lambda>value.
       if valid value then Inr (Some value, attempts - left)
       else retry_loop attempts left read valid)"

definition retry_verified :: "nat \<Rightarrow> (nat \<Rightarrow> 'e + 'a) \<Rightarrow> ('a \<Rightarrow> bool) \<Rightarrow> 'e + ('a option \<times> nat)" where
  "retry_verified attempts read valid = (let attempts = max attempts 1 in retry_loop attempts attempts read valid)"

text \<open>\<open>Path::join\<close> with a relative component.\<close>

definition path_join :: "string \<Rightarrow> string \<Rightarrow> string" where
  "path_join base part =
     (if part \<noteq> [] \<and> hd part = CHR ''/'' then part
      else if base = [] \<or> last base = CHR ''/'' then base @ part
      else base @ ''/'' @ part)"

section \<open>Lemmas\<close>

lemma configured_read_retries_bound: "configured_read_retries r u \<le> MAX_READ_RETRIES"
  by (auto simp: configured_read_retries_def env_usize_def MAX_READ_RETRIES_def split: option.splits)

text \<open>The result of the loop is decided by the first attempt that fails or validates.\<close>

lemma retry_loop_result:
  assumes "left \<le> attempts"
  shows "retry_loop attempts left read valid =
    (case find (\<lambda>i. case read i of Inl _ \<Rightarrow> True | Inr v \<Rightarrow> valid v) [attempts - left..<attempts] of
       None \<Rightarrow> Inr (None, attempts)
     | Some i \<Rightarrow> (case read i of Inl e \<Rightarrow> Inl e | Inr v \<Rightarrow> Inr (Some v, Suc i)))"
  using assms
proof (induction left)
  case (Suc left)
  let ?i = "attempts - Suc left"
  have range: "[?i..<attempts] = ?i # [attempts - left..<attempts]"
    using Suc.prems by (subst upt_conv_Cons) (simp_all add: Suc_diff_Suc)
  have next_i: "attempts - left = Suc ?i" using Suc.prems by simp
  show ?case
    by (cases "read ?i") (use Suc in \<open>simp_all add: range next_i\<close>)
qed simp

lemma retry_verified_valid:
  assumes "retry_verified attempts read valid = Inr (Some v, n)"
  shows "valid v \<and> n \<le> max attempts 1 \<and> 0 < n \<and> read (n - 1) = Inr v"
proof -
  let ?n = "max attempts 1"
  let ?stop = "\<lambda>i. case read i of Inl _ \<Rightarrow> True | Inr v \<Rightarrow> valid v"
  have "retry_loop ?n ?n read valid = Inr (Some v, n)" using assms by (simp add: retry_verified_def Let_def)
  then obtain i where i: "find ?stop [0..<?n] = Some i" "read i = Inr v" "n = Suc i"
    by (subst (asm) retry_loop_result) (auto split: option.splits sum.splits)
  then have "?stop i" "i \<in> set [0..<?n]" by (auto simp: find_Some_iff)
  then show ?thesis using i by auto
qed

end
