(* ===== verification/Argos_Cache.thy ===== *)
theory Argos_Cache
  imports Argos_Util
begin

text \<open>
  \<open>src/data/cache.rs\<close>: the block cache, a memory level in order of last use and an on-disk level
  (\<open>L2\<close>) of files named after the hash of their key. The files of the on-disk level are the field
  \<open>bc_files\<close>; what the operating system may do in one call (a read, replacement or removal that
  fails, the modification times) is the argument \<open>env\<close>.
\<close>

section \<open>State\<close>

record l2_entry =
  l2_size :: nat
  l2_touched :: nat

record cache_inner =
  ca_bytes :: nat
  ca_items :: "(string, 8 word list) btree"
  ca_order :: "string list"
  ca_l2_loaded :: bool
  ca_l2_bytes :: nat
  ca_l2_index :: "(string, l2_entry) btree"
  ca_l2_clock :: nat
  ca_hits :: nat
  ca_misses :: nat
  ca_l2_hits :: nat
  ca_l2_writes :: nat
  ca_l2_errors :: nat

record block_cache =
  bc_root :: string
  bc_memory_limit :: nat
  bc_l2_limit :: nat
  bc_inner :: cache_inner
  bc_files :: "(string, 8 word list) btree"

text \<open>\<open>atomic_write\<close> replaces the file and may then still fail to synchronise its directory.\<close>

datatype write_outcome = Written | NotWritten | WrittenUnsynced

record cache_env =
  ce_read :: "string \<Rightarrow> bool"
  ce_write :: write_outcome
  ce_remove :: "string \<Rightarrow> bool"
  ce_modified :: "string \<Rightarrow> nat"

definition cache_inner_default :: cache_inner where
  "cache_inner_default = \<lparr>ca_bytes = 0, ca_items = [], ca_order = [], ca_l2_loaded = False, ca_l2_bytes = 0,
     ca_l2_index = [], ca_l2_clock = 0, ca_hits = 0, ca_misses = 0, ca_l2_hits = 0, ca_l2_writes = 0,
     ca_l2_errors = 0\<rparr>"

definition resolve_l2_limit :: "nat \<Rightarrow> string option \<Rightarrow> string option \<Rightarrow> nat" where
  "resolve_l2_limit default_limit disable_override size_override =
     (if disable_override \<noteq> None then 0
      else case Option.bind size_override (parse_uint u64_max) of Some n \<Rightarrow> n | None \<Rightarrow> default_limit)"

definition cache_new ::
  "string \<Rightarrow> nat \<Rightarrow> nat \<Rightarrow> string option \<Rightarrow> string option \<Rightarrow> (string, 8 word list) btree \<Rightarrow> block_cache" where
  "cache_new dir memory_limit l2_limit disable_var size_var files =
     \<lparr>bc_root = dir, bc_memory_limit = memory_limit,
      bc_l2_limit = resolve_l2_limit l2_limit disable_var size_var,
      bc_inner = cache_inner_default, bc_files = files\<rparr>"

section \<open>The memory level\<close>

text \<open>\<open>order.retain(|candidate| candidate != key)\<close>\<close>

definition forget :: "string \<Rightarrow> string list \<Rightarrow> string list" where
  "forget key order = filter (\<lambda>candidate. candidate \<noteq> key) order"

text \<open>Taking a key out of the items, the byte count and the order.\<close>

definition drop_item :: "string \<Rightarrow> cache_inner \<Rightarrow> cache_inner" where
  "drop_item key inner =
     (case map_of (ca_items inner) key of
        Some old \<Rightarrow> inner\<lparr>ca_items := bt_remove key (ca_items inner),
                          ca_bytes := ca_bytes inner - length old,
                          ca_order := forget key (ca_order inner)\<rparr>
      | None \<Rightarrow> inner)"

text \<open>\<open>while inner.bytes > memory_limit\<close>: the oldest key of the order goes first.\<close>

fun evict :: "nat \<Rightarrow> string list \<Rightarrow> cache_inner \<Rightarrow> cache_inner" where
  "evict limit [] inner = inner\<lparr>ca_order := []\<rparr>"
| "evict limit (oldest # rest) inner =
     (if ca_bytes inner > limit
      then evict limit rest
             (case map_of (ca_items inner) oldest of
                Some value \<Rightarrow> inner\<lparr>ca_items := bt_remove oldest (ca_items inner),
                                    ca_bytes := ca_bytes inner - length value\<rparr>
              | None \<Rightarrow> inner)
      else inner\<lparr>ca_order := oldest # rest\<rparr>)"

definition put_memory_only_locked :: "nat \<Rightarrow> string \<Rightarrow> 8 word list \<Rightarrow> cache_inner \<Rightarrow> cache_inner" where
  "put_memory_only_locked memory_limit key data inner =
     (if memory_limit = 0 then inner
      else let i1 = drop_item key inner;
               i2 = i1\<lparr>ca_items := bt_insert key data (ca_items i1),
                       ca_order := ca_order i1 @ [key],
                       ca_bytes := wrap_add (ca_bytes i1) (length data)\<rparr>
           in evict memory_limit (ca_order i2) i2)"

section \<open>The on-disk level\<close>

definition l2_path :: "hashes \<Rightarrow> block_cache \<Rightarrow> string \<Rightarrow> string" where
  "l2_path hs c key =
     (let digest = hs_sha256_hex hs (str_bytes key)
      in path_join (path_join (bc_root c) (take 2 digest)) (digest @ ''.blk''))"

text \<open>\<open>sort_by\<close> on (time, path); paths compare by their components.\<close>

definition l2_sort :: "(nat \<times> string \<times> nat) list \<Rightarrow> (nat \<times> string \<times> nat) list" where
  "l2_sort files = sort_key (\<lambda>(t, path, _). t) (sort_key (\<lambda>(_, path, _). split_on CHR ''/'' path) files)"

fun index_files :: "(nat \<times> string \<times> nat) list \<Rightarrow> (string, l2_entry) btree \<times> nat \<times> nat
    \<Rightarrow> (string, l2_entry) btree \<times> nat \<times> nat" where
  "index_files [] acc = acc"
| "index_files ((_, path, sz) # files) (index, total_bytes, clock) =
     index_files files
       (bt_insert path \<lparr>l2_size = sz, l2_touched = sat_add clock 1\<rparr> index, sat_add total_bytes sz, sat_add clock 1)"

definition load_l2_index :: "cache_env \<Rightarrow> block_cache \<Rightarrow> block_cache" where
  "load_l2_index env c =
     (if ca_l2_loaded (bc_inner c) then c
      else let files = l2_sort (map (\<lambda>(path, bytes). (ce_modified env path, path, length bytes)) (bc_files c));
               (index, total_bytes, clock) = index_files files ([], 0, 0)
           in c\<lparr>bc_inner := (bc_inner c)\<lparr>ca_l2_loaded := True, ca_l2_index := index,
                 ca_l2_bytes := total_bytes, ca_l2_clock := max clock (ca_l2_clock (bc_inner c))\<rparr>\<rparr>)"

text \<open>Dropping a path from the index and the byte count.\<close>

definition unindex :: "string \<Rightarrow> cache_inner \<Rightarrow> cache_inner" where
  "unindex path inner =
     (case map_of (ca_l2_index inner) path of
        Some entry \<Rightarrow> inner\<lparr>ca_l2_index := bt_remove path (ca_l2_index inner),
                            ca_l2_bytes := ca_l2_bytes inner - l2_size entry\<rparr>
      | None \<Rightarrow> inner)"

text \<open>\<open>fs::remove_file\<close>: the file system afterwards, and whether the file is gone.\<close>

definition remove_file :: "cache_env \<Rightarrow> string \<Rightarrow> (string, 8 word list) btree \<Rightarrow> (string, 8 word list) btree \<times> bool" where
  "remove_file env path files =
     (if bt_contains path files
      then if ce_remove env path then (bt_remove path files, True) else (files, False)
      else (files, True))"

fun prune_loop :: "cache_env \<Rightarrow> (nat \<times> string \<times> nat) list \<Rightarrow> block_cache \<Rightarrow> block_cache \<times> unit result" where
  "prune_loop env [] c = (c, Inr ())"
| "prune_loop env ((_, path, len) # files) c =
     (if ca_l2_bytes (bc_inner c) \<le> bc_l2_limit c then (c, Inr ())
      else case remove_file env path (bc_files c) of
             (remaining, True) \<Rightarrow>
               prune_loop env files
                 (c\<lparr>bc_files := remaining,
                    bc_inner := (bc_inner c)\<lparr>ca_l2_bytes := ca_l2_bytes (bc_inner c) - len,
                                             ca_l2_index := bt_remove path (ca_l2_index (bc_inner c))\<rparr>\<rparr>)
           | (remaining, False) \<Rightarrow> (c\<lparr>bc_files := remaining\<rparr>, Inl (Io None)))"

definition prune_l2 :: "cache_env \<Rightarrow> block_cache \<Rightarrow> block_cache \<times> unit result" where
  "prune_l2 env c0 =
     (let c = load_l2_index env c0
      in if ca_l2_bytes (bc_inner c) \<le> bc_l2_limit c then (c, Inr ())
         else prune_loop env
                (l2_sort (map (\<lambda>(path, entry). (l2_touched entry, path, l2_size entry)) (ca_l2_index (bc_inner c)))) c)"

definition put_l2 :: "hashes \<Rightarrow> cache_env \<Rightarrow> string \<Rightarrow> 8 word list \<Rightarrow> block_cache \<Rightarrow> block_cache \<times> unit result" where
  "put_l2 hs env key data c0 =
     (let c = load_l2_index env c0; path = l2_path hs c key
      in case ce_write env of
           NotWritten \<Rightarrow> (c, Inl (Io None))
         | WrittenUnsynced \<Rightarrow> (c\<lparr>bc_files := bt_insert path data (bc_files c)\<rparr>, Inl (Io None))
         | Written \<Rightarrow>
             let inner = bc_inner c;
                 touched = sat_add (ca_l2_clock inner) 1;
                 old_size = (case map_of (ca_l2_index inner) path of Some old \<Rightarrow> l2_size old | None \<Rightarrow> 0)
             in prune_l2 env
                  (c\<lparr>bc_files := bt_insert path data (bc_files c),
                     bc_inner := inner\<lparr>ca_l2_clock := touched,
                       ca_l2_index := bt_insert path \<lparr>l2_size = length data, l2_touched = touched\<rparr> (ca_l2_index inner),
                       ca_l2_bytes := sat_add (ca_l2_bytes inner - old_size) (length data),
                       ca_l2_writes := wrap_add (ca_l2_writes inner) 1\<rparr>\<rparr>))"

section \<open>The operations\<close>

definition hash_expected :: "hashes \<Rightarrow> string option \<Rightarrow> 8 word list \<Rightarrow> bool" where
  "hash_expected hs expected value =
     (case expected of Some sha \<Rightarrow> content_hash_matches hs value sha | None \<Rightarrow> True)"

definition get_l2 :: "hashes \<Rightarrow> cache_env \<Rightarrow> string \<Rightarrow> string option \<Rightarrow> block_cache \<Rightarrow> block_cache \<times> 8 word list option" where
  "get_l2 hs env key expected_sha c0 =
     (let c = load_l2_index env c0; path = l2_path hs c key; inner = bc_inner c
      in case (if ce_read env path then map_of (bc_files c) path else None) of
           None \<Rightarrow> (c, None)
         | Some value \<Rightarrow>
             if hash_expected hs expected_sha value
             then let touched = sat_add (ca_l2_clock inner) 1;
                      inner1 = inner\<lparr>ca_l2_hits := wrap_add (ca_l2_hits inner) 1, ca_l2_clock := touched,
                        ca_l2_index := bt_update path (\<lambda>entry. entry\<lparr>l2_touched := touched\<rparr>) (ca_l2_index inner)\<rparr>
                  in (c\<lparr>bc_inner := put_memory_only_locked (bc_memory_limit c) key value inner1\<rparr>, Some value)
             else (c\<lparr>bc_files := fst (remove_file env path (bc_files c)), bc_inner := unindex path inner\<rparr>, None))"

definition cache_get :: "hashes \<Rightarrow> cache_env \<Rightarrow> string \<Rightarrow> string option \<Rightarrow> block_cache \<Rightarrow> block_cache \<times> 8 word list option" where
  "cache_get hs env key expected_sha c =
     (let inner = bc_inner c;
          miss = (\<lambda>c1.
            case (if bc_l2_limit c1 > 0 then get_l2 hs env key expected_sha c1 else (c1, None)) of
              (c2, Some value) \<Rightarrow> (c2, Some value)
            | (c2, None) \<Rightarrow>
                (c2\<lparr>bc_inner := (bc_inner c2)\<lparr>ca_misses := wrap_add (ca_misses (bc_inner c2)) 1\<rparr>\<rparr>, None))
      in case map_of (ca_items inner) key of
           Some value \<Rightarrow>
             if hash_expected hs expected_sha value
             then (c\<lparr>bc_inner := inner\<lparr>ca_hits := wrap_add (ca_hits inner) 1,
                       ca_order := forget key (ca_order inner) @ [key]\<rparr>\<rparr>, Some value)
             else miss (c\<lparr>bc_inner := drop_item key inner\<rparr>)
         | None \<Rightarrow> miss c)"

definition cache_put :: "hashes \<Rightarrow> cache_env \<Rightarrow> string \<Rightarrow> 8 word list \<Rightarrow> block_cache \<Rightarrow> block_cache" where
  "cache_put hs env key data c =
     (let c1 = c\<lparr>bc_inner := put_memory_only_locked (bc_memory_limit c) key data (bc_inner c)\<rparr>
      in if bc_l2_limit c1 > 0
         then case put_l2 hs env key data c1 of
                (c2, Inr _) \<Rightarrow> c2
              | (c2, Inl _) \<Rightarrow>
                  c2\<lparr>bc_inner := (bc_inner c2)\<lparr>ca_l2_errors := sat_add (ca_l2_errors (bc_inner c2)) 1\<rparr>\<rparr>
         else c1)"

definition invalidate_prefix :: "string \<Rightarrow> block_cache \<Rightarrow> block_cache" where
  "invalidate_prefix prefix c =
     (let keys = filter (\<lambda>key. take (length prefix) key = prefix) (map fst (ca_items (bc_inner c)))
      in c\<lparr>bc_inner := fold drop_item keys (bc_inner c)\<rparr>)"

definition cache_remove :: "hashes \<Rightarrow> cache_env \<Rightarrow> string \<Rightarrow> block_cache \<Rightarrow> block_cache" where
  "cache_remove hs env key c =
     (let inner = drop_item key (bc_inner c);
          inner1 = inner\<lparr>ca_order := forget key (ca_order inner)\<rparr>;
          c1 = c\<lparr>bc_inner := inner1\<rparr>
      in if bc_l2_limit c1 > 0
         then let path = l2_path hs c1 key
              in c1\<lparr>bc_files := fst (remove_file env path (bc_files c1)), bc_inner := unindex path inner1\<rparr>
         else c1)"

definition hit_ratio :: "cache_inner \<Rightarrow> rat" where
  "hit_ratio inner =
     (let total_gets = wrap_add (wrap_add (ca_hits inner) (ca_misses inner)) (ca_l2_hits inner)
      in if total_gets = 0 then 0 else of_nat (wrap_add (ca_hits inner) (ca_l2_hits inner)) / of_nat total_gets)"

section \<open>Lemmas\<close>

text \<open>The bytes the items hold.\<close>

definition weight :: "(string, 8 word list) btree \<Rightarrow> nat" where
  "weight items = sum_list (map (\<lambda>(_, value). length value) items)"

definition mem_ok :: "cache_inner \<Rightarrow> bool" where
  "mem_ok inner \<longleftrightarrow> bt_ok (ca_items inner) \<and> distinct (ca_order inner)
     \<and> set (ca_order inner) = fst ` set (ca_items inner) \<and> ca_bytes inner = weight (ca_items inner)"

lemma weight_remove:
  assumes "bt_ok m" "map_of m k = Some v"
  shows "weight m = weight (bt_remove k m) + length v"
  using assms
proof (induction m)
  case (Cons x m)
  obtain k' v' where x: "x = (k', v')" by fastforce
  show ?case
  proof (cases "k' = k")
    case True
    then have "bt_remove k m = m"
      using Cons.prems(1) x by (auto simp: bt_remove_def bt_ok_Cons intro!: filter_True)
    then show ?thesis using Cons.prems(2) x True by (simp add: weight_def bt_remove_def)
  next
    case False
    then have "weight m = weight (bt_remove k m) + length v"
      using Cons x by (auto simp: bt_ok_Cons)
    then show ?thesis using x False by (simp add: weight_def bt_remove_def)
  qed
qed simp

lemma weight_insert_new:
  assumes "map_of m k = None"
  shows "weight (bt_insert k v m) = weight m + length v"
  using assms
proof (induction k v m rule: bt_insert.induct)
  case (2 k v k' v' m)
  then show ?case by (auto simp: weight_def split: if_splits)
qed (simp add: weight_def)

lemma fst_bt_remove: "fst ` set (bt_remove k m) = fst ` set m - {k}"
  by (auto simp: bt_remove_def image_iff)

lemma map_of_None_keys: "map_of m k = None \<longleftrightarrow> k \<notin> fst ` set m"
  by (simp add: map_of_eq_None_iff)

lemma drop_item_ok: "mem_ok inner \<Longrightarrow> mem_ok (drop_item key inner)"
  by (auto simp: mem_ok_def drop_item_def forget_def fst_bt_remove weight_remove [of _ key] split: option.split)

lemma drop_item_items [simp]: "ca_items (drop_item key inner) = bt_remove key (ca_items inner)"
proof (cases "map_of (ca_items inner) key")
  case None
  then have "bt_remove key (ca_items inner) = ca_items inner"
    by (force simp: bt_remove_def map_of_eq_None_iff intro!: filter_True)
  then show ?thesis using None by (simp add: drop_item_def)
qed (simp add: drop_item_def)

lemma drop_item_order: "mem_ok inner \<Longrightarrow> ca_order (drop_item key inner) = forget key (ca_order inner)"
  by (auto simp: drop_item_def forget_def mem_ok_def map_of_eq_None_iff split: option.split intro!: filter_True [symmetric])

lemma drop_item_bytes: "ca_bytes (drop_item key inner) \<le> ca_bytes inner"
  by (auto simp: drop_item_def split: option.split)

text \<open>The reference for eviction: the longest suffix of the use order whose values fit the limit.\<close>

definition span_bytes :: "(string, 8 word list) btree \<Rightarrow> string list \<Rightarrow> nat" where
  "span_bytes items keys = sum_list (map (\<lambda>k. case map_of items k of Some v \<Rightarrow> length v | None \<Rightarrow> 0) keys)"

fun fitting :: "nat \<Rightarrow> (string, 8 word list) btree \<Rightarrow> string list \<Rightarrow> string list" where
  "fitting limit items [] = []"
| "fitting limit items (k # ks) = (if span_bytes items (k # ks) \<le> limit then k # ks else fitting limit items ks)"

definition restrict_items :: "string list \<Rightarrow> (string, 8 word list) btree \<Rightarrow> (string, 8 word list) btree" where
  "restrict_items keys items = filter (\<lambda>(k, _). k \<in> set keys) items"

lemma span_weight:
  assumes "bt_ok items" "distinct order" "set order = fst ` set items"
  shows "span_bytes items order = weight items"
  using assms
proof (induction order arbitrary: items)
  case Nil
  then show ?case by (simp add: span_bytes_def weight_def)
next
  case (Cons k ks)
  then obtain v where v: "map_of items k = Some v" by (cases "map_of items k") (auto simp: map_of_eq_None_iff)
  have "span_bytes (bt_remove k items) ks = weight (bt_remove k items)"
    using Cons.prems by (intro Cons.IH) (auto simp: fst_bt_remove)
  moreover have "span_bytes (bt_remove k items) ks = span_bytes items ks"
    using Cons.prems(2) unfolding span_bytes_def by (intro arg_cong [where f = sum_list] map_cong) auto
  ultimately show ?case
    using weight_remove [OF Cons.prems(1) v] v by (simp add: span_bytes_def)
qed

lemma evict_eq:
  assumes "bt_ok (ca_items inner)" "distinct order" "set order = fst ` set (ca_items inner)"
    "ca_bytes inner = weight (ca_items inner)"
  shows "evict limit order inner =
    inner\<lparr>ca_items := restrict_items (fitting limit (ca_items inner) order) (ca_items inner),
          ca_order := fitting limit (ca_items inner) order,
          ca_bytes := span_bytes (ca_items inner) (fitting limit (ca_items inner) order)\<rparr>"
  using assms
proof (induction limit order inner rule: evict.induct)
  case (1 limit inner)
  then show ?case by (simp add: restrict_items_def span_bytes_def weight_def)
next
  case (2 limit oldest rest inner)
  let ?items = "ca_items inner"
  have whole: "span_bytes ?items (oldest # rest) = ca_bytes inner" using 2 by (simp only: span_weight)
  show ?case
  proof (cases "ca_bytes inner > limit")
    case False
    have "restrict_items (oldest # rest) ?items = ?items"
      unfolding restrict_items_def 2(4) by (rule filter_True) (auto simp: rev_image_eqI)
    moreover have "fitting limit ?items (oldest # rest) = oldest # rest" using False whole by simp
    ultimately show ?thesis using False whole by simp
  next
    case True
    obtain v where v: "map_of ?items oldest = Some v"
      using 2(4) by (cases "map_of ?items oldest") (auto simp: map_of_eq_None_iff)
    let ?next = "inner\<lparr>ca_items := bt_remove oldest ?items, ca_bytes := ca_bytes inner - length v\<rparr>"
    have notin: "oldest \<notin> set rest" using 2(3) by simp
    have span_rest: "span_bytes (bt_remove oldest ?items) ks = span_bytes ?items ks" if "set ks \<subseteq> set rest" for ks
      using that notin unfolding span_bytes_def by (intro arg_cong [where f = sum_list] map_cong) auto
    have fit: "set ks \<subseteq> set rest \<Longrightarrow> fitting limit (bt_remove oldest ?items) ks = fitting limit ?items ks" for ks
      by (induction ks) (auto simp: span_rest)
    have sub: "set (fitting limit items ks) \<subseteq> set ks" for items ks by (induction ks) auto
    have rest: "restrict_items (fitting limit ?items rest) (bt_remove oldest ?items)
                = restrict_items (fitting limit ?items rest) ?items"
      unfolding restrict_items_def bt_remove_def filter_filter
      by (rule filter_cong [OF refl]) (use sub [of ?items rest] notin in auto)
    have "evict limit rest ?next =
      ?next\<lparr>ca_items := restrict_items (fitting limit (ca_items ?next) rest) (ca_items ?next),
            ca_order := fitting limit (ca_items ?next) rest,
            ca_bytes := span_bytes (ca_items ?next) (fitting limit (ca_items ?next) rest)\<rparr>"
    proof (rule 2(1) [OF True, unfolded v option.case])
      show "bt_ok (ca_items ?next)" "distinct rest" using 2(2,3) by simp_all
      show "set rest = fst ` set (ca_items ?next)" using 2(3,4) by (auto simp: fst_bt_remove)
      show "ca_bytes ?next = weight (ca_items ?next)" using weight_remove [OF 2(2) v] 2(5) by simp
    qed
    also have "\<dots> = inner\<lparr>ca_items := restrict_items (fitting limit ?items rest) ?items,
        ca_order := fitting limit ?items rest, ca_bytes := span_bytes ?items (fitting limit ?items rest)\<rparr>"
      by (simp add: fit rest span_rest sub)
    finally have step: "evict limit rest ?next = \<dots>" .
    have "fitting limit ?items (oldest # rest) = fitting limit ?items rest" using True whole by simp
    moreover have "evict limit (oldest # rest) inner = evict limit rest ?next" by (simp add: True v)
    ultimately show ?thesis by (simp only: step)
  qed
qed

lemma fitting_suffix: "\<exists>older. ks = older @ fitting limit items ks"
proof (induction ks)
  case (Cons k ks)
  then obtain older where "ks = older @ fitting limit items ks" by blast
  then have "k # ks = (k # older) @ fitting limit items ks" by simp
  then show ?case by (metis append_Nil fitting.simps(2))
qed simp

lemma fitting_span: "span_bytes items (fitting limit items ks) \<le> limit"
  by (induction ks) (auto simp: span_bytes_def)

lemma set_fitting: "set (fitting limit items ks) \<subseteq> set ks"
  by (induction ks) auto

lemma restrict_items_keys: "set keys \<subseteq> fst ` set items \<Longrightarrow> fst ` set (restrict_items keys items) = set keys"
  by (force simp: restrict_items_def)

lemma map_of_restrict_items: "map_of (restrict_items keys items) k = (if k \<in> set keys then map_of items k else None)"
  by (induction items) (auto simp: restrict_items_def)

lemma evict_ok:
  assumes "mem_ok inner" "ca_order inner = order"
  shows "mem_ok (evict limit order inner) \<and> ca_bytes (evict limit order inner) \<le> limit"
proof -
  let ?keep = "fitting limit (ca_items inner) order"
  note inv = assms(1) [unfolded mem_ok_def assms(2)]
  have eq: "evict limit order inner = inner\<lparr>ca_items := restrict_items ?keep (ca_items inner), ca_order := ?keep,
      ca_bytes := span_bytes (ca_items inner) ?keep\<rparr>"
    by (rule evict_eq) (use inv in simp_all)
  have keys: "fst ` set (restrict_items ?keep (ca_items inner)) = set ?keep"
    by (rule restrict_items_keys) (use inv set_fitting in blast)
  have ok: "bt_ok (restrict_items ?keep (ca_items inner))" using inv by (simp add: restrict_items_def bt_ok_filter)
  obtain older where "order = older @ ?keep" using fitting_suffix by blast
  then have dist: "distinct ?keep" using inv by (metis distinct_append)
  have "span_bytes (ca_items inner) ?keep = span_bytes (restrict_items ?keep (ca_items inner)) ?keep"
    unfolding span_bytes_def by (intro arg_cong [where f = sum_list] map_cong) (simp_all add: map_of_restrict_items)
  also have "\<dots> = weight (restrict_items ?keep (ca_items inner))" by (rule span_weight [OF ok dist]) (simp add: keys)
  finally have bytes: "span_bytes (ca_items inner) ?keep = weight (restrict_items ?keep (ca_items inner))" .
  show ?thesis
    by (simp add: eq mem_ok_def ok dist keys fitting_span) (rule bytes)
qed

text \<open>The cache before the eviction of a put.\<close>

definition with_item :: "string \<Rightarrow> 8 word list \<Rightarrow> cache_inner \<Rightarrow> cache_inner" where
  "with_item key data inner =
     (let i1 = drop_item key inner
      in i1\<lparr>ca_items := bt_insert key data (ca_items i1), ca_order := ca_order i1 @ [key],
            ca_bytes := wrap_add (ca_bytes i1) (length data)\<rparr>)"

lemma put_memory_eq:
  "memory_limit \<noteq> 0 \<Longrightarrow> put_memory_only_locked memory_limit key data inner
     = evict memory_limit (ca_order (with_item key data inner)) (with_item key data inner)"
  by (simp add: put_memory_only_locked_def with_item_def Let_def)

lemma with_item_ok:
  assumes "mem_ok inner" "ca_bytes inner + length data \<le> u64_max"
  shows "mem_ok (with_item key data inner)"
proof -
  let ?i1 = "drop_item key inner"
  have ok: "mem_ok ?i1" by (rule drop_item_ok [OF assms(1)])
  have new: "map_of (ca_items ?i1) key = None" by simp
  have "ca_bytes ?i1 + length data \<le> u64_max" using drop_item_bytes [of key inner] assms(2) by linarith
  then have "wrap_add (ca_bytes ?i1) (length data) = weight (bt_insert key data (ca_items ?i1))"
    using ok by (simp add: wrap_add_eq weight_insert_new mem_ok_def)
  then show ?thesis
    using ok by (auto simp: mem_ok_def with_item_def Let_def set_bt_insert drop_item_order [OF assms(1)] forget_def fst_bt_remove)
qed

text \<open>What holds of the memory level between two calls.\<close>

definition cache_ok :: "block_cache \<Rightarrow> bool" where
  "cache_ok c \<longleftrightarrow> mem_ok (bc_inner c) \<and> ca_bytes (bc_inner c) \<le> bc_memory_limit c
     \<and> (bc_memory_limit c = 0 \<longrightarrow> ca_items (bc_inner c) = [])"

text \<open>The memory part of the state, which the on-disk level does not touch.\<close>

definition mem_part :: "block_cache \<Rightarrow> nat \<times> (string, 8 word list) btree \<times> string list \<times> nat" where
  "mem_part c = (ca_bytes (bc_inner c), ca_items (bc_inner c), ca_order (bc_inner c), bc_memory_limit c)"

lemma cache_ok_mem_part: "mem_part c = mem_part c' \<Longrightarrow> cache_ok c = cache_ok c'"
  by (simp add: mem_part_def cache_ok_def mem_ok_def)

lemma load_l2_index_simps [simp]:
  "ca_bytes (bc_inner (load_l2_index env c)) = ca_bytes (bc_inner c)"
  "ca_items (bc_inner (load_l2_index env c)) = ca_items (bc_inner c)"
  "ca_order (bc_inner (load_l2_index env c)) = ca_order (bc_inner c)"
  "bc_memory_limit (load_l2_index env c) = bc_memory_limit c" "bc_l2_limit (load_l2_index env c) = bc_l2_limit c"
  "bc_files (load_l2_index env c) = bc_files c" "bc_root (load_l2_index env c) = bc_root c"
  by (simp_all add: load_l2_index_def Let_def split_beta)

lemma mem_part_prune_loop: "mem_part (fst (prune_loop env files c)) = mem_part c"
  by (induction env files c rule: prune_loop.induct) (auto simp: mem_part_def split: prod.split bool.split)

lemma mem_part_prune: "mem_part (fst (prune_l2 env c)) = mem_part c"
  by (simp add: prune_l2_def Let_def mem_part_prune_loop) (simp add: mem_part_def)

lemma mem_part_put_l2: "mem_part (fst (put_l2 hs env key data c)) = mem_part c"
  by (auto simp: put_l2_def Let_def mem_part_prune split: write_outcome.split) (auto simp: mem_part_def)

lemma put_memory_ok:
  assumes "mem_ok inner" "ca_bytes inner \<le> limit" "limit = 0 \<longrightarrow> ca_items inner = []" "limit + length data \<le> u64_max"
  shows "mem_ok (put_memory_only_locked limit key data inner)
    \<and> ca_bytes (put_memory_only_locked limit key data inner) \<le> limit
    \<and> (limit = 0 \<longrightarrow> ca_items (put_memory_only_locked limit key data inner) = [])"
proof (cases "limit = 0")
  case False
  have "mem_ok (with_item key data inner)" using assms by (intro with_item_ok) simp_all
  from evict_ok [OF this refl] show ?thesis using False by (simp add: put_memory_eq)
qed (use assms in \<open>simp add: put_memory_only_locked_def\<close>)

lemma cache_put_ok:
  assumes "cache_ok c" "bc_memory_limit c + length data \<le> u64_max"
  shows "cache_ok (cache_put hs env key data c)"
proof -
  let ?c1 = "c\<lparr>bc_inner := put_memory_only_locked (bc_memory_limit c) key data (bc_inner c)\<rparr>"
  have c1: "cache_ok ?c1" using put_memory_ok [of "bc_inner c" "bc_memory_limit c" data key] assms by (simp add: cache_ok_def)
  have "mem_part (cache_put hs env key data c) = mem_part ?c1"
    using mem_part_put_l2 [of hs env key data ?c1]
    by (auto simp: cache_put_def Let_def mem_part_def split: prod.split sum.split)
  with c1 show ?thesis using cache_ok_mem_part by blast
qed

lemma mem_ok_counters [simp]:
  "mem_ok (inner\<lparr>ca_hits := a\<rparr>) = mem_ok inner" "mem_ok (inner\<lparr>ca_misses := a\<rparr>) = mem_ok inner"
  "mem_ok (inner\<lparr>ca_l2_hits := a\<rparr>) = mem_ok inner" "mem_ok (inner\<lparr>ca_l2_clock := a\<rparr>) = mem_ok inner"
  "mem_ok (inner\<lparr>ca_l2_index := ix\<rparr>) = mem_ok inner"
  by (simp_all add: mem_ok_def)

text \<open>A file of the on-disk level is small enough to be kept in memory beside the rest.\<close>

definition files_bounded :: "block_cache \<Rightarrow> bool" where
  "files_bounded c \<longleftrightarrow> (\<forall>path value. map_of (bc_files c) path = Some value \<longrightarrow> bc_memory_limit c + length value \<le> u64_max)"

lemma get_l2_ok:
  assumes "cache_ok c" "files_bounded c"
  shows "cache_ok (fst (get_l2 hs env key expected c))"
proof -
  define c1 where "c1 = load_l2_index env c"
  have ok: "cache_ok c1" using assms(1) by (simp add: cache_ok_def mem_ok_def c1_def)
  have lim: "bc_memory_limit c1 + length val \<le> u64_max" if "map_of (bc_files c1) path = Some val" for path val
    using that assms(2) by (simp add: c1_def files_bounded_def)
  have hit: "cache_ok (c1\<lparr>bc_inner := put_memory_only_locked (bc_memory_limit c1) key val
      ((bc_inner c1)\<lparr>ca_l2_hits := a, ca_l2_clock := b, ca_l2_index := ix\<rparr>)\<rparr>)"
    if "map_of (bc_files c1) path = Some val" for path val a b ix
    using put_memory_ok [of "(bc_inner c1)\<lparr>ca_l2_hits := a, ca_l2_clock := b, ca_l2_index := ix\<rparr>" "bc_memory_limit c1" val key]
      ok lim [OF that] by (simp add: cache_ok_def mem_ok_def)
  have drop: "cache_ok (c1\<lparr>bc_files := fs, bc_inner := unindex path (bc_inner c1)\<rparr>)" for fs path
    using ok by (simp add: cache_ok_def mem_ok_def unindex_def split: option.split)
  show ?thesis
    unfolding get_l2_def Let_def c1_def [symmetric]
    by (auto simp: ok drop split: option.split if_splits intro: hit)
qed

lemma use_item_ok:
  assumes "mem_ok inner" "map_of (ca_items inner) key = Some val"
  shows "mem_ok (inner\<lparr>ca_order := forget key (ca_order inner) @ [key]\<rparr>)"
proof -
  have "key \<in> fst ` set (ca_items inner)" using assms(2) by (metis map_of_None_keys option.distinct(1))
  then show ?thesis using assms(1) by (auto simp: mem_ok_def forget_def)
qed

lemma drop_item_cache_ok: "cache_ok c \<Longrightarrow> cache_ok (c\<lparr>bc_inner := drop_item key (bc_inner c)\<rparr>)"
  using drop_item_bytes [of key "bc_inner c"] by (auto simp: cache_ok_def drop_item_ok bt_remove_def)

lemma cache_get_ok:
  assumes "cache_ok c" "files_bounded c"
  shows "cache_ok (fst (cache_get hs env key expected c))"
proof -
  define miss where "miss = (\<lambda>c1. case (if bc_l2_limit c1 > 0 then get_l2 hs env key expected c1 else (c1, None)) of
      (c2, Some val) \<Rightarrow> (c2, Some val)
    | (c2, None) \<Rightarrow> (c2\<lparr>bc_inner := (bc_inner c2)\<lparr>ca_misses := wrap_add (ca_misses (bc_inner c2)) 1\<rparr>\<rparr>, None))"
  have miss: "cache_ok (fst (miss c1))" if "cache_ok c1" "files_bounded c1" for c1
    using get_l2_ok [OF that, of hs env key expected] that(1)
    by (auto simp: miss_def cache_ok_def split: prod.split option.split)
  have bounded: "files_bounded (c\<lparr>bc_inner := inner\<rparr>)" for inner using assms(2) by (simp add: files_bounded_def)
  have used: "cache_ok (c\<lparr>bc_inner := (bc_inner c)\<lparr>ca_hits := n, ca_order := forget key (ca_order (bc_inner c)) @ [key]\<rparr>\<rparr>)"
    if "map_of (ca_items (bc_inner c)) key = Some val" for n val
    using use_item_ok [of "bc_inner c" key val] that assms(1) by (simp add: cache_ok_def mem_ok_def)
  show ?thesis
    unfolding cache_get_def Let_def miss_def [symmetric]
    by (auto simp: assms bounded drop_item_cache_ok miss used split: option.split)
qed

lemma unindex_simps [simp]:
  "ca_bytes (unindex path inner) = ca_bytes inner" "ca_items (unindex path inner) = ca_items inner"
  "ca_order (unindex path inner) = ca_order inner"
  by (simp_all add: unindex_def split: option.split)

lemma cache_remove_ok: "cache_ok c \<Longrightarrow> cache_ok (cache_remove hs env key c)"
proof -
  assume ok: "cache_ok c"
  have same: "ca_order (drop_item key (bc_inner c)) = forget key (ca_order (drop_item key (bc_inner c)))"
    using ok by (simp add: cache_ok_def drop_item_order) (simp add: forget_def)
  have "mem_part (cache_remove hs env key c) = mem_part (c\<lparr>bc_inner := drop_item key (bc_inner c)\<rparr>)"
    by (simp add: cache_remove_def Let_def mem_part_def same [symmetric])
  then show ?thesis using cache_ok_mem_part drop_item_cache_ok [OF ok] by blast
qed

lemma invalidate_prefix_ok: "cache_ok c \<Longrightarrow> cache_ok (invalidate_prefix prefix c)"
proof -
  have "cache_ok (c\<lparr>bc_inner := fold drop_item keys (bc_inner c)\<rparr>)" if "cache_ok c" for keys
    using that
  proof (induction keys arbitrary: c)
    case (Cons key keys)
    from Cons.IH [OF drop_item_cache_ok [OF Cons.prems, of key]] show ?case by simp
  qed simp
  then show "cache_ok c \<Longrightarrow> cache_ok (invalidate_prefix prefix c)" by (simp add: invalidate_prefix_def Let_def)
qed

text \<open>The on-disk level only ever holds files that were there or were put.\<close>

lemma files_bounded_shrink:
  assumes "files_bounded c" "map_of (bc_files c') \<subseteq>\<^sub>m map_of (bc_files c)" "bc_memory_limit c' = bc_memory_limit c"
  shows "files_bounded c'"
  using assms unfolding files_bounded_def map_le_def by (metis domI)

lemma remove_file_le: "map_of (fst (remove_file env path files)) \<subseteq>\<^sub>m map_of files"
  by (auto simp: remove_file_def map_le_def)

lemma prune_loop_files:
  "map_of (bc_files (fst (prune_loop env files c))) \<subseteq>\<^sub>m map_of (bc_files c)
   \<and> bc_memory_limit (fst (prune_loop env files c)) = bc_memory_limit c"
proof (induction env files c rule: prune_loop.induct)
  case (2 env t path len files c)
  obtain rem gone where r: "remove_file env path (bc_files c) = (rem, gone)" by fastforce
  then have le: "map_of rem \<subseteq>\<^sub>m map_of (bc_files c)" using remove_file_le [of env path "bc_files c"] by simp
  show ?case
    using 2 r le by (cases gone) (auto intro: map_le_trans)
qed simp

lemma put_files_bounded:
  assumes "files_bounded c" "bc_memory_limit c + length data \<le> u64_max"
  shows "files_bounded (cache_put hs env key data c)"
proof -
  have limit: "bc_memory_limit (fst (put_l2 hs env key data c)) = bc_memory_limit c" for c
    by (auto simp: put_l2_def prune_l2_def Let_def prune_loop_files split: write_outcome.split)
  have ins: "files_bounded c2"
    if "files_bounded c1" "bc_memory_limit c1 + length data \<le> u64_max"
      "map_of (bc_files c2) = (map_of (bc_files c1))(path \<mapsto> data)" "bc_memory_limit c2 = bc_memory_limit c1" for c1 c2 path
    using that by (auto simp: files_bounded_def)
  have load: "files_bounded (load_l2_index env c1) = files_bounded c1" for c1 by (simp add: files_bounded_def)
  have prune: "files_bounded (fst (prune_l2 env c1))" if "files_bounded c1" for c1
  proof -
    have "files_bounded (fst (prune_loop env files (load_l2_index env c1)))" for files
      by (rule files_bounded_shrink [of "load_l2_index env c1"]) (use that prune_loop_files [of env files "load_l2_index env c1"] in \<open>simp_all add: load\<close>)
    then show ?thesis using that by (simp add: prune_l2_def Let_def load)
  qed
  have "files_bounded (fst (put_l2 hs env key data c1))"
    if "files_bounded c1" "bc_memory_limit c1 + length data \<le> u64_max" for c1
    using that unfolding put_l2_def Let_def
    by (auto simp: load split: write_outcome.split intro!: prune intro: ins [OF that])
  then have "files_bounded (fst (put_l2 hs env key data (c\<lparr>bc_inner := inner\<rparr>)))" for inner
    using assms by (simp add: files_bounded_def)
  moreover have "files_bounded (c\<lparr>bc_inner := inner\<rparr>) = files_bounded c" for c :: block_cache and inner
    by (simp add: files_bounded_def)
  ultimately show ?thesis
    using assms(1) unfolding cache_put_def Let_def
    by (auto split: prod.split sum.split) (metis fst_conv)+
qed

lemma get_files_bounded:
  assumes "files_bounded c"
  shows "files_bounded (fst (cache_get hs env key expected c))"
proof -
  have l2: "files_bounded (fst (get_l2 hs env key expected c1))" if "files_bounded c1" for c1
  proof -
    have "map_of (bc_files (fst (get_l2 hs env key expected c1))) \<subseteq>\<^sub>m map_of (bc_files c1)"
      using remove_file_le by (auto simp: get_l2_def Let_def split: option.split)
    moreover have "bc_memory_limit (fst (get_l2 hs env key expected c1)) = bc_memory_limit c1"
      by (auto simp: get_l2_def Let_def split: option.split)
    ultimately show ?thesis using that files_bounded_shrink by blast
  qed
  have inner: "files_bounded (c1\<lparr>bc_inner := i\<rparr>) = files_bounded c1" for c1 :: block_cache and i
    by (simp add: files_bounded_def)
  show ?thesis
    unfolding cache_get_def Let_def
    using assms l2 [of c] l2 [of "c\<lparr>bc_inner := drop_item key (bc_inner c)\<rparr>"]
    by (auto simp: inner split: option.split prod.split)
qed

lemma remove_files_bounded: "files_bounded c \<Longrightarrow> files_bounded (cache_remove hs env key c)"
  by (rule files_bounded_shrink [of c]) (auto simp: cache_remove_def Let_def intro: remove_file_le)

lemma invalidate_files_bounded: "files_bounded c \<Longrightarrow> files_bounded (invalidate_prefix prefix c)"
  by (simp add: files_bounded_def invalidate_prefix_def Let_def)

text \<open>Histories of a cache: any calls, with any outcome of the file operations.\<close>

inductive cache_run :: "hashes \<Rightarrow> block_cache \<Rightarrow> block_cache \<Rightarrow> bool" for hs c0 where
  start: "cache_run hs c0 c0"
| put: "cache_run hs c0 c \<Longrightarrow> bc_memory_limit c + length data \<le> u64_max
    \<Longrightarrow> cache_run hs c0 (cache_put hs env key data c)"
| get: "cache_run hs c0 c \<Longrightarrow> cache_run hs c0 (fst (cache_get hs env key expected c))"
| remove: "cache_run hs c0 c \<Longrightarrow> cache_run hs c0 (cache_remove hs env key c)"
| invalidate: "cache_run hs c0 c \<Longrightarrow> cache_run hs c0 (invalidate_prefix prefix c)"

lemma cache_run_inv:
  assumes "cache_run hs c0 c" "cache_ok c0" "files_bounded c0"
  shows "cache_ok c \<and> files_bounded c"
  using assms
proof (induction rule: cache_run.induct)
  case start
  then show ?case by simp
next
  case (put c data env key)
  then show ?case by (simp add: cache_put_ok put_files_bounded)
next
  case (get c env key expected)
  then show ?case by (simp add: cache_get_ok get_files_bounded)
next
  case (remove c env key)
  then show ?case by (simp add: cache_remove_ok remove_files_bounded)
next
  case (invalidate c prefix)
  then show ?case by (simp add: invalidate_prefix_ok invalidate_files_bounded)
qed

lemma cache_new_ok: "cache_ok (cache_new dir memory_limit l2_limit dis siz files)"
  by (simp add: cache_new_def cache_ok_def mem_ok_def cache_inner_default_def weight_def)

text \<open>A value comes out of the cache only if it matches the hash that was asked for.\<close>

lemma cache_get_matches:
  assumes "cache_get hs env key (Some sha) c = (c', Some val)"
  shows "content_hash_matches hs val sha"
proof -
  have "content_hash_matches hs w sha" if "get_l2 hs env key (Some sha) c1 = (c2, Some w)" for c1 c2 w
    using that by (auto simp: get_l2_def Let_def hash_expected_def split: option.splits if_splits)
  then show ?thesis
    using assms by (auto simp: cache_get_def Let_def hash_expected_def split: option.splits if_splits prod.splits)
qed

lemma put_l2_limit: "bc_memory_limit (fst (put_l2 hs env key data c)) = bc_memory_limit c"
  by (auto simp: put_l2_def prune_l2_def Let_def prune_loop_files split: write_outcome.split)

lemma cache_put_limit: "bc_memory_limit (cache_put hs env key data c) = bc_memory_limit c"
  using put_l2_limit [of hs env key data "c\<lparr>bc_inner := put_memory_only_locked (bc_memory_limit c) key data (bc_inner c)\<rparr>"]
  by (auto simp: cache_put_def Let_def split: prod.split sum.split)

lemma cache_get_limit: "bc_memory_limit (fst (cache_get hs env key expected c)) = bc_memory_limit c"
proof -
  have "bc_memory_limit (fst (get_l2 hs env key expected c1)) = bc_memory_limit c1" for c1
    by (auto simp: get_l2_def Let_def split: option.split)
  from this [of c] this [of "c\<lparr>bc_inner := drop_item key (bc_inner c)\<rparr>"] show ?thesis
    by (auto simp: cache_get_def Let_def split: option.split prod.split)
qed

lemma cache_run_limit: "cache_run hs c0 c \<Longrightarrow> bc_memory_limit c = bc_memory_limit c0"
  by (induction rule: cache_run.induct)
    (simp_all add: cache_put_limit cache_get_limit cache_remove_def invalidate_prefix_def Let_def)

lemma insert_removed: "bt_ok m \<Longrightarrow> bt_insert k v (bt_remove k m) = bt_insert k v m"
  by (rule bt_ext) auto

lemma cache_put_memory:
  assumes "cache_ok c" "0 < bc_memory_limit c" "bc_memory_limit c + length data \<le> u64_max"
    and items: "items = bt_insert key data (ca_items (bc_inner c))"
    and order: "order = forget key (ca_order (bc_inner c)) @ [key]"
  shows "ca_order (bc_inner (cache_put hs env key data c)) = fitting (bc_memory_limit c) items order"
    and "ca_items (bc_inner (cache_put hs env key data c)) = restrict_items (fitting (bc_memory_limit c) items order) items"
proof -
  let ?w = "with_item key data (bc_inner c)"
  let ?c1 = "c\<lparr>bc_inner := put_memory_only_locked (bc_memory_limit c) key data (bc_inner c)\<rparr>"
  have "mem_part (cache_put hs env key data c) = mem_part ?c1"
    using mem_part_put_l2 [of hs env key data ?c1]
    by (auto simp: cache_put_def Let_def mem_part_def split: prod.split sum.split)
  then have same: "ca_order (bc_inner (cache_put hs env key data c)) = ca_order (bc_inner ?c1)"
      "ca_items (bc_inner (cache_put hs env key data c)) = ca_items (bc_inner ?c1)"
    by (simp_all add: mem_part_def)
  have mem: "mem_ok (bc_inner c)" using assms(1) by (simp add: cache_ok_def)
  have w: "ca_items ?w = items" "ca_order ?w = order"
    using mem by (simp_all add: with_item_def Let_def items order drop_item_order insert_removed mem_ok_def)
  have "mem_ok ?w" using mem assms(1,3) by (intro with_item_ok) (simp_all add: cache_ok_def)
  then have "evict (bc_memory_limit c) order ?w = ?w\<lparr>ca_items := restrict_items (fitting (bc_memory_limit c) items order) items,
      ca_order := fitting (bc_memory_limit c) items order, ca_bytes := span_bytes items (fitting (bc_memory_limit c) items order)\<rparr>"
    using evict_eq [of ?w order "bc_memory_limit c"] by (simp only: mem_ok_def w)
  moreover have "bc_inner ?c1 = evict (bc_memory_limit c) order ?w" using assms(2) by (simp add: put_memory_eq w)
  ultimately show "ca_order (bc_inner (cache_put hs env key data c)) = fitting (bc_memory_limit c) items order"
    "ca_items (bc_inner (cache_put hs env key data c)) = restrict_items (fitting (bc_memory_limit c) items order) items"
    by (simp_all add: same)
qed

lemma fitting_last:
  assumes "span_bytes items [key] \<le> limit"
  shows "key \<in> set (fitting limit items (ks @ [key]))"
  using assms by (induction ks) auto

text \<open>C36. Through any history of puts, lookups, removals and invalidations, whatever the on-disk level
  does, the memory level counts its bytes exactly, stays within its limit, and its order of use lists
  every cached key once and no other key.\<close>

theorem cache_history_bounded:
  assumes "cache_run hs (cache_new dir memory_limit l2_limit disable_var size_var files) c"
    and "\<forall>path value. map_of files path = Some value \<longrightarrow> memory_limit + length value \<le> u64_max"
  shows "ca_bytes (bc_inner c) = sum_list (map (\<lambda>(_, value). length value) (ca_items (bc_inner c)))
    \<and> ca_bytes (bc_inner c) \<le> bc_memory_limit c
    \<and> distinct (ca_order (bc_inner c)) \<and> set (ca_order (bc_inner c)) = dom (map_of (ca_items (bc_inner c)))"
proof -
  have "files_bounded (cache_new dir memory_limit l2_limit disable_var size_var files)"
    using assms(2) by (simp add: cache_new_def files_bounded_def)
  then have "cache_ok c" using cache_run_inv [OF assms(1)] cache_new_ok by blast
  then show ?thesis by (simp add: cache_ok_def mem_ok_def weight_def dom_map_of_conv_image_fst)
qed

text \<open>C37. Putting a value keeps exactly the most recently used keys that fit: the order afterwards is the
  longest suffix of the old order, with the key moved to its end, whose values fit the limit, and the
  cache holds those keys with their values and no others. A value that fits is found by the next
  lookup that asks for its hash.\<close>

theorem cache_put_lru:
  assumes "cache_run hs (cache_new dir memory_limit l2_limit disable_var size_var []) c"
    and "memory_limit + length data \<le> u64_max" "0 < memory_limit"
    and "items = bt_insert key data (ca_items (bc_inner c))" "order = forget key (ca_order (bc_inner c)) @ [key]"
    and "after = cache_put hs env key data c"
  shows "ca_order (bc_inner after) = fitting memory_limit items order
    \<and> map_of (ca_items (bc_inner after)) = map_of items |` set (fitting memory_limit items order)
    \<and> (length data \<le> memory_limit \<longrightarrow> snd (cache_get hs env' key (Some (content_hash_hex hs data)) after) = Some data)"
proof -
  have "files_bounded (cache_new dir memory_limit l2_limit disable_var size_var [])"
    by (simp add: cache_new_def files_bounded_def)
  then have ok: "cache_ok c" using cache_run_inv [OF assms(1)] cache_new_ok by blast
  note lim = cache_run_limit [OF assms(1)]
  have size: "bc_memory_limit c = memory_limit" using lim by (simp add: cache_new_def)
  note put = cache_put_memory [OF ok, unfolded size, OF assms(3,2,4,5), of hs env, folded assms(6)]
  have hit: "map_of (ca_items (bc_inner after)) key = Some data" if "length data \<le> memory_limit"
  proof -
    have "span_bytes items [key] \<le> memory_limit" using that by (simp add: span_bytes_def assms(4))
    then have "key \<in> set (fitting memory_limit items order)" unfolding assms(5) by (rule fitting_last)
    then show ?thesis by (simp add: put map_of_restrict_items assms(4))
  qed
  show ?thesis
  proof (intro conjI impI)
    show "ca_order (bc_inner after) = fitting memory_limit items order" by (rule put(1))
    show "map_of (ca_items (bc_inner after)) = map_of items |` set (fitting memory_limit items order)"
      by (auto simp: put(2) map_of_restrict_items restrict_map_def)
    show "snd (cache_get hs env' key (Some (content_hash_hex hs data)) after) = Some data" if "length data \<le> memory_limit"
      by (simp add: cache_get_def Let_def hit [OF that] hash_expected_def content_hash_matches_def)
  qed
qed

text \<open>An example: a memory level of four bytes without an on-disk level.\<close>

definition demo_hashes :: hashes where
  "demo_hashes = \<lparr>hs_blake3_hex = bytes_str, hs_sha256_hex = (\<lambda>_. ''h'')\<rparr>"

definition demo_env :: cache_env where
  "demo_env = \<lparr>ce_read = (\<lambda>_. True), ce_write = Written, ce_remove = (\<lambda>_. True), ce_modified = (\<lambda>_. 0)\<rparr>"

definition demo_cache :: block_cache where
  "demo_cache = cache_put demo_hashes demo_env ''b'' [3, 4] (cache_put demo_hashes demo_env ''a'' [7, 8] (cache_new ''r'' 4 0 None None []))"

lemma demo_cache_run: "cache_run demo_hashes (cache_new ''r'' 4 0 None None []) demo_cache"
  unfolding demo_cache_def
  by (intro cache_run.put cache_run.start) (simp_all add: cache_put_limit cache_new_def u64_max_def)

lemmas demo_cache_simps = demo_cache_def cache_new_def cache_put_def cache_inner_default_def resolve_l2_limit_def
  put_memory_only_locked_def drop_item_def forget_def wrap_add_def Let_def bt_remove_def

theorem cache_history_bounded_witness:
  "ca_items (bc_inner demo_cache) = [(''a'', [7, 8]), (''b'', [3, 4])]
   \<and> ca_bytes (bc_inner demo_cache) = sum_list (map (\<lambda>(_, value). length value) (ca_items (bc_inner demo_cache)))
   \<and> ca_bytes (bc_inner demo_cache) \<le> bc_memory_limit demo_cache"
proof -
  have "ca_items (bc_inner demo_cache) = [(''a'', [7, 8]), (''b'', [3, 4])]"
    by (simp add: demo_cache_simps)
  then show ?thesis using cache_history_bounded [OF demo_cache_run] by simp
qed

theorem cache_put_lru_witness:
  "ca_order (bc_inner (cache_put demo_hashes demo_env ''c'' [9] demo_cache)) = [''b'', ''c'']
   \<and> snd (cache_get demo_hashes demo_env ''c'' (Some [CHR 0x09]) (cache_put demo_hashes demo_env ''c'' [9] demo_cache)) = Some [9]"
proof -
  have items: "ca_items (bc_inner demo_cache) = [(''a'', [7, 8]), (''b'', [3, 4])]"
    and order: "ca_order (bc_inner demo_cache) = [''a'', ''b'']"
    by (simp_all add: demo_cache_simps)
  have "content_hash_hex demo_hashes [9] = [CHR 0x09]"
    by (simp add: content_hash_hex_def demo_hashes_def bytes_str_def char_of_def bit_0)
  moreover have "fitting 4 (bt_insert ''c'' [9] [(''a'', [7, 8]), (''b'', [3, 4])]) (forget ''c'' [''a'', ''b''] @ [''c'']) = [''b'', ''c'']"
    by (simp add: forget_def span_bytes_def)
  ultimately show ?thesis
    using cache_put_lru [OF demo_cache_run, of "[9]", OF _ _ refl refl refl, where key = "''c''" and env = demo_env and env' = demo_env]
    by (simp add: u64_max_def items order)
qed

end
