(* ===== verification/Argos_Names.thy ===== *)
theory Argos_Names
  imports Argos_Types Argos_Path
begin

text \<open>
  Entry names, symbolic-link targets and extended-attribute names of
  \<open>src/volume/namespace.rs\<close> (lines 1546 to 1701). A directory stores its names as text: names
  that are not UTF-8, and names that look like an escape, are stored in hexadecimal behind a
  prefix. The crate \<open>hex\<close> is the parameter \<open>hx\<close>.
\<close>

section \<open>Definitions\<close>

record hex_codec =
  hx_encode :: "8 word list \<Rightarrow> string"
  hx_decode :: "string \<Rightarrow> 8 word list option"

definition NON_UTF8_NAME_PREFIX :: string where "NON_UTF8_NAME_PREFIX = ''.argosfs-name-nonutf8-v3:''"
definition ESCAPED_UTF8_NAME_PREFIX :: string where "ESCAPED_UTF8_NAME_PREFIX = ''.argosfs-name-utf8-v3:''"
definition LEGACY_NON_UTF8_NAME_PREFIX :: string where
  "LEGACY_NON_UTF8_NAME_PREFIX = CHR 0x00 # ''argosfs-name-hex:''"
definition NON_UTF8_SYMLINK_TARGET_PREFIX :: string where
  "NON_UTF8_SYMLINK_TARGET_PREFIX = CHR 0x00 # ''argosfs-symlink-target-hex:''"

definition starts_with :: "string \<Rightarrow> string \<Rightarrow> bool" where
  "starts_with s prefix \<longleftrightarrow> take (length prefix) s = prefix"

definition strip_prefix :: "string \<Rightarrow> string \<Rightarrow> string option" where
  "strip_prefix s prefix = (if starts_with s prefix then Some (drop (length prefix) s) else None)"

definition validate_entry_name :: "string \<Rightarrow> unit result" where
  "validate_entry_name name =
     (if name = [] \<or> name = ''.'' \<or> name = ''..'' then Inl Invalid
      else if CHR ''/'' \<in> set name \<or> CHR 0x00 \<in> set name then Inl Invalid
      else Inr ())"

definition validate_entry_name_bytes :: "8 word list \<Rightarrow> unit result" where
  "validate_entry_name_bytes name =
     (if length name > 255 then Inl NameTooLong
      else if name = [] \<or> name = str_bytes ''.'' \<or> name = str_bytes ''..'' then Inl Invalid
      else if 47 \<in> set name \<or> 0 \<in> set name then Inl Invalid
      else Inr ())"

definition entry_name_from_os :: "hex_codec \<Rightarrow> 8 word list \<Rightarrow> string result" where
  "entry_name_from_os hx bytes =
     rbind (validate_entry_name_bytes bytes) (\<lambda>_.
       case from_utf8 bytes of
         Some name \<Rightarrow>
           rbind (validate_entry_name name) (\<lambda>_.
             if starts_with name NON_UTF8_NAME_PREFIX \<or> starts_with name ESCAPED_UTF8_NAME_PREFIX
             then Inr (ESCAPED_UTF8_NAME_PREFIX @ hx_encode hx bytes)
             else Inr name)
       | None \<Rightarrow> Inr (NON_UTF8_NAME_PREFIX @ hx_encode hx bytes))"

definition entry_name_from_str :: "hex_codec \<Rightarrow> string \<Rightarrow> string result" where
  "entry_name_from_str hx name = entry_name_from_os hx (str_bytes name)"

fun decode_with :: "hex_codec \<Rightarrow> string \<Rightarrow> string list \<Rightarrow> 8 word list" where
  "decode_with hx name [] = str_bytes name"
| "decode_with hx name (prefix # rest) =
     (case strip_prefix name prefix of
        Some encoded \<Rightarrow> (case hx_decode hx encoded of Some bytes \<Rightarrow> bytes | None \<Rightarrow> str_bytes name)
      | None \<Rightarrow> decode_with hx name rest)"

definition decode_entry_name_bytes :: "hex_codec \<Rightarrow> string \<Rightarrow> 8 word list" where
  "decode_entry_name_bytes hx name =
     decode_with hx name [ESCAPED_UTF8_NAME_PREFIX, NON_UTF8_NAME_PREFIX, LEGACY_NON_UTF8_NAME_PREFIX]"

definition encode_symlink_target :: "hex_codec \<Rightarrow> 8 word list \<Rightarrow> string" where
  "encode_symlink_target hx bytes =
     (case from_utf8 bytes of
        Some target \<Rightarrow> target
      | None \<Rightarrow> NON_UTF8_SYMLINK_TARGET_PREFIX @ hx_encode hx bytes)"

definition decode_symlink_target_bytes :: "hex_codec \<Rightarrow> string \<Rightarrow> 8 word list" where
  "decode_symlink_target_bytes hx target =
     (case Option.bind (strip_prefix target NON_UTF8_SYMLINK_TARGET_PREFIX) (hx_decode hx) of
        Some bytes \<Rightarrow> bytes
      | None \<Rightarrow> str_bytes target)"

datatype xattr_namespace = XUser | XTrusted | XSecurity | XSystem | XArgosSystem

definition xattr_namespace_of :: "string \<Rightarrow> xattr_namespace result" where
  "xattr_namespace_of name =
     (if name = [] \<or> CHR 0x00 \<in> set name then Inl Invalid
      else if starts_with name ''user.'' then Inr XUser
      else if starts_with name ''trusted.'' then Inr XTrusted
      else if starts_with name ''security.'' then Inr XSecurity
      else if starts_with name ''system.argosfs.'' then Inr XArgosSystem
      else if starts_with name ''system.'' then Inr XSystem
      else Inl Invalid)"

definition POSIX_ACL_ACCESS_XATTR :: string where "POSIX_ACL_ACCESS_XATTR = ''system.posix_acl_access''"
definition POSIX_ACL_DEFAULT_XATTR :: string where "POSIX_ACL_DEFAULT_XATTR = ''system.posix_acl_default''"
definition ARGOS_POSIX_ACL_ACCESS_XATTR :: string where
  "ARGOS_POSIX_ACL_ACCESS_XATTR = ''system.argosfs.posix_acl_access''"
definition ARGOS_POSIX_ACL_DEFAULT_XATTR :: string where
  "ARGOS_POSIX_ACL_DEFAULT_XATTR = ''system.argosfs.posix_acl_default''"
definition NFS4_ACL_XATTR :: string where "NFS4_ACL_XATTR = ''system.argosfs.nfs4_acl''"
definition BOOT_CRITICAL_XATTR :: string where "BOOT_CRITICAL_XATTR = ''system.argosfs.boot_critical''"
definition SECURITY_CAPABILITY_XATTR :: string where "SECURITY_CAPABILITY_XATTR = ''security.capability''"

definition is_known_system_xattr :: "string \<Rightarrow> bool" where
  "is_known_system_xattr name \<longleftrightarrow>
     name \<in> {POSIX_ACL_ACCESS_XATTR, POSIX_ACL_DEFAULT_XATTR, ARGOS_POSIX_ACL_ACCESS_XATTR,
             ARGOS_POSIX_ACL_DEFAULT_XATTR, NFS4_ACL_XATTR, BOOT_CRITICAL_XATTR, SECURITY_CAPABILITY_XATTR}"

definition validate_xattr_write :: "string \<Rightarrow> unit result" where
  "validate_xattr_write name =
     (if is_known_system_xattr name then Inr ()
      else rbind (xattr_namespace_of name) (\<lambda>ns.
        case ns of
          XUser \<Rightarrow> Inr ()
        | XTrusted \<Rightarrow> Inl PermissionDenied
        | XSecurity \<Rightarrow> Inl PermissionDenied
        | _ \<Rightarrow> Inl Unsupported))"

definition validate_xattr_read :: "string \<Rightarrow> unit result" where
  "validate_xattr_read name =
     (if is_known_system_xattr name then Inr ()
      else rbind (xattr_namespace_of name) (\<lambda>ns.
        case ns of XArgosSystem \<Rightarrow> Inl Unsupported | _ \<Rightarrow> Inr ()))"

definition boot_critical_name :: "string \<Rightarrow> bool" where
  "boot_critical_name name \<longleftrightarrow>
     name \<in> {''boot'', ''etc'', ''bin'', ''sbin'', ''lib'', ''lib64'', ''usr'', ''init''}"

section \<open>Lemmas\<close>

text \<open>What the code relies on of the crate \<open>hex\<close>: decoding undoes encoding, and an encoding is made
  of the digits 0 to 9 and a to f.\<close>

definition hex_ok :: "hex_codec \<Rightarrow> bool" where
  "hex_ok hx \<longleftrightarrow> (\<forall>bs. hx_decode hx (hx_encode hx bs) = Some bs \<and> set (hx_encode hx bs) \<subseteq> set ''0123456789abcdef'')"

lemma unat_byte_less: "unat (b :: 8 word) < 256"
  using unsigned_less [of b, where 'a = nat] by simp

lemma str_bytes_bytes_str [simp]: "str_bytes (bytes_str bs) = bs"
  by (simp add: str_bytes_def bytes_str_def o_def map_idI unat_byte_less del: of_nat_of_char)

lemma from_utf8_bytes: "from_utf8 bs = Some s \<Longrightarrow> str_bytes s = bs"
  by (auto simp: from_utf8_def split: if_splits)

lemma validate_entry_name_iff:
  "validate_entry_name name = Inr () \<longleftrightarrow>
     name \<noteq> [] \<and> name \<noteq> ''.'' \<and> name \<noteq> ''..'' \<and> CHR ''/'' \<notin> set name \<and> CHR 0x00 \<notin> set name"
  by (auto simp: validate_entry_name_def)

lemma starts_with_append: "starts_with (p @ s) p"
  by (simp add: starts_with_def)

lemma strip_prefix_append: "strip_prefix (p @ s) p = Some s"
  by (simp add: strip_prefix_def starts_with_append)

lemma strip_prefix_none: "\<not> starts_with s p \<Longrightarrow> strip_prefix s p = None"
  by (simp add: strip_prefix_def)

lemma prefixes_apart: "\<not> starts_with (NON_UTF8_NAME_PREFIX @ s) ESCAPED_UTF8_NAME_PREFIX"
  by (simp add: starts_with_def NON_UTF8_NAME_PREFIX_def ESCAPED_UTF8_NAME_PREFIX_def)

lemma no_nul_prefix: "CHR 0x00 \<notin> set s \<Longrightarrow> \<not> starts_with s (CHR 0x00 # p)"
  by (cases s) (auto simp: starts_with_def)

lemma stored_name_cases:
  assumes "entry_name_from_os hx bytes = Inr name"
  obtains (plain) "from_utf8 bytes = Some name" "validate_entry_name name = Inr ()"
      "\<not> starts_with name NON_UTF8_NAME_PREFIX" "\<not> starts_with name ESCAPED_UTF8_NAME_PREFIX"
  | (escaped) "name = ESCAPED_UTF8_NAME_PREFIX @ hx_encode hx bytes"
  | (raw) "name = NON_UTF8_NAME_PREFIX @ hx_encode hx bytes"
  using assms unfolding entry_name_from_os_def
  by (auto simp: rbind_eq_Inr_iff split: option.splits if_splits)

lemma hex_name_ok:
  assumes "hex_ok hx" "CHR ''/'' \<notin> set p" "CHR 0x00 \<notin> set p" "length p > 2"
  shows "validate_entry_name (p @ hx_encode hx bytes) = Inr ()"
proof -
  have "set (hx_encode hx bytes) \<subseteq> set ''0123456789abcdef''" using assms(1) by (simp add: hex_ok_def)
  then have "CHR ''/'' \<notin> set (hx_encode hx bytes)" "CHR 0x00 \<notin> set (hx_encode hx bytes)" by auto
  moreover have "p @ t \<noteq> ''.''" "p @ t \<noteq> ''..''" "p @ t \<noteq> []" for t
    using assms(4) by (auto dest: arg_cong [where f = length])
  ultimately show ?thesis using assms(2,3) by (simp add: validate_entry_name_iff)
qed

lemma stored_name_decodes:
  assumes hx: "hex_ok hx" and name: "entry_name_from_os hx bytes = Inr name"
  shows "decode_entry_name_bytes hx name = bytes" and "validate_entry_name name = Inr ()"
proof -
  have dec: "hx_decode hx (hx_encode hx bytes) = Some bytes" using hx by (simp add: hex_ok_def)
  show "decode_entry_name_bytes hx name = bytes"
    using name
  proof (cases rule: stored_name_cases)
    case plain
    then have "\<not> starts_with name LEGACY_NON_UTF8_NAME_PREFIX"
      by (simp add: LEGACY_NON_UTF8_NAME_PREFIX_def no_nul_prefix validate_entry_name_iff)
    then show ?thesis
      using plain by (simp add: decode_entry_name_bytes_def strip_prefix_none from_utf8_bytes)
  next
    case escaped
    then show ?thesis by (simp add: decode_entry_name_bytes_def strip_prefix_append dec)
  next
    case raw
    then show ?thesis
      using prefixes_apart by (simp add: decode_entry_name_bytes_def strip_prefix_append strip_prefix_none dec)
  qed
  show "validate_entry_name name = Inr ()"
    using name
  proof (cases rule: stored_name_cases)
    case escaped
    have "validate_entry_name (ESCAPED_UTF8_NAME_PREFIX @ hx_encode hx bytes) = Inr ()"
      by (rule hex_name_ok [OF hx]) (simp_all add: ESCAPED_UTF8_NAME_PREFIX_def)
    then show ?thesis using escaped by simp
  next
    case raw
    have "validate_entry_name (NON_UTF8_NAME_PREFIX @ hx_encode hx bytes) = Inr ()"
      by (rule hex_name_ok [OF hx]) (simp_all add: NON_UTF8_NAME_PREFIX_def)
    then show ?thesis using raw by simp
  qed
qed

lemma symlink_target_roundtrip:
  assumes "hex_ok hx" "0 \<notin> set bytes"
  shows "decode_symlink_target_bytes hx (encode_symlink_target hx bytes) = bytes"
proof (cases "from_utf8 bytes")
  case None
  then show ?thesis
    using assms(1) by (simp add: encode_symlink_target_def decode_symlink_target_bytes_def strip_prefix_append hex_ok_def)
next
  case (Some target)
  then have bs: "str_bytes target = bytes" by (rule from_utf8_bytes)
  have "CHR 0x00 \<notin> set target"
  proof
    assume "CHR 0x00 \<in> set target"
    then have "(\<lambda>c. of_nat (of_char c)) CHR 0x00 \<in> set (str_bytes target)"
      unfolding str_bytes_def set_map by (rule imageI)
    then show False using assms(2) by (simp add: bs)
  qed
  then show ?thesis
    using Some bs
    by (simp add: encode_symlink_target_def decode_symlink_target_bytes_def strip_prefix_none no_nul_prefix
        NON_UTF8_SYMLINK_TARGET_PREFIX_def)
qed

text \<open>C32. A directory stores every admissible name, UTF-8 or not, under text that is itself a valid
  entry name, that decodes to the very same bytes, and that differs for different names.\<close>

theorem entry_name_roundtrip:
  assumes "hex_ok hx" "entry_name_from_os hx bytes = Inr name" "entry_name_from_os hx bytes' = Inr name'"
  shows "decode_entry_name_bytes hx name = bytes \<and> validate_entry_name name = Inr ()
    \<and> (name = name' \<longleftrightarrow> bytes = bytes')"
proof (intro conjI iffI)
  note d = stored_name_decodes [OF assms(1,2)] and d' = stored_name_decodes [OF assms(1,3)]
  show "decode_entry_name_bytes hx name = bytes" "validate_entry_name name = Inr ()" by (rule d)+
  show "bytes = bytes'" if "name = name'" using d(1) d'(1) that by metis
  show "name = name'" if "bytes = bytes'" using assms(2,3) that by simp
qed

text \<open>A hexadecimal codec, for the examples.\<close>

definition hex_digit :: "nat \<Rightarrow> char" where
  "hex_digit n = ''0123456789abcdef'' ! (n mod 16)"

definition hex_value :: "char \<Rightarrow> nat option" where
  "hex_value c = position (\<lambda>d. d = c) ''0123456789abcdef''"

fun hex_parse :: "string \<Rightarrow> 8 word list option" where
  "hex_parse [] = Some []"
| "hex_parse (a # b # rest) =
     (case (hex_value a, hex_value b, hex_parse rest) of
        (Some x, Some y, Some bs) \<Rightarrow> Some (of_nat (16 * x + y) # bs)
      | _ \<Rightarrow> None)"
| "hex_parse _ = None"

definition demo_hex :: hex_codec where
  "demo_hex = \<lparr>hx_encode = (\<lambda>bs. concat (map (\<lambda>b. [hex_digit (unat b div 16), hex_digit (unat b)]) bs)),
     hx_decode = hex_parse\<rparr>"

lemma hex_value_digit [simp]: "hex_value (hex_digit n) = Some (n mod 16)"
proof -
  have "\<forall>k < 16. hex_value (''0123456789abcdef'' ! k) = Some k" unfolding hex_value_def by code_simp
  then show ?thesis by (simp add: hex_digit_def)
qed

lemma demo_hex_ok: "hex_ok demo_hex"
proof -
  have dig: "hex_digit n \<in> set ''0123456789abcdef''" for n
    unfolding hex_digit_def by (rule nth_mem) simp
  have "hex_parse (concat (map (\<lambda>b. [hex_digit (unat b div 16), hex_digit (unat b)]) bs)) = Some bs"
    for bs :: "8 word list"
  proof (induction bs)
    case (Cons b bs)
    have "unat b < 256" by (rule unat_byte_less)
    then have "16 * (unat b div 16 mod 16) + unat b mod 16 = unat b" by (simp add: less_mult_imp_div_less)
    then have "of_nat (16 * (unat b div 16 mod 16) + unat b mod 16) = b" by simp
    then show ?case using Cons by (simp del: of_nat_add of_nat_mult)
  qed simp
  moreover have "set (concat (map (\<lambda>b. [hex_digit (unat b div 16), hex_digit (unat b)]) bs)) \<subseteq> set ''0123456789abcdef''"
    for bs :: "8 word list"
    using dig by fastforce
  ultimately show ?thesis by (simp add: hex_ok_def demo_hex_def)
qed

theorem entry_name_roundtrip_witness:
  "entry_name_from_os demo_hex [0xff, 0x61] = Inr ''.argosfs-name-nonutf8-v3:ff61''
   \<and> decode_entry_name_bytes demo_hex ''.argosfs-name-nonutf8-v3:ff61'' = [0xff, 0x61]"
proof -
  have utf: "from_utf8 [0xff, 0x61] = None" by (simp add: from_utf8_def cont_def)
  have hex: "hx_encode demo_hex [0xff, 0x61] = ''ff61''" by (simp add: demo_hex_def hex_digit_def)
  have name: "entry_name_from_os demo_hex [0xff, 0x61] = Inr ''.argosfs-name-nonutf8-v3:ff61''"
    using utf hex by (simp add: entry_name_from_os_def validate_entry_name_bytes_def str_bytes_def NON_UTF8_NAME_PREFIX_def)
  then show ?thesis using entry_name_roundtrip [OF demo_hex_ok name name] by simp
qed

end
