(* ===== verification/Argos_Helpers.thy ===== *)
theory Argos_Helpers
  imports Argos_Names Argos_Util
begin

text \<open>
  \<open>src/volume/helpers.rs\<close>: layouts of stripes, accounting of shards, inline files, \<open>SEEK_DATA\<close> and
  \<open>SEEK_HOLE\<close>, and the commit policy; and the durability check of \<open>src/volume/mod.rs\<close>
  (\<open>validate_data_durability_snapshot\<close>). An allocation that the operating system refuses is not
  modelled (\<open>zeroed_io_buffer\<close> only keeps its limit).
\<close>

section \<open>Layouts\<close>

definition ROOT_INO :: inode_id where "ROOT_INO = 1"
definition DEFAULT_LAYOUT_ID :: string where "DEFAULT_LAYOUT_ID = ''layout-0000''"
definition SHARD_CHECKSUM_BLOCK_SIZE :: nat where "SHARD_CHECKSUM_BLOCK_SIZE = 256 * 1024"
definition INLINE_DATA_MAX :: nat where "INLINE_DATA_MAX = 512"
definition MAX_IN_MEMORY_IO_BYTES :: nat where "MAX_IN_MEMORY_IO_BYTES = 256 * 1024 * 1024"

definition root_inode :: "f64 \<Rightarrow> 32 word \<Rightarrow> 32 word \<Rightarrow> inode" where
  "root_inode created_at uid gid =
     \<lparr>i_id = ROOT_INO, i_kind = Directory, i_mode = 0x41ED, i_uid = uid, i_gid = gid, i_nlink = 2,
      i_size = 0, i_rdev = 0, i_atime = created_at, i_mtime = created_at, i_ctime = created_at,
      i_entries = [], i_target = None, i_inline_data = None, i_inline_sha256 = [], i_blocks = [],
      i_xattrs = [], i_quota_bytes = None, i_posix_acl_access = None, i_posix_acl_default = None,
      i_nfs4_acl = None, i_access_count = 0, i_write_count = 0, i_read_bytes = 0, i_write_bytes = 0,
      i_storage_class = Warm, i_boot_critical = True, i_workload_score = 0,
      i_last_accessed_at = created_at, i_last_written_at = created_at\<rparr>"

definition shard_accounted_size :: "shard \<Rightarrow> nat" where
  "shard_accounted_size sh = (case s_location sh of Some (RawExtent extent) \<Rightarrow> ext_length extent | _ \<Rightarrow> s_size sh)"

definition normalize_block :: "file_block \<Rightarrow> file_block" where
  "normalize_block b = (if b_layout_id b = [] then b\<lparr>b_layout_id := DEFAULT_LAYOUT_ID\<rparr> else b)"

definition normalize_metadata_layouts :: "metadata \<Rightarrow> metadata" where
  "normalize_metadata_layouts meta =
     (let layouts = (if bt_contains DEFAULT_LAYOUT_ID (m_layouts meta) then m_layouts meta
          else bt_insert DEFAULT_LAYOUT_ID
                 \<lparr>l_id = DEFAULT_LAYOUT_ID, l_k = c_k (m_config meta), l_m = c_m (m_config meta),
                  l_chunk_size = c_chunk_size (m_config meta), l_created_txid = 0, l_sealed = False\<rparr> (m_layouts meta));
          current = (if m_current_write_layout meta = [] \<or> \<not> bt_contains (m_current_write_layout meta) layouts
                     then DEFAULT_LAYOUT_ID else m_current_write_layout meta)
      in meta\<lparr>m_layouts := layouts, m_current_write_layout := current,
              m_inodes := map (\<lambda>(ino, inode). (ino, inode\<lparr>i_blocks := map normalize_block (i_blocks inode)\<rparr>)) (m_inodes meta)\<rparr>)"

text \<open>Every shard of the metadata document, in document order.\<close>

definition all_shards :: "metadata \<Rightarrow> shard list" where
  "all_shards meta = concat (map (\<lambda>inode. concat (map b_shards (i_blocks inode))) (bt_values (m_inodes meta)))"

definition count_usage :: "shard \<Rightarrow> (string, nat) btree \<Rightarrow> (string, nat) btree" where
  "count_usage sh usage =
     bt_insert (s_disk_id sh)
       (wrap_add (case map_of usage (s_disk_id sh) of Some n \<Rightarrow> n | None \<Rightarrow> 0) (shard_accounted_size sh)) usage"

definition recompute_disk_usage_from_metadata :: "metadata \<Rightarrow> metadata" where
  "recompute_disk_usage_from_metadata meta0 =
     (let meta = normalize_metadata_layouts meta0;
          referenced_usage = fold count_usage (all_shards meta) []
      in meta\<lparr>m_disks := map (\<lambda>(disk_id, disk).
                (disk_id, disk\<lparr>d_used_bytes := (case map_of referenced_usage disk_id of Some n \<Rightarrow> n | None \<Rightarrow> 0)\<rparr>))
                (m_disks meta)\<rparr>)"

definition validate_commit_policy :: "volume_config \<Rightarrow> unit result" where
  "validate_commit_policy config =
     (if c_defer_data_flush config \<and> \<not> c_defer_metadata_commit config then Inl Invalid
      else if c_defer_metadata_commit config \<and> c_deferred_commit_interval_ms config = 0 then Inl Invalid
      else if c_defer_metadata_commit config \<and> c_deferred_commit_max_transactions config = 0 then Inl Invalid
      else Inr ())"

definition commit_previous_snapshot :: "metadata \<Rightarrow> metadata option" where
  "commit_previous_snapshot meta =
     (if m_backend meta \<noteq> Host \<and> c_defer_metadata_commit (m_config meta) then None else Some meta)"

definition block_layout_id :: "file_block \<Rightarrow> string" where
  "block_layout_id b = (if b_layout_id b = [] then DEFAULT_LAYOUT_ID else b_layout_id b)"

definition layout_by_id :: "metadata \<Rightarrow> string \<Rightarrow> layout_config result" where
  "layout_by_id meta layout_id =
     ok_or Invalid (map_of (m_layouts meta) (if layout_id = [] then DEFAULT_LAYOUT_ID else layout_id))"

definition current_write_layout :: "metadata \<Rightarrow> layout_config result" where
  "current_write_layout meta = layout_by_id meta (m_current_write_layout meta)"

text \<open>\<open>{next:04}\<close>\<close>

definition dec_pad4 :: "nat \<Rightarrow> string" where
  "dec_pad4 n = replicate (4 - length (dec n)) (CHR ''0'') @ dec n"

definition layout_number :: "string \<Rightarrow> nat option" where
  "layout_number layout_id = Option.bind (strip_prefix layout_id ''layout-'') (parse_uint u64_max)"

definition next_layout_id :: "metadata \<Rightarrow> string" where
  "next_layout_id meta =
     (let numbers = List.map_filter layout_number (bt_keys (m_layouts meta));
          nxt = (if numbers = [] then 0 else wrap_add (Max (set numbers)) 1)
      in ''layout-'' @ dec_pad4 nxt)"

definition find_or_insert_layout_locked :: "metadata \<Rightarrow> nat \<Rightarrow> nat \<Rightarrow> nat \<Rightarrow> metadata \<times> string" where
  "find_or_insert_layout_locked meta k m chunk_size =
     (case find (\<lambda>(_, layout). l_k layout = k \<and> l_m layout = m \<and> l_chunk_size layout = chunk_size) (m_layouts meta) of
        Some (layout_id, _) \<Rightarrow> (meta, layout_id)
      | None \<Rightarrow>
          let layout_id = next_layout_id meta
          in (meta\<lparr>m_layouts := bt_insert layout_id
                 \<lparr>l_id = layout_id, l_k = k, l_m = m, l_chunk_size = chunk_size,
                  l_created_txid = wrap_add (m_txid meta) 1, l_sealed = False\<rparr> (m_layouts meta)\<rparr>, layout_id))"

definition checked_layout_total :: "nat \<Rightarrow> nat \<Rightarrow> nat result" where
  "checked_layout_total k m = ok_or Invalid (checked_add k m)"

definition layout_total :: "layout_config \<Rightarrow> nat result" where
  "layout_total layout = checked_layout_total (l_k layout) (l_m layout)"

fun max_layout_loop :: "nat \<Rightarrow> layout_config list \<Rightarrow> nat result" where
  "max_layout_loop maximum [] = Inr maximum"
| "max_layout_loop maximum (layout # rest) =
     rbind (layout_total layout) (\<lambda>n. max_layout_loop (max maximum n) rest)"

definition max_layout_total :: "metadata \<Rightarrow> nat result" where
  "max_layout_total meta =
     rbind (checked_layout_total (c_k (m_config meta)) (c_m (m_config meta)))
       (\<lambda>configured. max_layout_loop configured (bt_values (m_layouts meta)))"

definition layout_stripe_raw_size :: "layout_config \<Rightarrow> nat result" where
  "layout_stripe_raw_size layout =
     rbind (ok_or Invalid (checked_mul (l_chunk_size layout) (l_k layout))) (\<lambda>stripe_raw_size.
       if stripe_raw_size = 0 then Inl Invalid
       else if stripe_raw_size > MAX_IN_MEMORY_IO_BYTES then Inl FileTooLarge
       else Inr stripe_raw_size)"

definition zeroed_io_buffer :: "nat \<Rightarrow> 8 word list result" where
  "zeroed_io_buffer len = (if len > MAX_IN_MEMORY_IO_BYTES then Inl FileTooLarge else Inr (replicate len 0))"

definition shard_subblock_hashes :: "hashes \<Rightarrow> 8 word list \<Rightarrow> string \<Rightarrow> string list" where
  "shard_subblock_hashes hs data full_hash =
     (if data = [] then []
      else if length data \<le> SHARD_CHECKSUM_BLOCK_SIZE then [full_hash]
      else map (content_hash_hex hs) (chunks SHARD_CHECKSUM_BLOCK_SIZE data))"

section \<open>Inline files\<close>

definition inline_payload_for :: "hashes \<Rightarrow> metadata \<Rightarrow> 8 word list \<Rightarrow> (8 word list \<times> string) option" where
  "inline_payload_for hs meta data =
     (if data = [] \<or> length data > INLINE_DATA_MAX \<or> e_enabled (m_encryption meta) then None
      else case map_of (m_layouts meta) (m_current_write_layout meta) of
             None \<Rightarrow> None
           | Some layout \<Rightarrow>
               if m_backend meta = Host \<or> l_k layout \<noteq> 1 \<or> l_m layout \<noteq> 0 then None
               else Some (data, content_hash_hex hs data))"

definition set_inline_payload :: "(8 word list \<times> string) option \<Rightarrow> inode \<Rightarrow> inode" where
  "set_inline_payload payload inode =
     (case payload of
        Some (data, sha256) \<Rightarrow> inode\<lparr>i_inline_data := Some data, i_inline_sha256 := sha256\<rparr>
      | None \<Rightarrow> inode\<lparr>i_inline_data := None, i_inline_sha256 := []\<rparr>)"

definition decode_inline_data :: "hashes \<Rightarrow> inode \<Rightarrow> 8 word list option result" where
  "decode_inline_data hs inode =
     (case i_inline_data inode of
        None \<Rightarrow> Inr None
      | Some data \<Rightarrow>
          if length data \<noteq> i_size inode then Inl Invalid
          else if \<not> content_hash_matches hs data (i_inline_sha256 inode) then Inl Invalid
          else Inr (Some data))"

section \<open>Seeking\<close>

definition block_extent :: "inode \<Rightarrow> file_block \<Rightarrow> (nat \<times> nat) option" where
  "block_extent inode b =
     (let start = min (b_raw_offset b) (i_size inode);
          stop = min (sat_add (b_raw_offset b) (b_raw_size b)) (i_size inode)
      in if stop > start then Some (start, stop) else None)"

definition merge_extent :: "nat \<times> nat \<Rightarrow> (nat \<times> nat) list \<Rightarrow> (nat \<times> nat) list" where
  "merge_extent extent merged =
     (if merged \<noteq> [] \<and> fst extent \<le> snd (last merged)
      then butlast merged @ [(fst (last merged), max (snd (last merged)) (snd extent))]
      else merged @ [extent])"

definition inode_data_extents :: "inode \<Rightarrow> (nat \<times> nat) list" where
  "inode_data_extents inode =
     (let extents = sort_key fst (List.map_filter (block_extent inode) (i_blocks inode))
      in fold merge_extent extents [])"

fun seek_data_loop :: "nat \<Rightarrow> (nat \<times> nat) list \<Rightarrow> nat result" where
  "seek_data_loop offset [] = Inl NoData"
| "seek_data_loop offset ((start, stop) # extents) =
     (if offset < start then Inr start
      else if offset < stop then Inr offset
      else seek_data_loop offset extents)"

definition seek_data :: "inode \<Rightarrow> nat \<Rightarrow> nat result" where
  "seek_data inode offset =
     (if offset \<ge> i_size inode then Inl NoData
      else if i_inline_data inode \<noteq> None then Inr offset
      else seek_data_loop offset (inode_data_extents inode))"

fun seek_hole_loop :: "nat \<Rightarrow> nat \<Rightarrow> (nat \<times> nat) list \<Rightarrow> nat" where
  "seek_hole_loop sz cursor [] = min cursor sz"
| "seek_hole_loop sz cursor ((start, stop) # extents) =
     (if cursor < start then cursor
      else seek_hole_loop sz (if cursor < stop then stop else cursor) extents)"

definition seek_hole :: "inode \<Rightarrow> nat \<Rightarrow> nat result" where
  "seek_hole inode offset =
     (if offset > i_size inode then Inl NoData
      else if offset = i_size inode then Inr offset
      else if i_inline_data inode \<noteq> None then Inr (i_size inode)
      else Inr (seek_hole_loop (i_size inode) offset (inode_data_extents inode)))"

section \<open>Latency, durability\<close>

definition encryption_aad :: "string \<Rightarrow> string \<Rightarrow> 8 word list" where
  "encryption_aad volume_uuid stripe_id = str_bytes (volume_uuid @ '':'' @ stripe_id)"

definition update_latency_ewma :: "f64 \<Rightarrow> f64 \<Rightarrow> f64 \<Rightarrow> nat \<Rightarrow> f64 \<times> f64" where
  "update_latency_ewma ewma_ms throughput_mib_s seconds bytes =
     (let sample_ms = max seconds (1 / 1000000) * 1000;
          ewma = (if ewma_ms \<le> 0 then sample_ms else ewma_ms * (8 / 10) + sample_ms * (2 / 10));
          sample_mib_s = of_nat bytes / (1024 * 1024) / max seconds (1 / 1000000);
          throughput = (if bytes > 0
                        then if throughput_mib_s \<le> 0 then sample_mib_s
                             else throughput_mib_s * (8 / 10) + sample_mib_s * (2 / 10)
                        else throughput_mib_s)
      in (ewma, throughput))"

definition unavailable_status :: "disk_status \<Rightarrow> bool" where
  "unavailable_status status \<longleftrightarrow> status \<in> {Failed, Offline, Removed}"

definition shard_missing :: "metadata \<Rightarrow> string list \<Rightarrow> shard \<Rightarrow> bool" where
  "shard_missing meta unavailable sh \<longleftrightarrow>
     s_disk_id sh \<in> set unavailable
     \<or> (case map_of (m_disks meta) (s_disk_id sh) of None \<Rightarrow> True | Some disk \<Rightarrow> unavailable_status (d_status disk))"

fun validate_blocks :: "metadata \<Rightarrow> string list \<Rightarrow> file_block list \<Rightarrow> unit result" where
  "validate_blocks meta unavailable [] = Inr ()"
| "validate_blocks meta unavailable (b # blocks) =
     rbind (layout_by_id meta (block_layout_id b)) (\<lambda>layout.
       let missing = length (filter (shard_missing meta unavailable) (b_shards b))
       in if missing > l_m layout
          then Inl (QuorumUnavailable (l_k layout) (length (b_shards b) - missing))
          else validate_blocks meta unavailable blocks)"

definition validate_data_durability_snapshot :: "metadata \<Rightarrow> string list \<Rightarrow> unit result" where
  "validate_data_durability_snapshot meta unavailable =
     validate_blocks meta unavailable (concat (map i_blocks (bt_values (m_inodes meta))))"

section \<open>Lemmas\<close>

text \<open>The bytes an extent list covers, and lists whose extents are apart.\<close>

definition covers :: "(nat \<times> nat) list \<Rightarrow> nat set" where
  "covers extents = (\<Union>(a, b) \<in> set extents. {a..<b})"

definition apart :: "(nat \<times> nat) list \<Rightarrow> bool" where
  "apart extents \<longleftrightarrow> sorted_wrt (\<lambda>x y. snd x < fst y) extents \<and> (\<forall>(a, b) \<in> set extents. a < b)"

lemma covers_simps [simp]:
  "covers [] = {}" "covers ((a, b) # xs) = {a..<b} \<union> covers xs" "covers (xs @ ys) = covers xs \<union> covers ys"
  by (auto simp: covers_def)

lemma apart_append: "apart (xs @ ys) \<longleftrightarrow> apart xs \<and> apart ys \<and> (\<forall>x \<in> set xs. \<forall>y \<in> set ys. snd x < fst y)"
  by (auto simp: apart_def sorted_wrt_append)

lemma merge_extent_ok:
  assumes "apart merged" "\<forall>x \<in> set merged. fst x \<le> fst e" "fst e < snd e"
  shows "apart (merge_extent e merged)" "covers (merge_extent e merged) = covers merged \<union> {fst e..<snd e}"
    "\<forall>x \<in> set (merge_extent e merged). fst x \<le> fst e"
proof -
  obtain s t where e: "e = (s, t)" by fastforce
  have "apart (merge_extent e merged) \<and> covers (merge_extent e merged) = covers merged \<union> {fst e..<snd e}
    \<and> (\<forall>x \<in> set (merge_extent e merged). fst x \<le> fst e)"
  proof (cases "merged \<noteq> [] \<and> s \<le> snd (last merged)")
    case True
    then obtain init a b where m: "merged = init @ [(a, b)]" by (metis append_butlast_last_id surj_pair)
    then have "s \<le> b" using True by simp
    moreover have "a \<le> s" "a < b" using assms(1,2) m e by (auto simp: apart_append apart_def)
    moreover have "{a..<max b t} = {a..<b} \<union> {s..<t}" using calculation assms(3) e by auto
    ultimately show ?thesis
      using assms(1,2) m e True by (auto simp: merge_extent_def apart_append) (auto simp: apart_def)
  next
    case False
    have "snd x < s" if "x \<in> set merged" for x
    proof -
      have ne: "merged \<noteq> []" using that by auto
      then have l: "snd (last merged) < s" using False by simp
      show ?thesis
      proof (cases "x = last merged")
        case False
        then have "x \<in> set (butlast merged)" using that ne by (metis append_butlast_last_id rotate1.simps(2) set_ConsD set_rotate1)
        then have "snd x < fst (last merged)"
          using assms(1) append_butlast_last_id [OF ne] apart_append [of "butlast merged" "[last merged]"] by simp
        then show ?thesis using assms(2) ne e by (fastforce dest: last_in_set)
      qed (use l in simp)
    qed
    then show ?thesis
      using assms False e by (auto simp: merge_extent_def apart_append) (auto simp: apart_def)
  qed
  then show "apart (merge_extent e merged)" "covers (merge_extent e merged) = covers merged \<union> {fst e..<snd e}"
    "\<forall>x \<in> set (merge_extent e merged). fst x \<le> fst e" by blast+
qed

lemma fold_merge_ok:
  assumes "apart merged" "sorted (map fst es)" "\<forall>e \<in> set es. fst e < snd e"
    "\<forall>x \<in> set merged. \<forall>e \<in> set es. fst x \<le> fst e"
  shows "apart (fold merge_extent es merged) \<and> covers (fold merge_extent es merged) = covers merged \<union> covers es"
  using assms
proof (induction es arbitrary: merged)
  case (Cons e es)
  have le: "\<forall>x \<in> set merged. fst x \<le> fst e" using Cons.prems(4) by simp
  have lt: "fst e < snd e" using Cons.prems(3) by simp
  note m = merge_extent_ok [OF Cons.prems(1) le lt]
  have "\<forall>x \<in> set (merge_extent e merged). \<forall>e' \<in> set es. fst x \<le> fst e'"
    using m(3) Cons.prems(2) by (auto intro: order_trans)
  then have "apart (fold merge_extent es (merge_extent e merged))
    \<and> covers (fold merge_extent es (merge_extent e merged)) = covers (merge_extent e merged) \<union> covers es"
    using Cons.prems m(1) by (intro Cons.IH) auto
  moreover have "covers (e # es) = {fst e..<snd e} \<union> covers es" by (cases e) simp
  ultimately show ?case by (simp add: m(2) Un_assoc)
qed simp

lemma apart_Cons: "apart ((a, b) # xs) \<longleftrightarrow> a < b \<and> (\<forall>x \<in> set xs. b < fst x) \<and> apart xs"
  by (auto simp: apart_def)

lemma covers_above: "apart xs \<Longrightarrow> \<forall>x \<in> set xs. n < fst x \<Longrightarrow> y \<in> covers xs \<Longrightarrow> n < y"
  by (auto simp: covers_def)

lemma least_eq: "P (x :: nat) \<Longrightarrow> (\<And>y. P y \<Longrightarrow> x \<le> y) \<Longrightarrow> (LEAST y. P y) = x"
  by (rule Least_equality)

lemma seek_data_loop_least:
  assumes "apart xs"
  shows "seek_data_loop offset xs =
    (if \<exists>x \<ge> offset. x \<in> covers xs then Inr (LEAST x. offset \<le> x \<and> x \<in> covers xs) else Inl NoData)"
  using assms
proof (induction offset xs rule: seek_data_loop.induct)
  case (2 offset start stop xs)
  have a: "start < stop" "\<forall>x \<in> set xs. stop < fst x" "apart xs" using 2(2) by (simp_all add: apart_Cons)
  have above: "stop < y" if "y \<in> covers xs" for y using covers_above [OF a(3,2) that] .
  consider "offset < start" | "start \<le> offset" "offset < stop" | "stop \<le> offset" by linarith
  then show ?case
  proof cases
    case 1
    have "(LEAST x. offset \<le> x \<and> x \<in> covers ((start, stop) # xs)) = start"
      by (rule least_eq) (use 1 a above in \<open>fastforce\<close>)+
    moreover have "\<exists>x \<ge> offset. x \<in> covers ((start, stop) # xs)" using 1 a by (intro exI [of _ start]) simp
    ultimately show ?thesis using 1 by simp
  next
    case 2
    have "(LEAST x. offset \<le> x \<and> x \<in> covers ((start, stop) # xs)) = offset"
      by (rule least_eq) (use 2 in simp_all)
    moreover have "\<exists>x \<ge> offset. x \<in> covers ((start, stop) # xs)" using 2 by (intro exI [of _ offset]) simp
    ultimately show ?thesis using 2 by simp
  next
    case 3
    then have "offset \<le> x \<and> x \<in> covers ((start, stop) # xs) \<longleftrightarrow> offset \<le> x \<and> x \<in> covers xs" for x by auto
    then show ?thesis using 3 a(1) 2(1) [OF _ _ a(3)] by simp
  qed
qed simp

lemma seek_hole_loop_least:
  assumes "apart xs" "covers xs \<subseteq> {..<sz}" "cursor \<le> sz"
  shows "seek_hole_loop sz cursor xs = (LEAST x. cursor \<le> x \<and> (x \<ge> sz \<or> x \<notin> covers xs))"
  using assms
proof (induction sz cursor xs rule: seek_hole_loop.induct)
  case (1 sz cursor)
  then show ?case by (intro least_eq [symmetric]) simp_all
next
  case (2 sz cursor start stop xs)
  have a: "start < stop" "\<forall>x \<in> set xs. stop < fst x" "apart xs" using 2(2) by (simp_all add: apart_Cons)
  have above: "stop < y" if "y \<in> covers xs" for y using covers_above [OF a(3,2) that] .
  have sub: "covers xs \<subseteq> {..<sz}" using 2(3) by auto
  have stop: "stop \<le> sz" using 2(3) a(1) by (force dest: subsetD [of _ _ "stop - 1"])
  show ?case
  proof (cases "cursor < start")
    case True
    have "(LEAST x. cursor \<le> x \<and> (x \<ge> sz \<or> x \<notin> covers ((start, stop) # xs))) = cursor"
      by (rule least_eq) (use True a above in fastforce)+
    then show ?thesis using True by simp
  next
    case False
    let ?next = "if cursor < stop then stop else cursor"
    have ih: "seek_hole_loop sz ?next xs = (LEAST x. ?next \<le> x \<and> (x \<ge> sz \<or> x \<notin> covers xs))"
      using 2(1) [OF False a(3) sub] stop 2(4) by simp
    have "?next \<le> x \<and> (x \<ge> sz \<or> x \<notin> covers xs)
        \<longleftrightarrow> cursor \<le> x \<and> (x \<ge> sz \<or> x \<notin> covers ((start, stop) # xs))" for x
      using False stop by auto
    then show ?thesis using False ih by simp
  qed
qed

text \<open>The positions of a file that hold data.\<close>

definition has_data :: "inode \<Rightarrow> nat \<Rightarrow> bool" where
  "has_data inode x \<longleftrightarrow> x < i_size inode
     \<and> (i_inline_data inode \<noteq> None
        \<or> (\<exists>b \<in> set (i_blocks inode). b_raw_offset b \<le> x \<and> x < b_raw_offset b + b_raw_size b))"

lemma set_map_filter: "set (List.map_filter f xs) = {y. \<exists>x \<in> set xs. f x = Some y}"
  by (force simp: List.map_filter_def)

lemma block_extent_Some:
  "i_size inode \<le> u64_max \<Longrightarrow> block_extent inode b = Some (s, t)
   \<Longrightarrow> s < t \<and> {s..<t} = {x. x < i_size inode \<and> b_raw_offset b \<le> x \<and> x < b_raw_offset b + b_raw_size b}"
  by (auto simp: block_extent_def Let_def sat_add_def min_def split: if_splits)

lemma block_extent_None:
  "i_size inode \<le> u64_max \<Longrightarrow> block_extent inode b = None
   \<Longrightarrow> \<not> (x < i_size inode \<and> b_raw_offset b \<le> x \<and> x < b_raw_offset b + b_raw_size b)"
  by (auto simp: block_extent_def Let_def sat_add_def min_def split: if_splits)

lemma inode_data_extents_ok:
  assumes "i_size inode \<le> u64_max"
  shows "apart (inode_data_extents inode)"
    and "covers (inode_data_extents inode) = {x. x < i_size inode
      \<and> (\<exists>b \<in> set (i_blocks inode). b_raw_offset b \<le> x \<and> x < b_raw_offset b + b_raw_size b)}"
proof -
  let ?es = "List.map_filter (block_extent inode) (i_blocks inode)"
  have nonempty: "\<forall>e \<in> set ?es. fst e < snd e"
    using block_extent_Some [OF assms] by (auto simp: set_map_filter)
  have m: "apart (fold merge_extent (sort_key fst ?es) []) \<and> covers (fold merge_extent (sort_key fst ?es) []) = covers [] \<union> covers (sort_key fst ?es)"
    by (rule fold_merge_ok) (use nonempty in \<open>simp_all add: apart_def\<close>)
  then show "apart (inode_data_extents inode)" by (simp add: inode_data_extents_def)
  have "covers (inode_data_extents inode) = (\<Union>(a, b) \<in> set ?es. {a..<b})"
    using m by (simp add: inode_data_extents_def covers_def)
  also have "\<dots> = {x. x < i_size inode
      \<and> (\<exists>b \<in> set (i_blocks inode). b_raw_offset b \<le> x \<and> x < b_raw_offset b + b_raw_size b)}"
  proof (intro set_eqI iffI)
    fix x assume "x \<in> (\<Union>(a, b) \<in> set ?es. {a..<b})"
    then obtain s t b where "b \<in> set (i_blocks inode)" "block_extent inode b = Some (s, t)" "x \<in> {s..<t}"
      by (auto simp: set_map_filter)
    then show "x \<in> {x. x < i_size inode
        \<and> (\<exists>b \<in> set (i_blocks inode). b_raw_offset b \<le> x \<and> x < b_raw_offset b + b_raw_size b)}"
      using block_extent_Some [OF assms] by blast
  next
    fix x assume "x \<in> {x. x < i_size inode
        \<and> (\<exists>b \<in> set (i_blocks inode). b_raw_offset b \<le> x \<and> x < b_raw_offset b + b_raw_size b)}"
    then obtain b where b: "b \<in> set (i_blocks inode)"
      "x < i_size inode \<and> b_raw_offset b \<le> x \<and> x < b_raw_offset b + b_raw_size b" by blast
    then obtain s t where st: "block_extent inode b = Some (s, t)"
      using block_extent_None [OF assms, of b] by (cases "block_extent inode b") auto
    then have "(s, t) \<in> set ?es" using b(1) by (auto simp: set_map_filter)
    moreover have "x \<in> {s..<t}" using block_extent_Some [OF assms st] b(2) by blast
    ultimately show "x \<in> (\<Union>(a, b) \<in> set ?es. {a..<b})" by blast
  qed
  finally show "covers (inode_data_extents inode) = {x. x < i_size inode
      \<and> (\<exists>b \<in> set (i_blocks inode). b_raw_offset b \<le> x \<and> x < b_raw_offset b + b_raw_size b)}" .
qed

lemma has_data_covers:
  assumes "i_size inode \<le> u64_max" "i_inline_data inode = None"
  shows "has_data inode x \<longleftrightarrow> x \<in> covers (inode_data_extents inode)"
  using assms by (simp add: has_data_def inode_data_extents_ok)

lemma seek_data_least:
  assumes "i_size inode \<le> u64_max"
  shows "seek_data inode offset =
    (if \<exists>x \<ge> offset. has_data inode x then Inr (LEAST x. offset \<le> x \<and> has_data inode x) else Inl NoData)"
proof -
  consider "i_size inode \<le> offset" | "offset < i_size inode" "i_inline_data inode \<noteq> None"
    | "offset < i_size inode" "i_inline_data inode = None" by fastforce
  then show ?thesis
  proof cases
    case 1
    then have "\<not> (\<exists>x \<ge> offset. has_data inode x)" by (auto simp: has_data_def)
    then show ?thesis using 1 by (simp add: seek_data_def)
  next
    case 2
    then have here: "has_data inode offset" by (simp add: has_data_def)
    then have "(LEAST x. offset \<le> x \<and> has_data inode x) = offset" by (intro least_eq) simp_all
    moreover have "\<exists>x \<ge> offset. has_data inode x" using here by blast
    ultimately show ?thesis using 2 by (simp add: seek_data_def)
  next
    case 3
    then show ?thesis
      using seek_data_loop_least [OF inode_data_extents_ok(1) [OF assms], of offset]
      by (simp add: seek_data_def has_data_covers [OF assms 3(2)])
  qed
qed

lemma seek_hole_least:
  assumes "i_size inode \<le> u64_max"
  shows "seek_hole inode offset =
    (if offset \<le> i_size inode then Inr (LEAST x. offset \<le> x \<and> \<not> has_data inode x) else Inl NoData)"
proof -
  consider "i_size inode < offset" | "offset = i_size inode"
    | "offset < i_size inode" "i_inline_data inode \<noteq> None" | "offset < i_size inode" "i_inline_data inode = None"
    by fastforce
  then show ?thesis
  proof cases
    case 1
    then show ?thesis by (simp add: seek_hole_def)
  next
    case 2
    have "(LEAST x. offset \<le> x \<and> \<not> has_data inode x) = offset"
      by (rule least_eq) (simp_all add: has_data_def 2)
    then show ?thesis using 2 by (simp add: seek_hole_def)
  next
    case 3
    have "(LEAST x. offset \<le> x \<and> \<not> has_data inode x) = i_size inode"
    proof (rule least_eq)
      show "offset \<le> i_size inode \<and> \<not> has_data inode (i_size inode)" using 3 by (simp add: has_data_def)
      show "i_size inode \<le> y" if "offset \<le> y \<and> \<not> has_data inode y" for y
        using that 3(2) by (auto simp: has_data_def)
    qed
    then show ?thesis using 3 by (simp add: seek_hole_def)
  next
    case 4
    note e = inode_data_extents_ok [OF assms]
    have sub: "covers (inode_data_extents inode) \<subseteq> {..<i_size inode}" by (auto simp: e(2))
    have "\<not> has_data inode x \<longleftrightarrow> x \<ge> i_size inode \<or> x \<notin> covers (inode_data_extents inode)" for x
      using has_data_covers [OF assms 4(2), of x] sub by auto
    then show ?thesis
      using 4 seek_hole_loop_least [OF e(1) sub, of offset] by (simp add: seek_hole_def)
  qed
qed

text \<open>C38. \<open>SEEK_DATA\<close> returns the least position at or after the offset that holds data, and \<open>ENXIO\<close>
  exactly when there is none; \<open>SEEK_HOLE\<close> returns the least position at or after the offset that holds
  none, the end of the file counting as a hole, and fails exactly beyond the end. This holds for
  blocks in any order, overlapping or not.\<close>

theorem seek_least:
  assumes "i_size inode \<le> u64_max"
  shows "seek_data inode offset =
      (if \<exists>x \<ge> offset. has_data inode x then Inr (LEAST x. offset \<le> x \<and> has_data inode x) else Inl NoData)
    \<and> seek_hole inode offset =
      (if offset \<le> i_size inode then Inr (LEAST x. offset \<le> x \<and> \<not> has_data inode x) else Inl NoData)"
  using seek_data_least [OF assms] seek_hole_least [OF assms] by simp

text \<open>A file of 100 bytes with data in the first ten and from 40 to 60.\<close>

definition demo_block :: "nat \<Rightarrow> nat \<Rightarrow> file_block" where
  "demo_block offset len = \<lparr>b_layout_id = [], b_stripe_id = ''s'', b_raw_offset = offset, b_raw_size = len,
     b_raw_sha256 = [], b_codec = NoCompression, b_encrypted = False, b_nonce_hex = [], b_compressed_size = len,
     b_shard_size = len, b_shards = [], b_storage_class = Warm\<rparr>"

definition demo_sparse :: inode where
  "demo_sparse = demo_inode\<lparr>i_size := 100, i_blocks := [demo_block 40 20, demo_block 0 10]\<rparr>"

theorem seek_least_witness:
  "seek_data demo_sparse 20 = Inr 40 \<and> seek_hole demo_sparse 45 = Inr 60
   \<and> (LEAST x. 20 \<le> x \<and> has_data demo_sparse x) = 40 \<and> (LEAST x. 45 \<le> x \<and> \<not> has_data demo_sparse x) = 60"
proof -
  have size: "i_size demo_sparse \<le> u64_max" by (simp add: demo_sparse_def u64_max_def)
  have extents: "inode_data_extents demo_sparse = [(0, 10), (40, 60)]"
    by (simp add: inode_data_extents_def demo_sparse_def demo_inode_def demo_block_def List.map_filter_def block_extent_def
        merge_extent_def sat_add_def u64_max_def)
  have "i_inline_data demo_sparse = None" "i_size demo_sparse = 100" by (simp_all add: demo_sparse_def demo_inode_def)
  then have "seek_data demo_sparse 20 = Inr 40" "seek_hole demo_sparse 45 = Inr 60"
    by (simp_all add: seek_data_def seek_hole_def extents)
  moreover have "\<exists>x \<ge> 20. has_data demo_sparse x"
    using seek_least [OF size, of 20] calculation(1) by (metis Inl_Inr_False)
  ultimately show ?thesis
    using seek_least [OF size, of 20] seek_least [OF size, of 45] \<open>i_size demo_sparse = 100\<close> by simp
qed

end
