(* ===== verification/Argos_Verify.thy ===== *)
theory Argos_Verify
  imports Argos_Helpers "HOL-Library.Product_Lexorder"
begin

text \<open>
  \<open>src/volume/verify_after_write.rs\<close>: the background verifier of raw shard writes. Writers enqueue an
  extent, reclaiming an extent invalidates its entry, and one worker thread takes due entries, forces
  them to stable storage, reads them back and compares the hash. A failed check is retried; when the
  retries are used up and the extent is still live, the device is quarantined.

  The queue operations are functions. The worker is a state machine whose steps are the stretches of
  \<open>verify\<close> between two lock acquisitions, so that enqueues, invalidations, \<open>stop\<close> and metadata changes
  interleave with it as the other threads do. Outcomes of device calls are arguments of the steps;
  times are in milliseconds.
\<close>

section \<open>The queue\<close>

record verify_op =
  vo_due :: nat
  vo_retries :: nat
  vo_serial :: nat
  vo_disk_id :: string
  vo_offset :: nat
  vo_generation :: nat
  vo_length :: nat
  vo_hash :: string
  vo_stripe_id :: string

record verify_queue =
  vq_pending :: "verify_op list"
  vq_active :: "(string \<times> nat, nat) btree"
  vq_stop :: bool
  vq_next_serial :: nat
  vq_delay :: nat
  vq_max_retries :: nat
  vq_checks :: nat
  vq_retries :: nat
  vq_failures :: nat
  vq_skipped :: nat

definition MAX_QUEUE :: nat where "MAX_QUEUE = 8192"
definition MIN_DELAY_MS :: nat where "MIN_DELAY_MS = 10"
definition MAX_DELAY_MS :: nat where "MAX_DELAY_MS = 60 * 60 * 1000"

definition configured_delay :: "string option \<Rightarrow> string option \<Rightarrow> nat option" where
  "configured_delay delay_var usb_var =
     (let millis = (case Option.bind delay_var (\<lambda>v. parse_uint u64_max (trim v)) of
                      Some n \<Rightarrow> n | None \<Rightarrow> if env_flag usb_var then 60000 else 0)
      in if millis \<noteq> 0 then Some (min (max millis MIN_DELAY_MS) MAX_DELAY_MS) else None)"

text \<open>The values of \<open>ARGOS_VERIFY_WRITE_RETRIES\<close> and \<open>ARGOSFS_VERIFY_WRITE_RETRIES\<close>, in this order.\<close>

fun configured_verify_retries :: "string option list \<Rightarrow> nat" where
  "configured_verify_retries [] = 3"
| "configured_verify_retries (var # vars) =
     (case Option.bind var (\<lambda>v. parse_uint (2 ^ 32 - 1) (trim v)) of
        Some n \<Rightarrow> min n 10
      | None \<Rightarrow> configured_verify_retries vars)"

definition verify_start :: "nat \<Rightarrow> nat \<Rightarrow> verify_queue" where
  "verify_start delay max_retries =
     \<lparr>vq_pending = [], vq_active = [], vq_stop = False, vq_next_serial = 0, vq_delay = delay,
      vq_max_retries = min max_retries 10, vq_checks = 0, vq_retries = 0, vq_failures = 0, vq_skipped = 0\<rparr>"

definition op_key :: "verify_op \<Rightarrow> string \<times> nat" where
  "op_key op = (vo_disk_id op, vo_offset op)"

definition is_current :: "verify_queue \<Rightarrow> verify_op \<Rightarrow> bool" where
  "is_current q op \<longleftrightarrow> map_of (vq_active q) (op_key op) = Some (vo_serial op)"

definition remove_active :: "verify_op \<Rightarrow> verify_queue \<Rightarrow> verify_queue" where
  "remove_active op q = (if is_current q op then q\<lparr>vq_active := bt_remove (op_key op) (vq_active q)\<rparr> else q)"

definition skip_one :: "verify_queue \<Rightarrow> verify_queue" where
  "skip_one q = q\<lparr>vq_skipped := wrap_add (vq_skipped q) 1\<rparr>"

definition bounded_push :: "verify_op \<Rightarrow> verify_queue \<Rightarrow> verify_queue" where
  "bounded_push op q =
     (let q1 = (if length (vq_pending q) \<ge> MAX_QUEUE
                then case vq_pending q of
                       evicted # rest \<Rightarrow> skip_one (remove_active evicted (q\<lparr>vq_pending := rest\<rparr>))
                     | [] \<Rightarrow> q
                else q)
      in q1\<lparr>vq_pending := vq_pending q1 @ [op]\<rparr>)"

text \<open>\<open>stopped\<close> is what the second reading of the flag, under the queue lock, returns.\<close>

definition enqueue ::
  "nat \<Rightarrow> bool \<Rightarrow> string \<Rightarrow> nat \<Rightarrow> nat \<Rightarrow> nat \<Rightarrow> string \<Rightarrow> string \<Rightarrow> verify_queue \<Rightarrow> verify_queue" where
  "enqueue now stopped disk_id offset generation len hash stripe_id q =
     (if len = 0 \<or> vq_stop q then q
      else let serial = vq_next_serial q; q1 = q\<lparr>vq_next_serial := wrap_add serial 1\<rparr>
           in if stopped then skip_one q1
              else bounded_push
                     \<lparr>vo_due = now + vq_delay q, vo_retries = 0, vo_serial = serial, vo_disk_id = disk_id,
                      vo_offset = offset, vo_generation = generation, vo_length = len, vo_hash = hash,
                      vo_stripe_id = stripe_id\<rparr>
                     (q1\<lparr>vq_active := bt_insert (disk_id, offset) serial (vq_active q1)\<rparr>))"

definition verify_invalidate :: "string \<Rightarrow> nat \<Rightarrow> verify_queue \<Rightarrow> verify_queue" where
  "verify_invalidate disk_id offset q = q\<lparr>vq_active := bt_remove (disk_id, offset) (vq_active q)\<rparr>"

definition skip_op :: "verify_op \<Rightarrow> verify_queue \<Rightarrow> verify_queue" where
  "skip_op op q = remove_active op (skip_one q)"

definition take_due :: "nat \<Rightarrow> verify_queue \<Rightarrow> (verify_op \<times> verify_queue) option" where
  "take_due now q =
     (case position (\<lambda>op. vo_due op \<le> now) (vq_pending q) of
        Some i \<Rightarrow> Some (vq_pending q ! i, q\<lparr>vq_pending := remove_nth i (vq_pending q)\<rparr>)
      | None \<Rightarrow> None)"

definition verify_stop :: "verify_queue \<Rightarrow> verify_queue" where
  "verify_stop q =
     (if vq_stop q then q
      else q\<lparr>vq_stop := True, vq_skipped := wrap_add (vq_skipped q) (length (vq_pending q)),
             vq_pending := [], vq_active := []\<rparr>)"

definition live_in_metadata :: "metadata \<Rightarrow> verify_op \<Rightarrow> bool" where
  "live_in_metadata meta op \<longleftrightarrow>
     list_ex (\<lambda>sh. s_disk_id sh = vo_disk_id op \<and> s_size sh = vo_length op \<and> s_sha256 sh = vo_hash op
                \<and> (case s_location sh of
                     Some (RawExtent extent) \<Rightarrow> ext_offset extent = vo_offset op \<and> ext_generation extent = vo_generation op
                   | _ \<Rightarrow> False))
       (concat (map b_shards (filter (\<lambda>b. b_stripe_id b = vo_stripe_id op)
          (concat (map i_blocks (bt_values (m_inodes meta)))))))"

section \<open>The worker\<close>

datatype flush_outcome = Flushed | EvictionUnsupported | FlushFailed

text \<open>\<open>Checking\<close>: the check is counted, the flush is running; \<open>Reading\<close>: the read is running;
  \<open>Checked\<close>: whether a problem was found; \<open>Retrying\<close>: the entry goes back to the queue; \<open>Deciding\<close>:
  the retries are used up.\<close>

datatype worker = Idle | Taken verify_op | Checking verify_op | Reading verify_op | Checked verify_op bool
  | Retrying verify_op | Deciding verify_op

datatype event = Enqueued "string \<times> nat" nat | Invalidated "string \<times> nat" | CheckFailed nat | Verified nat | Quarantined verify_op

record verifier =
  vf_queue :: verify_queue
  vf_worker :: worker
  vf_meta :: metadata
  vf_quarantined :: "string list"
  vf_fenced :: bool

text \<open>\<open>verify\<close> up to the flush: \<open>reachable\<close> is whether a backend for the device is found.\<close>

definition verify_open :: "bool \<Rightarrow> verify_op \<Rightarrow> verify_queue \<Rightarrow> verify_queue \<times> worker" where
  "verify_open reachable op q =
     (if \<not> is_current q op \<or> vq_stop q then (skip_op op q, Idle)
      else if \<not> reachable then (skip_op op q, Idle)
      else (q\<lparr>vq_checks := wrap_add (vq_checks q) 1\<rparr>, Checking op))"

definition verify_flushed :: "flush_outcome \<Rightarrow> verify_op \<Rightarrow> verify_queue \<Rightarrow> verify_queue \<times> worker" where
  "verify_flushed outcome op q =
     (case outcome of
        Flushed \<Rightarrow> if vq_stop q \<or> \<not> is_current q op then (skip_op op q, Idle) else (q, Reading op)
      | EvictionUnsupported \<Rightarrow> (skip_op op q, Idle)
      | FlushFailed \<Rightarrow> (q, Checked op True))"

definition verify_read :: "hashes \<Rightarrow> 8 word list option \<Rightarrow> verify_op \<Rightarrow> bool" where
  "verify_read hs data op =
     (case data of Some bytes \<Rightarrow> \<not> content_hash_matches hs bytes (vo_hash op) | None \<Rightarrow> True)"

definition verify_checked :: "nat \<Rightarrow> verify_op \<Rightarrow> bool \<Rightarrow> verify_queue \<Rightarrow> verify_queue \<times> worker" where
  "verify_checked now op problem q =
     (if vq_stop q \<or> \<not> is_current q op then (skip_op op q, Idle)
      else if \<not> problem then (remove_active op q, Idle)
      else if vo_retries op < vq_max_retries q
      then (q\<lparr>vq_retries := wrap_add (vq_retries q) 1\<rparr>,
            Retrying (op\<lparr>vo_retries := vo_retries op + 1, vo_due := now + vq_delay q\<rparr>))
      else (q, Deciding op))"

definition verify_retry :: "verify_op \<Rightarrow> verify_queue \<Rightarrow> verify_queue" where
  "verify_retry op q = (if is_current q op \<and> \<not> vq_stop q then bounded_push op q else skip_one q)"

definition verify_decide :: "verify_op \<Rightarrow> verifier \<Rightarrow> verifier" where
  "verify_decide op s =
     (let q = vf_queue s
      in if \<not> is_current q op \<or> \<not> live_in_metadata (vf_meta s) op then s\<lparr>vf_queue := skip_op op q, vf_worker := Idle\<rparr>
         else let unavailable = bs_insert (vo_disk_id op) (vf_quarantined s)
              in s\<lparr>vf_quarantined := unavailable,
                   vf_fenced := vf_fenced s \<or> \<not> is_ok (validate_data_durability_snapshot (vf_meta s) unavailable),
                   vf_queue := remove_active op (q\<lparr>vq_failures := wrap_add (vq_failures q) 1\<rparr>),
                   vf_worker := Idle\<rparr>)"

section \<open>Histories\<close>

text \<open>What happened, newest first. The rules up to \<open>others\<close> are the other threads; \<open>late\<close> is an enqueue
  whose second look at the flag comes after \<open>stop\<close>.\<close>

inductive vrun :: "hashes \<Rightarrow> verifier \<Rightarrow> event list \<Rightarrow> verifier \<Rightarrow> bool" for hs s0 where
  start: "vrun hs s0 [] s0"
| enq: "vrun hs s0 tr s \<Longrightarrow> 0 < len \<Longrightarrow> \<not> vq_stop (vf_queue s) \<Longrightarrow> vq_next_serial (vf_queue s) < u64_max
    \<Longrightarrow> vrun hs s0 (Enqueued (disk, offset) (vq_next_serial (vf_queue s)) # tr)
          (s\<lparr>vf_queue := enqueue now False disk offset generation len hash stripe (vf_queue s)\<rparr>)"
| late: "vrun hs s0 tr s \<Longrightarrow> 0 < len \<Longrightarrow> \<not> vq_stop (vf_queue s) \<Longrightarrow> vq_next_serial (vf_queue s) < u64_max
    \<Longrightarrow> vrun hs s0 tr (s\<lparr>vf_queue := verify_stop (enqueue now True disk offset generation len hash stripe (vf_queue s))\<rparr>)"
| inval: "vrun hs s0 tr s \<Longrightarrow> vrun hs s0 (Invalidated (disk, offset) # tr) (s\<lparr>vf_queue := verify_invalidate disk offset (vf_queue s)\<rparr>)"
| stop: "vrun hs s0 tr s \<Longrightarrow> vrun hs s0 tr (s\<lparr>vf_queue := verify_stop (vf_queue s)\<rparr>)"
| others: "vrun hs s0 tr s \<Longrightarrow> vrun hs s0 tr (s\<lparr>vf_meta := meta, vf_quarantined := quarantined, vf_fenced := fenced\<rparr>)"
| tke: "vrun hs s0 tr s \<Longrightarrow> vf_worker s = Idle \<Longrightarrow> \<not> vq_stop (vf_queue s) \<Longrightarrow> take_due now (vf_queue s) = Some (op, q)
    \<Longrightarrow> vrun hs s0 tr (s\<lparr>vf_queue := q, vf_worker := Taken op\<rparr>)"
| opn: "vrun hs s0 tr s \<Longrightarrow> vf_worker s = Taken op \<Longrightarrow> verify_open reachable op (vf_queue s) = (q, w)
    \<Longrightarrow> vrun hs s0 tr (s\<lparr>vf_queue := q, vf_worker := w\<rparr>)"
| flushed: "vrun hs s0 tr s \<Longrightarrow> vf_worker s = Checking op \<Longrightarrow> verify_flushed outcome op (vf_queue s) = (q, w)
    \<Longrightarrow> vrun hs s0 tr (s\<lparr>vf_queue := q, vf_worker := w\<rparr>)"
| rd: "vrun hs s0 tr s \<Longrightarrow> vf_worker s = Reading op
    \<Longrightarrow> vrun hs s0 tr (s\<lparr>vf_worker := Checked op (verify_read hs data op)\<rparr>)"
| checked: "vrun hs s0 tr s \<Longrightarrow> vf_worker s = Checked op problem \<Longrightarrow> verify_checked now op problem (vf_queue s) = (q, w)
    \<Longrightarrow> ev = (if vq_stop (vf_queue s) \<or> \<not> is_current (vf_queue s) op then []
              else if problem then [CheckFailed (vo_serial op)] else [Verified (vo_serial op)])
    \<Longrightarrow> vrun hs s0 (ev @ tr) (s\<lparr>vf_queue := q, vf_worker := w\<rparr>)"
| retry: "vrun hs s0 tr s \<Longrightarrow> vf_worker s = Retrying op
    \<Longrightarrow> vrun hs s0 tr (s\<lparr>vf_queue := verify_retry op (vf_queue s), vf_worker := Idle\<rparr>)"
| decide: "vrun hs s0 tr s \<Longrightarrow> vf_worker s = Deciding op
    \<Longrightarrow> ev = (if is_current (vf_queue s) op \<and> live_in_metadata (vf_meta s) op then [Quarantined op] else [])
    \<Longrightarrow> vrun hs s0 (ev @ tr) (verify_decide op s)"

section \<open>Lemmas\<close>

fun worker_ops :: "worker \<Rightarrow> verify_op list" where
  "worker_ops Idle = []"
| "worker_ops (Taken op) = [op]"
| "worker_ops (Checking op) = [op]"
| "worker_ops (Reading op) = [op]"
| "worker_ops (Checked op _) = [op]"
| "worker_ops (Retrying op) = [op]"
| "worker_ops (Deciding op) = [op]"

text \<open>The last thing said about an extent.\<close>

fun latest :: "string \<times> nat \<Rightarrow> event list \<Rightarrow> nat option" where
  "latest key [] = None"
| "latest key (Enqueued k n # tr) = (if k = key then Some n else latest key tr)"
| "latest key (Invalidated k # tr) = (if k = key then None else latest key tr)"
| "latest key (_ # tr) = latest key tr"

definition verified_count :: "event list \<Rightarrow> nat" where
  "verified_count tr = length (filter (\<lambda>e. case e of Verified _ \<Rightarrow> True | _ \<Rightarrow> False) tr)"

text \<open>Every serial is accounted for: skipped, failed, verified, queued or one of \<open>k\<close> in flight.\<close>

definition acct :: "event list \<Rightarrow> verify_queue \<Rightarrow> nat \<Rightarrow> bool" where
  "acct tr q k \<longleftrightarrow>
     vq_next_serial q = vq_skipped q + vq_failures q + verified_count tr + length (vq_pending q) + k
     \<and> vq_next_serial q \<le> u64_max \<and> length (vq_pending q) \<le> MAX_QUEUE"

definition act_ok :: "event list \<Rightarrow> verify_queue \<Rightarrow> bool" where
  "act_ok tr q \<longleftrightarrow> (\<forall>key n. map_of (vq_active q) key = Some n \<longrightarrow> latest key tr = Some n)"

text \<open>How many checks of an entry have failed so far, by where the entry is.\<close>

definition fails :: "event list \<Rightarrow> nat \<Rightarrow> nat" where
  "fails tr n = count_list tr (CheckFailed n)"

fun worker_fails :: "event list \<Rightarrow> nat \<Rightarrow> worker \<Rightarrow> bool" where
  "worker_fails tr m Idle = True"
| "worker_fails tr m (Deciding op) \<longleftrightarrow> vo_retries op = m \<and> fails tr (vo_serial op) = m + 1"
| "worker_fails tr m (Taken op) \<longleftrightarrow> fails tr (vo_serial op) = vo_retries op \<and> vo_retries op \<le> m"
| "worker_fails tr m (Checking op) \<longleftrightarrow> fails tr (vo_serial op) = vo_retries op \<and> vo_retries op \<le> m"
| "worker_fails tr m (Reading op) \<longleftrightarrow> fails tr (vo_serial op) = vo_retries op \<and> vo_retries op \<le> m"
| "worker_fails tr m (Checked op _) \<longleftrightarrow> fails tr (vo_serial op) = vo_retries op \<and> vo_retries op \<le> m"
| "worker_fails tr m (Retrying op) \<longleftrightarrow> fails tr (vo_serial op) = vo_retries op \<and> vo_retries op \<le> m"

definition ops_ok :: "event list \<Rightarrow> verify_queue \<Rightarrow> verify_op list \<Rightarrow> bool" where
  "ops_ok tr q ops \<longleftrightarrow>
     distinct (map vo_serial (ops @ vq_pending q))
     \<and> (\<forall>op \<in> set (ops @ vq_pending q). vo_serial op < vq_next_serial q)
     \<and> (\<forall>op \<in> set (vq_pending q). fails tr (vo_serial op) = vo_retries op \<and> vo_retries op \<le> vq_max_retries q)
     \<and> (\<forall>n \<ge> vq_next_serial q. fails tr n = 0)"

lemma fails_simps [simp]:
  "fails (Enqueued k n # tr) m = fails tr m" "fails (Invalidated k # tr) m = fails tr m"
  "fails (Verified n # tr) m = fails tr m" "fails (Quarantined op # tr) m = fails tr m"
  "fails (CheckFailed n # tr) m = fails tr m + (if m = n then 1 else 0)"
  by (auto simp: fails_def)

lemma remove_active_simps [simp]:
  "vq_pending (remove_active op q) = vq_pending q" "vq_next_serial (remove_active op q) = vq_next_serial q"
  "vq_skipped (remove_active op q) = vq_skipped q" "vq_failures (remove_active op q) = vq_failures q"
  "vq_max_retries (remove_active op q) = vq_max_retries q" "vq_stop (remove_active op q) = vq_stop q"
  by (simp_all add: remove_active_def)

lemma skip_one_simps [simp]:
  "vq_pending (skip_one q) = vq_pending q" "vq_next_serial (skip_one q) = vq_next_serial q"
  "vq_skipped (skip_one q) = wrap_add (vq_skipped q) 1" "vq_failures (skip_one q) = vq_failures q"
  "vq_max_retries (skip_one q) = vq_max_retries q" "vq_stop (skip_one q) = vq_stop q" "vq_active (skip_one q) = vq_active q"
  by (simp_all add: skip_one_def)

lemma active_remove: "map_of (vq_active (remove_active op q)) key = Some n \<Longrightarrow> map_of (vq_active q) key = Some n"
  by (auto simp: remove_active_def split: if_splits)

lemma act_ok_weaken: "act_ok tr q \<Longrightarrow> (\<And>key n. map_of (vq_active q') key = Some n \<Longrightarrow> map_of (vq_active q) key = Some n) \<Longrightarrow> act_ok tr q'"
  by (simp add: act_ok_def)

text \<open>Pushing an entry: one more in the queue, or one more skipped.\<close>

lemma bounded_push_cases:
  assumes "length (vq_pending q) \<le> MAX_QUEUE"
  obtains (room) "length (vq_pending q) < MAX_QUEUE" "bounded_push op q = q\<lparr>vq_pending := vq_pending q @ [op]\<rparr>"
  | (full) old rest where "vq_pending q = old # rest" "length rest < MAX_QUEUE"
      "bounded_push op q = (skip_one (remove_active old (q\<lparr>vq_pending := rest\<rparr>)))\<lparr>vq_pending := rest @ [op]\<rparr>"
proof (cases "length (vq_pending q) < MAX_QUEUE")
  case False
  then have "vq_pending q \<noteq> []" by (auto simp: MAX_QUEUE_def)
  then obtain old rest where "vq_pending q = old # rest" by (cases "vq_pending q") auto
  then show ?thesis using False assms full by (simp add: bounded_push_def Let_def)
qed (use room in \<open>simp add: bounded_push_def\<close>)

lemma push_acct: "acct tr q (Suc k) \<Longrightarrow> acct tr (bounded_push op q) k"
proof -
  assume a: "acct tr q (Suc k)"
  then have "length (vq_pending q) \<le> MAX_QUEUE" by (simp add: acct_def)
  then show ?thesis
  proof (cases rule: bounded_push_cases [where op = op])
    case (full old rest)
    then show ?thesis using a by (simp add: acct_def wrap_add_eq)
  qed (use a in \<open>simp add: acct_def\<close>)
qed

lemma push_ops:
  assumes "ops_ok tr q (op # ops)" "length (vq_pending q) \<le> MAX_QUEUE"
    "fails tr (vo_serial op) = vo_retries op" "vo_retries op \<le> vq_max_retries q"
  shows "ops_ok tr (bounded_push op q) ops"
  using assms(2)
proof (cases rule: bounded_push_cases [where op = op])
  case (full old rest)
  then show ?thesis using assms by (auto simp: ops_ok_def)
qed (use assms in \<open>auto simp: ops_ok_def\<close>)

lemma push_active:
  assumes "length (vq_pending q) \<le> MAX_QUEUE" "map_of (vq_active (bounded_push op q)) key = Some n"
  shows "map_of (vq_active q) key = Some n"
  using assms(1)
proof (cases rule: bounded_push_cases [where op = op])
  case (full old rest)
  then show ?thesis using assms(2) active_remove [of old "q\<lparr>vq_pending := rest\<rparr>" key n] by simp
qed (use assms in simp)

lemma push_keeps:
  assumes "length (vq_pending q) \<le> MAX_QUEUE"
  shows "vq_max_retries (bounded_push op q) = vq_max_retries q"
  using assms by (cases rule: bounded_push_cases [where op = op]) simp_all

lemma skip_acct: "acct tr q (Suc k) \<Longrightarrow> acct tr (skip_op op q) k"
  by (simp add: acct_def skip_op_def wrap_add_eq)

lemma skip_ops: "ops_ok tr q (op # ops) \<Longrightarrow> ops_ok tr (skip_op op' q) ops"
  by (auto simp: ops_ok_def skip_op_def)

lemma skip_active: "act_ok tr q \<Longrightarrow> act_ok tr (skip_op op q)"
  by (erule act_ok_weaken) (auto simp: skip_op_def dest: active_remove)

text \<open>The invariant of a run.\<close>

definition vinv :: "nat \<Rightarrow> event list \<Rightarrow> verifier \<Rightarrow> bool" where
  "vinv m tr s \<longleftrightarrow> acct tr (vf_queue s) (length (worker_ops (vf_worker s))) \<and> act_ok tr (vf_queue s)
     \<and> ops_ok tr (vf_queue s) (worker_ops (vf_worker s)) \<and> worker_fails tr m (vf_worker s) \<and> vq_max_retries (vf_queue s) = m"

lemma vinv_skip:
  assumes "vinv m tr s" "worker_ops (vf_worker s) = [op]"
  shows "vinv m tr (s\<lparr>vf_queue := skip_op op (vf_queue s), vf_worker := Idle\<rparr>)"
  using assms skip_acct [of tr "vf_queue s" 0 op] skip_ops [of tr "vf_queue s" op "[]" op] skip_active [of tr "vf_queue s" op]
  by (simp add: vinv_def) (simp add: skip_op_def)

lemma vinv_enq:
  assumes v: "vinv m tr s" and "0 < len" "\<not> vq_stop (vf_queue s)" "vq_next_serial (vf_queue s) < u64_max"
  shows "vinv m (Enqueued (disk, offset) (vq_next_serial (vf_queue s)) # tr)
    (s\<lparr>vf_queue := enqueue now False disk offset generation len hash stripe (vf_queue s)\<rparr>)"
proof -
  let ?q = "vf_queue s" and ?ops = "worker_ops (vf_worker s)"
  define n where "n = vq_next_serial ?q"
  define op where "op = \<lparr>vo_due = now + vq_delay ?q, vo_retries = 0, vo_serial = n, vo_disk_id = disk,
      vo_offset = offset, vo_generation = generation, vo_length = len, vo_hash = hash, vo_stripe_id = stripe\<rparr>"
  have next_n: "wrap_add n 1 = n + 1" using assms(4) by (simp add: wrap_add_eq n_def)
  define q1 where "q1 = ?q\<lparr>vq_next_serial := n + 1, vq_active := bt_insert (disk, offset) n (vq_active ?q)\<rparr>"
  let ?tr = "Enqueued (disk, offset) n # tr"
  have eq: "enqueue now False disk offset generation len hash stripe ?q = bounded_push op q1"
    using assms(2,3) next_n by (simp add: enqueue_def Let_def op_def q1_def n_def [symmetric])
  have len: "length (vq_pending q1) \<le> MAX_QUEUE" using v by (simp add: vinv_def acct_def q1_def)
  have cnt: "verified_count ?tr = verified_count tr" by (simp add: verified_count_def)
  have "acct ?tr q1 (Suc (length ?ops))" using v assms(4) by (simp add: vinv_def acct_def q1_def cnt) (simp add: n_def)
  then have a: "acct ?tr (bounded_push op q1) (length ?ops)" by (rule push_acct)
  have zero: "fails tr n = 0" using v by (simp add: vinv_def ops_ok_def n_def)
  have lt: "\<forall>p \<in> set (?ops @ vq_pending ?q). vo_serial p < n" using v by (simp add: vinv_def ops_ok_def n_def)
  have "\<forall>p \<in> set (?ops @ vq_pending ?q). vo_serial p < n + 1" using lt by (simp add: less_SucI)
  moreover have "n \<notin> vo_serial ` set ?ops" "n \<notin> vo_serial ` set (vq_pending ?q)" using lt by auto
  moreover have "ops_ok tr ?q ?ops" using v by (simp add: vinv_def)
  ultimately have "ops_ok ?tr q1 (op # ?ops)" by (simp add: ops_ok_def q1_def op_def n_def [symmetric] Suc_le_eq)
  then have o: "ops_ok ?tr (bounded_push op q1) ?ops"
    by (rule push_ops) (use len zero in \<open>simp_all add: op_def\<close>)
  have "act_ok ?tr q1" using v by (auto simp: vinv_def act_ok_def q1_def)
  then have c: "act_ok ?tr (bounded_push op q1)" by (rule act_ok_weaken) (rule push_active [OF len])
  have "worker_fails ?tr m (vf_worker s)" using v by (cases "vf_worker s") (simp_all add: vinv_def)
  then show ?thesis
    unfolding eq n_def [symmetric] using a o c v push_keeps [OF len, of op] by (simp add: vinv_def q1_def)
qed

lemma verified_count_append_other [simp]:
  "verified_count (CheckFailed n # tr) = verified_count tr" "verified_count (Invalidated k # tr) = verified_count tr"
  "verified_count (Quarantined op # tr) = verified_count tr" "verified_count (Verified n # tr) = Suc (verified_count tr)"
  by (simp_all add: verified_count_def)

lemma vinv_stop:
  assumes "vinv m tr s"
  shows "vinv m tr (s\<lparr>vf_queue := verify_stop (vf_queue s)\<rparr>)"
proof -
  have "acct tr (verify_stop (vf_queue s)) (length (worker_ops (vf_worker s)))"
    using assms by (auto simp: vinv_def acct_def verify_stop_def wrap_add_eq)
  then show ?thesis using assms by (auto simp: vinv_def verify_stop_def act_ok_def ops_ok_def)
qed

lemma vinv_late:
  assumes v: "vinv m tr s" and "\<not> vq_stop (vf_queue s)" "vq_next_serial (vf_queue s) < u64_max" "0 < len"
  shows "vinv m tr (s\<lparr>vf_queue := verify_stop (enqueue now True disk offset generation len hash stripe (vf_queue s))\<rparr>)"
proof -
  let ?q = "vf_queue s"
  have eq: "enqueue now True disk offset generation len hash stripe ?q = skip_one (?q\<lparr>vq_next_serial := vq_next_serial ?q + 1\<rparr>)"
    using assms(2-) by (simp add: enqueue_def Let_def wrap_add_eq)
  have "acct tr (skip_one (?q\<lparr>vq_next_serial := vq_next_serial ?q + 1\<rparr>)) (length (worker_ops (vf_worker s)))"
    using v assms(3) by (simp add: vinv_def acct_def wrap_add_eq)
  moreover have "ops_ok tr (skip_one (?q\<lparr>vq_next_serial := vq_next_serial ?q + 1\<rparr>)) (worker_ops (vf_worker s))"
    using v unfolding vinv_def ops_ok_def by (auto intro: less_SucI)
  ultimately have "vinv m tr (s\<lparr>vf_queue := skip_one (?q\<lparr>vq_next_serial := vq_next_serial ?q + 1\<rparr>)\<rparr>)"
    using v by (simp add: vinv_def act_ok_def)
  from vinv_stop [OF this] show ?thesis by (simp add: eq)
qed

lemma vinv_inval:
  assumes "vinv m tr s"
  shows "vinv m (Invalidated (disk, offset) # tr) (s\<lparr>vf_queue := verify_invalidate disk offset (vf_queue s)\<rparr>)"
proof -
  have "worker_fails (Invalidated (disk, offset) # tr) m (vf_worker s)"
    using assms by (cases "vf_worker s") (simp_all add: vinv_def)
  then show ?thesis
    using assms by (auto simp: vinv_def acct_def act_ok_def ops_ok_def verify_invalidate_def split: if_splits)
qed

lemma vinv_take:
  assumes "vinv m tr s" "vf_worker s = Idle" "take_due now (vf_queue s) = Some (op, q)"
  shows "vinv m tr (s\<lparr>vf_queue := q, vf_worker := Taken op\<rparr>)"
proof -
  obtain i where i: "i < length (vq_pending (vf_queue s))" "op = vq_pending (vf_queue s) ! i"
      "q = (vf_queue s)\<lparr>vq_pending := remove_nth i (vq_pending (vf_queue s))\<rparr>"
    using assms(3) by (auto simp: take_due_def position_Some_iff split: option.splits)
  define xs ys where "xs = take i (vq_pending (vf_queue s))" and "ys = drop (Suc i) (vq_pending (vf_queue s))"
  have p: "vq_pending (vf_queue s) = xs @ op # ys" using split_at_nth [OF i(1)] by (simp add: xs_def ys_def i(2))
  have r: "q = (vf_queue s)\<lparr>vq_pending := xs @ ys\<rparr>" by (simp add: i(3) remove_nth_def xs_def ys_def)
  show ?thesis using assms(1,2) by (auto simp: vinv_def acct_def act_ok_def ops_ok_def p r)
qed

text \<open>A step of the worker that keeps its entry and the queue's bookkeeping.\<close>

lemma vinv_same:
  assumes "vinv m tr s" "worker_ops w = worker_ops (vf_worker s)" "worker_fails tr m w"
    "vq_active q = vq_active (vf_queue s)" "vq_pending q = vq_pending (vf_queue s)"
    "vq_next_serial q = vq_next_serial (vf_queue s)" "vq_skipped q = vq_skipped (vf_queue s)"
    "vq_failures q = vq_failures (vf_queue s)" "vq_max_retries q = vq_max_retries (vf_queue s)"
  shows "vinv m tr (s\<lparr>vf_queue := q, vf_worker := w\<rparr>)"
proof -
  have "acct tr q k = acct tr (vf_queue s) k" for k unfolding acct_def by (simp only: assms(5-8))
  moreover have "act_ok tr q = act_ok tr (vf_queue s)" unfolding act_ok_def by (simp only: assms(4))
  moreover have "ops_ok tr q ops = ops_ok tr (vf_queue s) ops" for ops unfolding ops_ok_def by (simp only: assms(5,6,9))
  ultimately show ?thesis using assms(1-3,9) by (simp add: vinv_def)
qed

lemma vinv_open:
  assumes v: "vinv m tr s" and w: "vf_worker s = Taken op" and "verify_open reachable op (vf_queue s) = (q, w')"
  shows "vinv m tr (s\<lparr>vf_queue := q, vf_worker := w'\<rparr>)"
proof (cases "w' = Idle")
  case True
  then show ?thesis using assms vinv_skip [OF v, of op] by (auto simp: verify_open_def split: if_splits)
next
  case False
  then have "w' = Checking op" "q = (vf_queue s)\<lparr>vq_checks := wrap_add (vq_checks (vf_queue s)) 1\<rparr>"
    using assms(3) by (auto simp: verify_open_def split: if_splits)
  then show ?thesis using v w by (intro vinv_same) (simp_all add: vinv_def)
qed

lemma vinv_flushed:
  assumes v: "vinv m tr s" and w: "vf_worker s = Checking op" and "verify_flushed outcome op (vf_queue s) = (q, w')"
  shows "vinv m tr (s\<lparr>vf_queue := q, vf_worker := w'\<rparr>)"
proof (cases "w' = Idle")
  case True
  then show ?thesis
    using assms vinv_skip [OF v, of op] by (auto simp: verify_flushed_def split: if_splits flush_outcome.splits)
next
  case False
  then have "w' = Reading op \<or> w' = Checked op True" "q = vf_queue s"
    using assms(3) by (auto simp: verify_flushed_def split: if_splits flush_outcome.splits)
  then show ?thesis using v w by (intro vinv_same) (auto simp: vinv_def)
qed

lemma ops_failed:
  assumes "ops_ok tr q [op]"
  shows "ops_ok (CheckFailed (vo_serial op) # tr) q [op]"
proof -
  have "vo_serial op \<notin> vo_serial ` set (vq_pending q)" using assms by (simp add: ops_ok_def)
  then have other: "vo_serial p \<noteq> vo_serial op" if "p \<in> set (vq_pending q)" for p using that by (metis imageI)
  have "vo_serial op < vq_next_serial q" using assms by (simp add: ops_ok_def)
  then show ?thesis using assms other by (simp add: ops_ok_def)
qed

lemma vinv_checked:
  assumes v: "vinv m tr s" and w: "vf_worker s = Checked op problem"
    and step: "verify_checked now op problem (vf_queue s) = (q, w')"
    and ev: "ev = (if vq_stop (vf_queue s) \<or> \<not> is_current (vf_queue s) op then []
              else if problem then [CheckFailed (vo_serial op)] else [Verified (vo_serial op)])"
  shows "vinv m (ev @ tr) (s\<lparr>vf_queue := q, vf_worker := w'\<rparr>)"
proof -
  let ?q = "vf_queue s"
  consider (skip) "vq_stop ?q \<or> \<not> is_current ?q op" | (fine) "\<not> (vq_stop ?q \<or> \<not> is_current ?q op)" "\<not> problem"
    | (bad) "\<not> (vq_stop ?q \<or> \<not> is_current ?q op)" problem by blast
  then show ?thesis
  proof cases
    case skip
    then have "q = skip_op op ?q" "w' = Idle" "ev = []" using step ev by (simp_all add: verify_checked_def)
    moreover have "vinv m tr (s\<lparr>vf_queue := skip_op op ?q, vf_worker := Idle\<rparr>)" by (rule vinv_skip [OF v]) (simp add: w)
    ultimately show ?thesis by simp
  next
    case fine
    then have q: "q = remove_active op ?q" "w' = Idle" "ev = [Verified (vo_serial op)]" using step ev by (simp_all add: verify_checked_def)
    have "act_ok tr ?q" using v by (simp add: vinv_def)
    then have "act_ok tr q" unfolding q(1) by (rule act_ok_weaken) (rule active_remove)
    then have "act_ok (ev @ tr) q" by (simp add: act_ok_def q(3))
    moreover have "acct (ev @ tr) q 0" using v w by (simp add: vinv_def acct_def q)
    moreover have "ops_ok tr ?q [op]" using v w by (simp add: vinv_def)
    then have "ops_ok (ev @ tr) q []" by (simp add: ops_ok_def q)
    ultimately show ?thesis using v by (simp add: vinv_def q(2)) (simp add: q(1))
  next
    case bad
    let ?tr = "CheckFailed (vo_serial op) # tr"
    have ev': "ev = [CheckFailed (vo_serial op)]" using ev bad by simp
    have f: "fails tr (vo_serial op) = vo_retries op" "vo_retries op \<le> m" using v w by (simp_all add: vinv_def)
    have base: "acct ?tr ?q 1" "act_ok ?tr ?q" "ops_ok ?tr ?q [op]" "vq_max_retries ?q = m"
      using v w ops_failed [of tr ?q op] by (simp_all add: vinv_def acct_def act_ok_def)
    show ?thesis
    proof (cases "vo_retries op < m")
      case True
      let ?op = "op\<lparr>vo_retries := vo_retries op + 1, vo_due := now + vq_delay ?q\<rparr>"
      have q: "q = ?q\<lparr>vq_retries := wrap_add (vq_retries ?q) 1\<rparr>" "w' = Retrying ?op"
        using step bad True base(4) by (simp_all add: verify_checked_def)
      have "ops_ok ?tr q [?op]" using base(3) by (simp add: ops_ok_def q(1))
      moreover have "acct ?tr q 1" "act_ok ?tr q" using base(1,2) by (simp_all add: acct_def act_ok_def q(1))
      ultimately show ?thesis using True f base(4) by (simp add: vinv_def ev' q(2)) (simp add: q(1))
    next
      case False
      then have q: "q = ?q" "w' = Deciding op" using step bad base(4) by (simp_all add: verify_checked_def)
      show ?thesis using base False f by (simp add: vinv_def ev' q)
    qed
  qed
qed

lemma vinv_retry:
  assumes v: "vinv m tr s" and w: "vf_worker s = Retrying op"
  shows "vinv m tr (s\<lparr>vf_queue := verify_retry op (vf_queue s), vf_worker := Idle\<rparr>)"
proof -
  let ?q = "vf_queue s"
  have b: "acct tr ?q (Suc 0)" "act_ok tr ?q" "ops_ok tr ?q [op]" "vq_max_retries ?q = m"
    "fails tr (vo_serial op) = vo_retries op" "vo_retries op \<le> vq_max_retries ?q" "length (vq_pending ?q) \<le> MAX_QUEUE"
    using v w by (auto simp: vinv_def acct_def)
  show ?thesis
  proof (cases "is_current ?q op \<and> \<not> vq_stop ?q")
    case True
    have "act_ok tr (bounded_push op ?q)" using act_ok_weaken [OF b(2)] push_active [OF b(7)] by blast
    then show ?thesis
      using True push_acct [OF b(1)] push_ops [OF b(3,7,5,6)] push_keeps [OF b(7), of op] b(4)
      by (simp add: vinv_def verify_retry_def)
  next
    case False
    then have eq: "verify_retry op ?q = skip_one ?q" by (auto simp: verify_retry_def)
    have "acct tr (skip_one ?q) 0" "act_ok tr (skip_one ?q)" "ops_ok tr (skip_one ?q) []"
      using b(1-3) by (simp_all add: acct_def act_ok_def ops_ok_def wrap_add_eq)
    then show ?thesis using b(4) by (simp add: vinv_def eq)
  qed
qed

lemma vinv_decide:
  assumes v: "vinv m tr s" and w: "vf_worker s = Deciding op"
    and ev: "ev = (if is_current (vf_queue s) op \<and> live_in_metadata (vf_meta s) op then [Quarantined op] else [])"
  shows "vinv m (ev @ tr) (verify_decide op s)"
proof (cases "is_current (vf_queue s) op \<and> live_in_metadata (vf_meta s) op")
  case False
  then have "verify_decide op s = s\<lparr>vf_queue := skip_op op (vf_queue s), vf_worker := Idle\<rparr>" "ev = []"
    using ev by (auto simp: verify_decide_def Let_def)
  then show ?thesis using vinv_skip [OF v, of op] w by simp
next
  case True
  let ?q = "(vf_queue s)\<lparr>vq_failures := wrap_add (vq_failures (vf_queue s)) 1\<rparr>"
  have "act_ok tr (vf_queue s)" using v by (simp add: vinv_def)
  then have a: "act_ok tr (remove_active op ?q)"
    by (rule act_ok_weaken) (use active_remove [of op ?q] in simp)
  have queue: "vf_queue (verify_decide op s) = remove_active op ?q" "vf_worker (verify_decide op s) = Idle"
    using True by (simp_all add: verify_decide_def Let_def)
  have "acct (ev @ tr) (remove_active op ?q) 0" using v w True ev by (simp add: vinv_def acct_def wrap_add_eq)
  moreover have "act_ok (ev @ tr) (remove_active op ?q)" using a True ev by (simp add: act_ok_def)
  moreover have "ops_ok tr (vf_queue s) [op]" using v w by (simp add: vinv_def)
  then have "ops_ok (ev @ tr) (remove_active op ?q) []" using True ev by (simp add: ops_ok_def)
  ultimately show ?thesis using v by (simp add: vinv_def queue)
qed

text \<open>A verifier that has just been started.\<close>

definition fresh_verifier :: "nat \<Rightarrow> nat \<Rightarrow> metadata \<Rightarrow> string list \<Rightarrow> bool \<Rightarrow> verifier" where
  "fresh_verifier delay max_retries meta quarantined fenced =
     \<lparr>vf_queue = verify_start delay max_retries, vf_worker = Idle, vf_meta = meta,
      vf_quarantined = quarantined, vf_fenced = fenced\<rparr>"

lemma vrun_inv:
  assumes "vrun hs (fresh_verifier delay r meta quarantined fenced) tr s"
  shows "vinv (min r 10) tr s"
  using assms
proof (induction rule: vrun.induct)
  case start
  then show ?case
    by (simp add: vinv_def fresh_verifier_def verify_start_def acct_def act_ok_def ops_ok_def verified_count_def fails_def)
next
  case (others tr s meta quarantined fenced)
  then show ?case by (simp add: vinv_def)
next
  case (rd tr s op data)
  then show ?case by (simp add: vinv_def)
next
  case enq
  then show ?case by (intro vinv_enq)
next
  case late
  then show ?case by (intro vinv_late)
next
  case inval
  then show ?case by (intro vinv_inval)
next
  case stop
  then show ?case by (intro vinv_stop)
next
  case tke
  then show ?case by (elim vinv_take)
next
  case opn
  then show ?case by (elim vinv_open)
next
  case flushed
  then show ?case by (elim vinv_flushed)
next
  case checked
  then show ?case by (elim vinv_checked)
next
  case retry
  then show ?case by (elim vinv_retry)
next
  case decide
  then show ?case by (elim vinv_decide)
qed

text \<open>C35. However writers, reclamation, metadata changes and shutdown interleave with the verifier, no
  enqueued write is lost from its books: the number of serials handed out is the number verified, skipped
  and failed plus the entries still queued or in the worker's hands, and the queue never exceeds its bound.\<close>

theorem verify_accounting:
  assumes "vrun hs (fresh_verifier delay max_retries meta quarantined fenced) tr s"
  shows "vq_next_serial (vf_queue s) =
      verified_count tr + vq_skipped (vf_queue s) + vq_failures (vf_queue s)
      + length (vq_pending (vf_queue s)) + length (worker_ops (vf_worker s))
    \<and> length (vq_pending (vf_queue s)) \<le> 8192"
  using vrun_inv [OF assms] by (simp add: vinv_def acct_def MAX_QUEUE_def)

text \<open>C34. A device is quarantined only for cause: at that moment the metadata still refers to the extent,
  with the generation and hash that were enqueued; the extent was neither rewritten nor reclaimed since;
  and its check has failed once more than there are retries. Writes are fenced whenever the data would
  then no longer be recoverable.\<close>

theorem verify_quarantine_justified:
  assumes "vrun hs (fresh_verifier delay max_retries meta quarantined fenced) tr s"
    and "vf_worker s = Deciding op" "s' = verify_decide op s" "vf_quarantined s' \<noteq> vf_quarantined s"
  shows "live_in_metadata (vf_meta s) op
    \<and> latest (vo_disk_id op, vo_offset op) tr = Some (vo_serial op)
    \<and> count_list tr (CheckFailed (vo_serial op)) = min max_retries 10 + 1
    \<and> set (vf_quarantined s') = insert (vo_disk_id op) (set (vf_quarantined s))
    \<and> (vf_fenced s' \<or> validate_data_durability_snapshot (vf_meta s') (vf_quarantined s') = Inr ())"
proof -
  note inv = vrun_inv [OF assms(1)]
  have cur: "is_current (vf_queue s) op" "live_in_metadata (vf_meta s) op"
    using assms(3,4) by (auto simp: verify_decide_def Let_def split: if_splits)
  have "act_ok tr (vf_queue s)" using inv by (simp add: vinv_def)
  then have "latest (op_key op) tr = Some (vo_serial op)" using cur(1) unfolding act_ok_def is_current_def by blast
  moreover have "fails tr (vo_serial op) = min max_retries 10 + 1" using inv assms(2) by (simp add: vinv_def)
  moreover have "vf_quarantined s' = bs_insert (vo_disk_id op) (vf_quarantined s)" "vf_meta s' = vf_meta s"
    "vf_fenced s' = (vf_fenced s \<or> \<not> is_ok (validate_data_durability_snapshot (vf_meta s) (vf_quarantined s')))"
    using assms(3) cur by (simp_all add: verify_decide_def Let_def)
  ultimately show ?thesis using cur(2) by (auto simp: op_key_def fails_def is_ok_iff)
qed

text \<open>An example: one write whose single check finds other bytes, without retries.\<close>

definition demo_shard :: shard where
  "demo_shard = \<lparr>s_slot = 0, s_disk_id = ''d'', s_location = Some (RawExtent \<lparr>ext_disk_id = ''d'', ext_offset = 4096,
     ext_length = 4096, ext_generation = 5, ext_flags = 0\<rparr>), s_relpath = [], s_sha256 = ''h'', s_checksum_block_size = 0,
     s_subblock_sha256 = [], s_size = 4\<rparr>"

definition demo_live :: metadata where
  "demo_live = demo_metadata\<lparr>m_inodes := [(7, demo_inode\<lparr>i_blocks := [(demo_block 0 4)\<lparr>b_shards := [demo_shard]\<rparr>]\<rparr>)]\<rparr>"

definition demo_op :: verify_op where
  "demo_op = \<lparr>vo_due = 10, vo_retries = 0, vo_serial = 0, vo_disk_id = ''d'', vo_offset = 4096, vo_generation = 5,
     vo_length = 4, vo_hash = ''h'', vo_stripe_id = ''s''\<rparr>"

definition demo_verifier :: "worker \<Rightarrow> verify_op list \<Rightarrow> nat \<Rightarrow> verifier" where
  "demo_verifier w pending checks = (fresh_verifier 10 0 demo_live [] False)
     \<lparr>vf_queue := (verify_start 10 0)\<lparr>vq_next_serial := 1, vq_active := [((''d'', 4096), 0)], vq_pending := pending,
        vq_checks := checks\<rparr>, vf_worker := w\<rparr>"

definition demo_verify_hashes :: hashes where
  "demo_verify_hashes = \<lparr>hs_blake3_hex = (\<lambda>_. ''x''), hs_sha256_hex = (\<lambda>_. ''y'')\<rparr>"

lemma demo_current: "is_current (vf_queue (demo_verifier w p c)) demo_op" "\<not> vq_stop (vf_queue (demo_verifier w p c))"
  "vf_worker (demo_verifier w p c) = w"
  by (simp_all add: is_current_def op_key_def demo_verifier_def demo_op_def verify_start_def)

lemma demo_vrun:
  "vrun demo_verify_hashes (fresh_verifier 10 0 demo_live [] False) [CheckFailed 0, Enqueued (''d'', 4096) 0]
     (demo_verifier (Deciding demo_op) [] 1)"
proof -
  let ?run = "vrun demo_verify_hashes (fresh_verifier 10 0 demo_live [] False)"
  let ?tr = "[Enqueued (''d'', 4096) 0]"
  have "?run [] (fresh_verifier 10 0 demo_live [] False)" by (rule vrun.start)
  from vrun.enq [OF this, of 4 "''d''" 4096 0 5 "''h''" "''s''"] have "?run ?tr (demo_verifier Idle [demo_op] 0)"
    by (simp add: fresh_verifier_def demo_verifier_def verify_start_def demo_op_def enqueue_def bounded_push_def Let_def
        wrap_add_def u64_max_def MAX_QUEUE_def)
  from vrun.tke [OF this, of 10 demo_op "vf_queue (demo_verifier Idle [] 0)"] have "?run ?tr (demo_verifier (Taken demo_op) [] 0)"
    by (simp add: demo_verifier_def verify_start_def fresh_verifier_def take_due_def demo_op_def remove_nth_def)
  from vrun.opn [OF this demo_current(3), of True "vf_queue (demo_verifier Idle [] 1)" "Checking demo_op"]
  have "?run ?tr (demo_verifier (Checking demo_op) [] 1)"
    using demo_current by (simp add: verify_open_def) (simp add: demo_verifier_def verify_start_def wrap_add_def)
  from vrun.flushed [OF this demo_current(3), of Flushed "vf_queue (demo_verifier Idle [] 1)" "Reading demo_op"]
  have "?run ?tr (demo_verifier (Reading demo_op) [] 1)"
    using demo_current by (simp add: verify_flushed_def) (simp add: demo_verifier_def)
  from vrun.rd [OF this demo_current(3), of "Some [7, 7, 7, 7]"]
  have "?run ?tr (demo_verifier (Checked demo_op True) [] 1)"
    by (simp add: demo_verifier_def verify_read_def content_hash_matches_def content_hash_hex_def demo_verify_hashes_def demo_op_def)
  from vrun.checked [OF this demo_current(3), of 20 "vf_queue (demo_verifier Idle [] 1)" "Deciding demo_op" "[CheckFailed 0]"]
  show "?run (CheckFailed 0 # ?tr) (demo_verifier (Deciding demo_op) [] 1)"
    using demo_current by (simp add: verify_checked_def) (simp add: demo_verifier_def verify_start_def demo_op_def)
qed

theorem verify_accounting_witness:
  "vq_next_serial (vf_queue (demo_verifier (Deciding demo_op) [] 1)) = 1
   \<and> verified_count [CheckFailed 0, Enqueued (''d'', 4096) 0] = 0
   \<and> length (worker_ops (vf_worker (demo_verifier (Deciding demo_op) [] 1))) = 1"
  using verify_accounting [OF demo_vrun] by (simp add: demo_verifier_def verified_count_def)

theorem verify_quarantine_justified_witness:
  "vf_quarantined (verify_decide demo_op (demo_verifier (Deciding demo_op) [] 1)) = [''d'']
   \<and> live_in_metadata demo_live demo_op \<and> vf_fenced (verify_decide demo_op (demo_verifier (Deciding demo_op) [] 1))"
proof -
  have live: "live_in_metadata demo_live demo_op"
    by (simp add: live_in_metadata_def demo_live_def demo_block_def demo_op_def demo_shard_def)
  have meta: "vf_meta (demo_verifier w p c) = demo_live" "vf_quarantined (demo_verifier w p c) = []" for w p c
    by (simp_all add: demo_verifier_def fresh_verifier_def)
  have quar: "vf_quarantined (verify_decide demo_op (demo_verifier (Deciding demo_op) [] 1)) = [''d'']"
    using demo_current live by (simp add: verify_decide_def Let_def meta) (simp add: demo_op_def)
  have unsafe: "validate_data_durability_snapshot demo_live [''d''] \<noteq> Inr ()"
    by (simp add: validate_data_durability_snapshot_def demo_live_def demo_block_def layout_by_id_def demo_metadata_def)
  have "vf_meta (verify_decide demo_op (demo_verifier (Deciding demo_op) [] 1)) = demo_live"
    using demo_current live by (simp add: verify_decide_def Let_def meta)
  then show ?thesis
    using verify_quarantine_justified [OF demo_vrun demo_current(3) refl] quar unsafe by (simp add: meta)
qed

end
