(* ===== verification/Argos_Quota.thy ===== *)
theory Argos_Quota
  imports Argos_Helpers
begin

text \<open>
  Directory quotas of \<open>src/volume/mod.rs\<close>: the runtime that remembers which files count towards which
  quota directory and how many bytes each uses, the walk it is computed from, its incremental update,
  and the checks. The walk visits each inode once; it is written with a bound on its depth, the number
  of inodes, which the lemmas show is never reached.
\<close>

section \<open>Definitions\<close>

record quota_runtime =
  qr_active :: "inode_id list"
  qr_usage_bytes :: "(inode_id, nat) btree"
  qr_memberships :: "(inode_id, inode_id list) btree"

definition default_runtime :: quota_runtime where
  "default_runtime = \<lparr>qr_active = [], qr_usage_bytes = [], qr_memberships = []\<rparr>"

text \<open>\<open>visit\<close>: the logical bytes below an inode that is not yet in \<open>seen\<close>, and what is seen afterwards.\<close>

fun visit :: "nat \<Rightarrow> metadata \<Rightarrow> inode_id \<Rightarrow> inode_id list \<Rightarrow> (nat \<times> inode_id list) result option"
  and visit_all :: "nat \<Rightarrow> metadata \<Rightarrow> inode_id list \<Rightarrow> nat \<Rightarrow> inode_id list \<Rightarrow> (nat \<times> inode_id list) result option" where
  "visit 0 meta ino seen = None"
| "visit (Suc depth) meta ino seen =
     (if ino \<in> set seen then Some (Inr (0, seen))
      else case map_of (m_inodes meta) ino of
             None \<Rightarrow> Some (Inl NotFound)
           | Some inode \<Rightarrow>
               (case i_kind inode of
                  File \<Rightarrow> Some (Inr (i_size inode, bs_insert ino seen))
                | Directory \<Rightarrow> visit_all depth meta (bt_values (i_entries inode)) 0 (bs_insert ino seen)
                | _ \<Rightarrow> Some (Inr (0, bs_insert ino seen))))"
| "visit_all depth meta [] acc seen = Some (Inr (acc, seen))"
| "visit_all depth meta (child # rest) acc seen =
     (case visit depth meta child seen of
        None \<Rightarrow> None
      | Some (Inl err) \<Rightarrow> Some (Inl err)
      | Some (Inr (used, seen')) \<Rightarrow> visit_all depth meta rest (sat_add acc used) seen')"

definition walk_depth :: "metadata \<Rightarrow> nat" where
  "walk_depth meta = length (m_inodes meta) + 1"

definition visit_from :: "metadata \<Rightarrow> inode_id \<Rightarrow> (nat \<times> inode_id list) result" where
  "visit_from meta ino = (case visit (walk_depth meta) meta ino [] of Some r \<Rightarrow> r | None \<Rightarrow> Inl Message)"

definition add_member :: "inode_id \<Rightarrow> inode_id \<Rightarrow> (inode_id, inode_id list) btree \<Rightarrow> (inode_id, inode_id list) btree" where
  "add_member quota_ino ino members =
     bt_insert ino (bs_insert quota_ino (case map_of members ino of Some qs \<Rightarrow> qs | None \<Rightarrow> [])) members"

definition add_quota :: "metadata \<Rightarrow> inode_id \<Rightarrow> quota_runtime \<Rightarrow> quota_runtime result" where
  "add_quota meta quota_ino runtime =
     rbind (visit_from meta quota_ino) (\<lambda>(used, seen).
       Inr \<lparr>qr_active = bs_insert quota_ino (qr_active runtime),
            qr_usage_bytes = bt_insert quota_ino used (qr_usage_bytes runtime),
            qr_memberships = fold (add_member quota_ino) seen (qr_memberships runtime)\<rparr>)"

fun add_quotas :: "metadata \<Rightarrow> inode_id list \<Rightarrow> quota_runtime \<Rightarrow> quota_runtime result" where
  "add_quotas meta [] runtime = Inr runtime"
| "add_quotas meta (ino # inos) runtime = rbind (add_quota meta ino runtime) (add_quotas meta inos)"

definition quota_inodes :: "metadata \<Rightarrow> inode_id list" where
  "quota_inodes meta = map fst (filter (\<lambda>(_, inode). i_quota_bytes inode \<noteq> None) (m_inodes meta))"

definition quota_from_metadata :: "metadata \<Rightarrow> quota_runtime result" where
  "quota_from_metadata meta = add_quotas meta (quota_inodes meta) default_runtime"

definition subtree_logical_usage_locked :: "metadata \<Rightarrow> inode_id \<Rightarrow> nat result" where
  "subtree_logical_usage_locked meta root_ino =
     rbind (ok_or NotFound (map_of (m_inodes meta) root_ino)) (\<lambda>root_inode.
       if i_kind root_inode \<noteq> Directory then Inl NotDirectory
       else rbind (visit_from meta root_ino) (\<lambda>(used, _). Inr used))"

fun validate_quotas :: "metadata \<Rightarrow> inode_id list \<Rightarrow> unit result" where
  "validate_quotas meta [] = Inr ()"
| "validate_quotas meta (ino # inos) =
     (case Option.bind (map_of (m_inodes meta) ino) i_quota_bytes of
        None \<Rightarrow> validate_quotas meta inos
      | Some limit \<Rightarrow>
          rbind (subtree_logical_usage_locked meta ino) (\<lambda>used.
            if used > limit then Inl (QuotaExceeded ino used limit) else validate_quotas meta inos))"

definition validate_all_directory_quotas_locked :: "quota_runtime \<Rightarrow> metadata \<Rightarrow> unit result" where
  "validate_all_directory_quotas_locked runtime meta = validate_quotas meta (qr_active runtime)"

definition has_directory_quotas :: "quota_runtime \<Rightarrow> bool" where
  "has_directory_quotas runtime \<longleftrightarrow> qr_active runtime \<noteq> []"

definition members_of :: "quota_runtime \<Rightarrow> inode_id \<Rightarrow> inode_id list" where
  "members_of runtime ino = (case map_of (qr_memberships runtime) ino of Some qs \<Rightarrow> qs | None \<Rightarrow> [])"

definition inherit_quota_memberships :: "inode_id \<Rightarrow> inode_id \<Rightarrow> quota_runtime \<Rightarrow> quota_runtime" where
  "inherit_quota_memberships parent ino runtime =
     (let inherited = members_of runtime parent
      in if inherited = [] then runtime\<lparr>qr_memberships := bt_remove ino (qr_memberships runtime)\<rparr>
         else runtime\<lparr>qr_memberships := bt_insert ino inherited (qr_memberships runtime)\<rparr>)"

definition adjust_one :: "nat \<Rightarrow> nat \<Rightarrow> inode_id \<Rightarrow> (inode_id, nat) btree \<Rightarrow> (inode_id, nat) btree" where
  "adjust_one old_size new_size quota_ino usage =
     (let used = (case map_of usage quota_ino of Some u \<Rightarrow> u | None \<Rightarrow> 0)
      in bt_insert quota_ino
           (if new_size > old_size then sat_add used (new_size - old_size) else used - (old_size - new_size)) usage)"

definition adjust_quota_usage_for_resize :: "inode_id \<Rightarrow> nat \<Rightarrow> nat \<Rightarrow> quota_runtime \<Rightarrow> quota_runtime" where
  "adjust_quota_usage_for_resize ino old_size new_size runtime =
     (if old_size = new_size then runtime
      else runtime\<lparr>qr_usage_bytes := fold (adjust_one old_size new_size) (members_of runtime ino) (qr_usage_bytes runtime)\<rparr>)"

fun check_growth :: "quota_runtime \<Rightarrow> metadata \<Rightarrow> nat \<Rightarrow> inode_id list \<Rightarrow> unit result" where
  "check_growth runtime meta growth [] = Inr ()"
| "check_growth runtime meta growth (quota_ino # rest) =
     (case Option.bind (map_of (m_inodes meta) quota_ino) i_quota_bytes of
        None \<Rightarrow> check_growth runtime meta growth rest
      | Some limit \<Rightarrow>
          let used = (case map_of (qr_usage_bytes runtime) quota_ino of Some u \<Rightarrow> u | None \<Rightarrow> 0);
              projected = sat_add used growth
          in if projected > limit then Inl (QuotaExceeded quota_ino projected limit)
             else check_growth runtime meta growth rest)"

definition ensure_resize_within_quotas_locked :: "quota_runtime \<Rightarrow> metadata \<Rightarrow> inode_id \<Rightarrow> nat \<Rightarrow> unit result" where
  "ensure_resize_within_quotas_locked runtime meta ino new_size =
     rbind (ok_or NotFound (map_of (m_inodes meta) ino)) (\<lambda>inode.
       if new_size \<le> i_size inode then Inr ()
       else check_growth runtime meta (new_size - i_size inode) (members_of runtime ino))"

section \<open>The walk\<close>

text \<open>The entries of directories as a relation, and the bytes a file counts.\<close>

definition edges :: "metadata \<Rightarrow> (inode_id \<times> inode_id) set" where
  "edges meta = {(p, c). \<exists>inode. map_of (m_inodes meta) p = Some inode \<and> i_kind inode = Directory \<and> c \<in> snd ` set (i_entries inode)}"

definition below :: "metadata \<Rightarrow> inode_id \<Rightarrow> inode_id set" where
  "below meta ino = (edges meta)\<^sup>* `` {ino}"

definition file_bytes :: "metadata \<Rightarrow> inode_id \<Rightarrow> nat" where
  "file_bytes meta ino = (case map_of (m_inodes meta) ino of
     Some inode \<Rightarrow> if i_kind inode = File then i_size inode else 0 | None \<Rightarrow> 0)"

definition bytes_of :: "metadata \<Rightarrow> inode_id set \<Rightarrow> nat" where
  "bytes_of meta S = sum (file_bytes meta) S"

text \<open>Every entry leads to an inode.\<close>

definition entries_exist :: "metadata \<Rightarrow> bool" where
  "entries_exist meta \<longleftrightarrow> edges meta \<subseteq> UNIV \<times> dom (map_of (m_inodes meta))"

definition capped :: "nat \<Rightarrow> nat" where
  "capped n = min n u64_max"

lemma sat_add_capped: "sat_add (capped a) (capped b) = capped (a + b)"
  by (simp add: sat_add_def capped_def min_def)

text \<open>What a part of the walk has done: it saw new inodes, all below its start, and everything below them.\<close>

definition walked :: "metadata \<Rightarrow> inode_id set \<Rightarrow> inode_id list \<Rightarrow> inode_id list \<Rightarrow> bool" where
  "walked meta starts seen seen' \<longleftrightarrow>
     set seen \<subseteq> set seen' \<and> starts \<subseteq> set seen' \<and> set seen' \<subseteq> set seen \<union> (edges meta)\<^sup>* `` starts
     \<and> (\<forall>x \<in> set seen' - set seen. x \<in> dom (map_of (m_inodes meta)) \<and> edges meta `` {x} \<subseteq> set seen')"

lemma walked_trans:
  assumes "walked meta A seen seen1" "walked meta B seen1 seen2"
  shows "walked meta (A \<union> B) seen seen2"
proof -
  note a = assms(1) [unfolded walked_def] and b = assms(2) [unfolded walked_def]
  have "x \<in> dom (map_of (m_inodes meta)) \<and> edges meta `` {x} \<subseteq> set seen2" if "x \<in> set seen2 - set seen" for x
  proof (cases "x \<in> set seen1")
    case True
    then have "x \<in> dom (map_of (m_inodes meta)) \<and> edges meta `` {x} \<subseteq> set seen1" using a that by simp
    then show ?thesis using b by (meson order_trans)
  qed (use b that in simp)
  moreover have "set seen2 \<subseteq> set seen \<union> (edges meta)\<^sup>* `` (A \<union> B)" using a b unfolding Image_Un by blast
  moreover have "set seen \<subseteq> set seen2" "A \<union> B \<subseteq> set seen2" using a b by auto
  ultimately show ?thesis unfolding walked_def by simp
qed

lemma bytes_diff:
  assumes "set seen \<subseteq> set seen1" "set seen1 \<subseteq> set seen2"
  shows "bytes_of meta (set seen2 - set seen) = bytes_of meta (set seen1 - set seen) + bytes_of meta (set seen2 - set seen1)"
proof -
  have "set seen2 - set seen = (set seen1 - set seen) \<union> (set seen2 - set seen1)" using assms by auto
  then show ?thesis unfolding bytes_of_def by (simp only:) (rule sum.union_disjoint, auto)
qed

lemma walked_refl: "ino \<in> set seen \<Longrightarrow> walked meta {ino} seen seen"
  by (auto simp: walked_def)

lemma walked_leaf:
  assumes "map_of (m_inodes meta) ino = Some inode" "i_kind inode \<noteq> Directory"
  shows "walked meta {ino} seen (bs_insert ino seen)"
  using assms by (auto simp: walked_def edges_def)

lemma walked_directory:
  assumes "map_of (m_inodes meta) ino = Some inode" "i_kind inode = Directory" "ino \<notin> set seen"
    and w: "walked meta (snd ` set (i_entries inode)) (bs_insert ino seen) seen'"
  shows "walked meta {ino} seen seen'"
proof -
  note w = w [unfolded walked_def]
  have kids: "edges meta `` {ino} = snd ` set (i_entries inode)" using assms(1,2) by (auto simp: edges_def)
  have "x \<in> dom (map_of (m_inodes meta)) \<and> edges meta `` {x} \<subseteq> set seen'" if "x \<in> set seen' - set seen" for x
  proof (cases "x = ino")
    case True
    then show ?thesis using assms(1) kids w by auto
  qed (use w that in simp)
  then have 1: "\<forall>x \<in> set seen' - set seen. x \<in> dom (map_of (m_inodes meta)) \<and> edges meta `` {x} \<subseteq> set seen'" by blast
  have "(edges meta)\<^sup>* `` (snd ` set (i_entries inode)) \<subseteq> (edges meta)\<^sup>* `` {ino}"
    unfolding kids [symmetric] by (auto intro: converse_rtrancl_into_rtrancl)
  moreover have "set seen' \<subseteq> insert ino (set seen) \<union> (edges meta)\<^sup>* `` (snd ` set (i_entries inode))"
    "ino \<in> (edges meta)\<^sup>* `` {ino}" using w by simp_all
  ultimately have "set seen' \<subseteq> set seen \<union> (edges meta)\<^sup>* `` {ino}" by blast
  moreover have "set seen \<subseteq> set seen'" "{ino} \<subseteq> set seen'" using w by simp_all
  ultimately show ?thesis unfolding walked_def using 1 by simp
qed

lemma visit_walked:
  "visit depth meta ino seen = Some (Inr (used, seen')) \<Longrightarrow> walked meta {ino} seen seen'"
  "visit_all depth meta inos acc seen = Some (Inr (used, seen')) \<Longrightarrow> walked meta (set inos) seen seen'"
proof (induction depth meta ino seen and depth meta inos acc seen arbitrary: used seen' and used seen' rule: visit_visit_all.induct)
  case (2 depth meta ino seen)
  show ?case
  proof (cases "ino \<in> set seen")
    case True
    then show ?thesis using "2.prems" by (simp add: walked_refl)
  next
    case False
    then obtain inode where i: "map_of (m_inodes meta) ino = Some inode"
      using "2.prems" by (cases "map_of (m_inodes meta) ino") simp_all
    show ?thesis
    proof (cases "i_kind inode = Directory")
      case True
      then have "visit_all depth meta (bt_values (i_entries inode)) 0 (bs_insert ino seen) = Some (Inr (used, seen'))"
        using "2.prems" False i by simp
      from "2.IH" [OF False i True this] show ?thesis using walked_directory [OF i True False] by simp
    next
      case leaf: False
      then have "seen' = bs_insert ino seen" using "2.prems" False i by (cases "i_kind inode") simp_all
      then show ?thesis using walked_leaf [OF i leaf] by simp
    qed
  qed
next
  case (3 depth meta acc seen)
  then show ?case by (simp add: walked_def)
next
  case (4 depth meta child rest acc seen)
  then obtain u s1 where v: "visit depth meta child seen = Some (Inr (u, s1))"
    and r: "visit_all depth meta rest (sat_add acc u) s1 = Some (Inr (used, seen'))"
    by (auto split: option.splits sum.splits)
  have "walked meta {child} seen s1" by (rule "4.IH"(1) [OF v])
  moreover have "walked meta (set rest) s1 seen'" by (rule "4.IH"(2) [OF v refl refl r])
  ultimately have "walked meta ({child} \<union> set rest) seen seen'" by (rule walked_trans)
  then show ?case by simp
qed simp

definition sizes_fit :: "metadata \<Rightarrow> bool" where
  "sizes_fit meta \<longleftrightarrow> (\<forall>ino. file_bytes meta ino \<le> u64_max)"

lemma bytes_new:
  assumes "ino \<notin> set seen" "set (bs_insert ino seen) \<subseteq> set seen'"
  shows "bytes_of meta (set seen' - set seen) = file_bytes meta ino + bytes_of meta (set seen' - set (bs_insert ino seen))"
proof -
  have eq: "set seen' - set seen = insert ino (set seen' - set (bs_insert ino seen))" using assms by auto
  show ?thesis unfolding bytes_of_def eq by (rule sum.insert) simp_all
qed

lemma visit_bytes:
  assumes "sizes_fit meta"
  shows "visit depth meta ino seen = Some (Inr (used, seen')) \<Longrightarrow> used = capped (bytes_of meta (set seen' - set seen))"
    and "visit_all depth meta inos acc seen = Some (Inr (used, seen')) \<Longrightarrow> acc = capped a
      \<Longrightarrow> used = capped (a + bytes_of meta (set seen' - set seen))"
  using assms
proof (induction depth meta ino seen and depth meta inos acc seen arbitrary: used seen' and used seen' a rule: visit_visit_all.induct)
  case (2 depth meta ino seen)
  show ?case
  proof (cases "ino \<in> set seen")
    case True
    then show ?thesis using "2.prems" by (simp add: bytes_of_def capped_def)
  next
    case False
    then obtain inode where i: "map_of (m_inodes meta) ino = Some inode"
      using "2.prems" by (cases "map_of (m_inodes meta) ino") simp_all
    show ?thesis
    proof (cases "i_kind inode = Directory")
      case True
      then have v: "visit_all depth meta (bt_values (i_entries inode)) 0 (bs_insert ino seen) = Some (Inr (used, seen'))"
        using "2.prems" False i by simp
      have "used = capped (0 + bytes_of meta (set seen' - set (bs_insert ino seen)))"
        by (rule "2.IH" [OF False i True v _ "2.prems"(2)]) (simp add: capped_def)
      moreover have "set (bs_insert ino seen) \<subseteq> set seen'" using visit_walked(2) [OF v] by (simp add: walked_def)
      ultimately show ?thesis using bytes_new [OF False, of seen' meta] i True by (simp add: file_bytes_def)
    next
      case leaf: False
      then have u: "seen' = bs_insert ino seen" "used = file_bytes meta ino"
        using "2.prems" False i by (cases "i_kind inode"; simp add: file_bytes_def)+
      have "used \<le> u64_max" using "2.prems"(2) u by (simp add: sizes_fit_def)
      then show ?thesis using bytes_new [OF False, of seen' meta] u by (simp add: bytes_of_def capped_def)
    qed
  qed
next
  case (3 depth meta acc seen)
  then show ?case by (simp add: bytes_of_def)
next
  case (4 depth meta child rest acc seen)
  then obtain u s1 where v: "visit depth meta child seen = Some (Inr (u, s1))"
    and r: "visit_all depth meta rest (sat_add acc u) s1 = Some (Inr (used, seen'))"
    by (auto split: option.splits sum.splits)
  have u: "u = capped (bytes_of meta (set s1 - set seen))" by (rule "4.IH"(1) [OF v "4.prems"(3)])
  have acc: "sat_add acc u = capped (a + bytes_of meta (set s1 - set seen))" by (simp add: u "4.prems"(2) sat_add_capped)
  have "used = capped (a + bytes_of meta (set s1 - set seen) + bytes_of meta (set seen' - set s1))"
    by (rule "4.IH"(2) [OF v refl refl r acc "4.prems"(3)])
  moreover have "set seen \<subseteq> set s1" "set s1 \<subseteq> set seen'"
    using visit_walked(1) [OF v] visit_walked(2) [OF r] by (simp_all add: walked_def)
  ultimately show ?case using bytes_diff [of seen s1 seen' meta] by (simp add: add.assoc)
qed simp

text \<open>The bound on the depth is enough: every level below the start puts an inode into \<open>seen\<close>.\<close>

lemma visit_total:
  assumes "entries_exist meta"
  shows "ino \<in> dom (map_of (m_inodes meta)) \<Longrightarrow> card (dom (map_of (m_inodes meta)) - set seen) < depth
      \<Longrightarrow> \<exists>used seen'. visit depth meta ino seen = Some (Inr (used, seen'))"
    and "set inos \<subseteq> dom (map_of (m_inodes meta)) \<Longrightarrow> card (dom (map_of (m_inodes meta)) - set seen) < depth
      \<Longrightarrow> \<exists>used seen'. visit_all depth meta inos acc seen = Some (Inr (used, seen'))"
  using assms
proof (induction depth meta ino seen and depth meta inos acc seen rule: visit_visit_all.induct)
  case (2 depth meta ino seen)
  show ?case
  proof (cases "ino \<in> set seen")
    case False
    let ?dom = "dom (map_of (m_inodes meta))"
    obtain inode where i: "map_of (m_inodes meta) ino = Some inode" using "2.prems"(1) by blast
    show ?thesis
    proof (cases "i_kind inode = Directory")
      case True
      have "(ino, c) \<in> edges meta" if "c \<in> set (bt_values (i_entries inode))" for c
        using i True that by (simp add: edges_def)
      then have "set (bt_values (i_entries inode)) \<subseteq> ?dom" using "2.prems"(3) unfolding entries_exist_def by blast
      moreover have eq: "?dom - set seen = insert ino (?dom - set (bs_insert ino seen))" using "2.prems"(1) False by auto
      have "card (?dom - set seen) = Suc (card (?dom - set (bs_insert ino seen)))"
        unfolding eq by (rule card_insert_disjoint) (simp_all add: finite_dom_map_of)
      then have "card (?dom - set (bs_insert ino seen)) < depth" using "2.prems"(2) by simp
      ultimately have "\<exists>used seen'. visit_all depth meta (bt_values (i_entries inode)) 0 (bs_insert ino seen) = Some (Inr (used, seen'))"
        by (rule "2.IH" [OF False i True _ _ "2.prems"(3)])
      then show ?thesis using False i True by simp
    qed (use False i in \<open>cases "i_kind inode"; simp\<close>)
  qed simp
next
  case (4 depth meta child rest acc seen)
  let ?dom = "dom (map_of (m_inodes meta))"
  have c: "child \<in> ?dom" "set rest \<subseteq> ?dom" using "4.prems"(1) by simp_all
  obtain u s1 where v: "visit depth meta child seen = Some (Inr (u, s1))" using "4.IH"(1) [OF c(1) "4.prems"(2,3)] by blast
  have "?dom - set s1 \<subseteq> ?dom - set seen" using visit_walked(1) [OF v] by (auto simp: walked_def)
  then have "card (?dom - set s1) \<le> card (?dom - set seen)" by (intro card_mono) (auto simp: finite_dom_map_of)
  then have "card (?dom - set s1) < depth" using "4.prems"(2) by simp
  from "4.IH"(2) [OF v refl refl c(2) this "4.prems"(3)] show ?case using v by auto
qed simp_all

lemma visit_from_spec:
  assumes "entries_exist meta" "sizes_fit meta" "ino \<in> dom (map_of (m_inodes meta))"
  obtains seen where "visit_from meta ino = Inr (capped (bytes_of meta (below meta ino)), seen)" "set seen = below meta ino"
proof -
  have "card (dom (map_of (m_inodes meta)) - set []) \<le> length (m_inodes meta)"
    using card_length [of "map fst (m_inodes meta)"] by (simp add: dom_map_of_conv_image_fst)
  then obtain used seen where v: "visit (walk_depth meta) meta ino [] = Some (Inr (used, seen))"
    using visit_total(1) [OF assms(1,3), of "[]" "walk_depth meta"] by (auto simp: walk_depth_def)
  note w = visit_walked(1) [OF v, unfolded walked_def]
  have "below meta ino \<subseteq> set seen"
  proof
    fix x assume "x \<in> below meta ino"
    then have "(ino, x) \<in> (edges meta)\<^sup>*" by (simp add: below_def)
    then show "x \<in> set seen" by (induction rule: rtrancl_induct) (use w in auto)
  qed
  then have seen: "set seen = below meta ino" using w by (auto simp: below_def)
  have "used = capped (bytes_of meta (set seen - set []))" by (rule visit_bytes(1) [OF assms(2) v])
  then have "visit_from meta ino = Inr (capped (bytes_of meta (below meta ino)), seen)"
    using v by (simp add: visit_from_def seen)
  then show thesis using that seen by blast
qed

text \<open>The walk fails only at an entry that leads nowhere.\<close>

lemma visit_from_total:
  assumes "entries_exist meta" "ino \<in> dom (map_of (m_inodes meta))"
  shows "\<exists>used seen. visit_from meta ino = Inr (used, seen)"
proof -
  have "card (dom (map_of (m_inodes meta)) - set []) \<le> length (m_inodes meta)"
    using card_length [of "map fst (m_inodes meta)"] by (simp add: dom_map_of_conv_image_fst)
  then show ?thesis
    using visit_total(1) [OF assms, of "[]" "walk_depth meta"] by (auto simp: walk_depth_def visit_from_def)
qed

lemma quota_from_metadata_total:
  assumes "entries_exist meta"
  shows "\<exists>rt. quota_from_metadata meta = Inr rt"
proof -
  have "\<exists>rt'. add_quotas meta inos rt = Inr rt'" if "set inos \<subseteq> dom (map_of (m_inodes meta))" for inos rt
    using that
  proof (induction inos arbitrary: rt)
    case (Cons ino inos)
    then obtain used seen where "visit_from meta ino = Inr (used, seen)" using visit_from_total [OF assms] by force
    then obtain rt1 where "add_quota meta ino rt = Inr rt1" by (simp add: add_quota_def)
    then show ?case using Cons by simp
  qed simp
  moreover have "set (quota_inodes meta) \<subseteq> dom (map_of (m_inodes meta))"
    unfolding quota_inodes_def dom_map_of_conv_image_fst by auto
  ultimately show ?thesis by (simp add: quota_from_metadata_def)
qed

section \<open>The runtime\<close>

lemma bs_insert_idem [simp]: "bs_insert k (bs_insert k s) = bs_insert k s"
  by (induction s) auto

lemma bs_insert_last: "\<forall>x \<in> set s. x < k \<Longrightarrow> bs_insert k s = s @ [k]"
  by (induction s) auto

lemma fold_add_member:
  "map_of (fold (add_member q) seen members) x =
     (if x \<in> set seen then Some (bs_insert q (case map_of members x of Some qs \<Rightarrow> qs | None \<Rightarrow> [])) else map_of members x)"
proof (induction seen arbitrary: members)
  case (Cons y ys)
  then show ?case by (auto simp: add_member_def split: option.splits)
qed simp

lemma bt_ok_add_members: "bt_ok members \<Longrightarrow> bt_ok (fold (add_member q) seen members)"
  by (induction seen arbitrary: members) (simp_all add: add_member_def)

text \<open>What the runtime says about the quota directories \<open>qs\<close>.\<close>

definition runtime_for :: "metadata \<Rightarrow> inode_id list \<Rightarrow> quota_runtime \<Rightarrow> bool" where
  "runtime_for meta qs rt \<longleftrightarrow>
     qr_active rt = qs \<and> bt_ok (qr_usage_bytes rt) \<and> bt_ok (qr_memberships rt)
     \<and> (\<forall>q. map_of (qr_usage_bytes rt) q = (if q \<in> set qs then Some (capped (bytes_of meta (below meta q))) else None))
     \<and> (\<forall>x. map_of (qr_memberships rt) x =
          (let ms = filter (\<lambda>q. x \<in> below meta q) qs in if ms = [] then None else Some ms))"

lemma runtime_for_members: "runtime_for meta qs rt \<Longrightarrow> members_of rt x = filter (\<lambda>q. x \<in> below meta q) qs"
  by (simp add: runtime_for_def members_of_def Let_def)

lemma runtime_for_unique: "runtime_for meta qs rt \<Longrightarrow> runtime_for meta qs rt' \<Longrightarrow> rt = rt'"
  unfolding runtime_for_def
  by (intro quota_runtime.equality bt_ext) (auto simp: fun_eq_iff)

lemma add_quota_runtime:
  assumes "entries_exist meta" "sizes_fit meta" "q \<in> dom (map_of (m_inodes meta))"
    and rt: "runtime_for meta qs rt" and above: "\<forall>x \<in> set qs. x < q"
  obtains rt' where "add_quota meta q rt = Inr rt'" "runtime_for meta (qs @ [q]) rt'"
proof -
  obtain seen where v: "visit_from meta q = Inr (capped (bytes_of meta (below meta q)), seen)" "set seen = below meta q"
    using visit_from_spec [OF assms(1-3)] .
  let ?rt = "\<lparr>qr_active = bs_insert q (qr_active rt),
      qr_usage_bytes = bt_insert q (capped (bytes_of meta (below meta q))) (qr_usage_bytes rt),
      qr_memberships = fold (add_member q) seen (qr_memberships rt)\<rparr>"
  have "map_of (qr_memberships ?rt) x =
      (let ms = filter (\<lambda>q. x \<in> below meta q) (qs @ [q]) in if ms = [] then None else Some ms)" for x
  proof -
    have old: "map_of (qr_memberships rt) x = (let ms = filter (\<lambda>q. x \<in> below meta q) qs in if ms = [] then None else Some ms)"
      using rt by (simp add: runtime_for_def)
    have "bs_insert q (filter (\<lambda>q. x \<in> below meta q) qs) = filter (\<lambda>q. x \<in> below meta q) qs @ [q]"
      by (rule bs_insert_last) (use above in auto)
    then show ?thesis by (simp add: fold_add_member v(2) old Let_def)
  qed
  then have "runtime_for meta (qs @ [q]) ?rt"
    using rt above by (auto simp: runtime_for_def bt_ok_add_members bs_insert_last)
  then show thesis using that [of ?rt] v(1) by (simp add: add_quota_def)
qed

lemma add_quotas_runtime:
  assumes "entries_exist meta" "sizes_fit meta" "set inos \<subseteq> dom (map_of (m_inodes meta))"
    and "sorted_wrt (<) (qs @ inos)" "runtime_for meta qs rt"
  obtains rt' where "add_quotas meta inos rt = Inr rt'" "runtime_for meta (qs @ inos) rt'"
  using assms(3-)
proof (induction inos arbitrary: qs rt thesis)
  case Nil
  then show ?case by simp
next
  case (Cons q inos)
  have "q \<in> dom (map_of (m_inodes meta))" "\<forall>x \<in> set qs. x < q" using Cons.prems by (auto simp: sorted_wrt_append)
  then obtain rt1 where rt1: "add_quota meta q rt = Inr rt1" "runtime_for meta (qs @ [q]) rt1"
    using add_quota_runtime [OF assms(1,2) _ Cons.prems(4)] by blast
  obtain rt' where "add_quotas meta inos rt1 = Inr rt'" "runtime_for meta ((qs @ [q]) @ inos) rt'"
    by (rule Cons.IH [OF _ _ _ rt1(2)]) (use Cons.prems in auto)
  then show ?case using Cons.prems(1) [of rt'] rt1(1) by simp
qed

lemma quota_inodes_sorted: "bt_ok (m_inodes meta) \<Longrightarrow> sorted_wrt (<) (quota_inodes meta)"
  using bt_ok_filter [of "m_inodes meta"] by (simp add: quota_inodes_def bt_ok_def)

lemma set_quota_inodes:
  assumes "bt_ok (m_inodes meta)"
  shows "set (quota_inodes meta) = {q. \<exists>limit. Option.bind (map_of (m_inodes meta) q) i_quota_bytes = Some limit}"
  using assms by (force simp: quota_inodes_def bt_get_in_set [symmetric] bind_eq_Some_conv)

lemma quota_runtime_for:
  assumes "bt_ok (m_inodes meta)" "entries_exist meta" "sizes_fit meta"
  obtains rt where "quota_from_metadata meta = Inr rt" "runtime_for meta (quota_inodes meta) rt"
proof -
  have "runtime_for meta [] default_runtime" by (simp add: runtime_for_def default_runtime_def)
  moreover have "set (quota_inodes meta) \<subseteq> dom (map_of (m_inodes meta))"
    by (auto simp: set_quota_inodes [OF assms(1)] bind_eq_Some_conv)
  ultimately obtain rt where "add_quotas meta (quota_inodes meta) default_runtime = Inr rt"
      "runtime_for meta ([] @ quota_inodes meta) rt"
    using add_quotas_runtime [OF assms(2,3), of "quota_inodes meta" "[]" default_runtime] quota_inodes_sorted [OF assms(1)] by auto
  then show thesis using that by (simp add: quota_from_metadata_def)
qed

text \<open>C39. The quota runtime is computed for every volume whose entries lead to inodes, and it is exact: the
  quota directories are those with a limit, each is charged the bytes of the files below it, a file with
  several links counting once, capped at the largest 64-bit number, and an inode is a member of exactly
  the quota directories it lies below.\<close>

theorem quota_runtime_exact:
  assumes "bt_ok (m_inodes meta)" "entries_exist meta" "sizes_fit meta"
  shows "\<exists>rt. quota_from_metadata meta = Inr rt
    \<and> set (qr_active rt) = {q. \<exists>limit. Option.bind (map_of (m_inodes meta) q) i_quota_bytes = Some limit}
    \<and> dom (map_of (qr_usage_bytes rt)) = set (qr_active rt)
    \<and> (\<forall>q \<in> set (qr_active rt). map_of (qr_usage_bytes rt) q = Some (min (\<Sum>x \<in> below meta q. file_bytes meta x) u64_max))
    \<and> (\<forall>x. set (members_of rt x) = {q \<in> set (qr_active rt). (q, x) \<in> (edges meta)\<^sup>*})"
proof -
  obtain rt where rt: "quota_from_metadata meta = Inr rt" "runtime_for meta (quota_inodes meta) rt"
    using quota_runtime_for [OF assms] .
  have "dom (map_of (qr_usage_bytes rt)) = set (qr_active rt)"
    using rt(2) by (auto simp: runtime_for_def split: if_splits)
  moreover have "\<forall>q \<in> set (qr_active rt). map_of (qr_usage_bytes rt) q = Some (min (\<Sum>x \<in> below meta q. file_bytes meta x) u64_max)"
    using rt(2) by (simp add: runtime_for_def capped_def bytes_of_def)
  moreover have "set (members_of rt x) = {q \<in> set (qr_active rt). (q, x) \<in> (edges meta)\<^sup>*}" for x
    using rt(2) runtime_for_members [OF rt(2)] by (auto simp: runtime_for_def below_def)
  moreover have "qr_active rt = quota_inodes meta" using rt(2) by (simp add: runtime_for_def)
  ultimately show ?thesis using rt(1) set_quota_inodes [OF assms(1)] by auto
qed

section \<open>Resizing a file\<close>

text \<open>The metadata after a file has changed its size and nothing else that quotas look at.\<close>

definition resized :: "metadata \<Rightarrow> inode_id \<Rightarrow> inode \<Rightarrow> nat \<Rightarrow> metadata \<Rightarrow> bool" where
  "resized meta ino inode new_size meta' \<longleftrightarrow>
     map_of (m_inodes meta) ino = Some inode \<and> i_kind inode = File
     \<and> (\<exists>inode'. map_of (m_inodes meta') = (map_of (m_inodes meta))(ino \<mapsto> inode')
          \<and> i_kind inode' = File \<and> i_size inode' = new_size \<and> i_quota_bytes inode' = i_quota_bytes inode)"

lemma resized_edges: "resized meta ino inode n meta' \<Longrightarrow> edges meta' = edges meta"
proof -
  assume "resized meta ino inode n meta'"
  then have "(p, c) \<in> edges meta' \<longleftrightarrow> (p, c) \<in> edges meta" for p c
    unfolding resized_def edges_def by (cases "p = ino") (elim conjE exE, simp)+
  then show ?thesis by auto
qed

lemma resized_below: "resized meta ino inode n meta' \<Longrightarrow> below meta' q = below meta q"
  by (simp add: below_def resized_edges)

lemma resized_dom: "resized meta ino inode n meta' \<Longrightarrow> dom (map_of (m_inodes meta')) = dom (map_of (m_inodes meta))"
  by (auto simp: resized_def split: if_splits)

lemma resized_quota_inodes:
  assumes "resized meta ino inode n meta'" "bt_ok (m_inodes meta)" "bt_ok (m_inodes meta')"
  shows "quota_inodes meta' = quota_inodes meta"
proof (rule sorted_distinct_set_unique)
  have "Option.bind (map_of (m_inodes meta') q) i_quota_bytes = Option.bind (map_of (m_inodes meta) q) i_quota_bytes" for q
    using assms(1) by (auto simp: resized_def)
  then show "set (quota_inodes meta') = set (quota_inodes meta)" by (simp add: set_quota_inodes assms(2,3))
qed (use quota_inodes_sorted assms(2,3) in \<open>auto simp: strict_sorted_iff\<close>)

lemma resized_bytes:
  assumes r: "resized meta ino inode n meta'" and fin: "finite S"
  shows "bytes_of meta' S = (if ino \<in> S then bytes_of meta S - i_size inode + n else bytes_of meta S)"
    and "ino \<in> S \<Longrightarrow> i_size inode \<le> bytes_of meta S"
proof -
  have at: "file_bytes meta ino = i_size inode" "file_bytes meta' ino = n"
    and other: "x \<noteq> ino \<Longrightarrow> file_bytes meta' x = file_bytes meta x" for x
    using r by (auto simp: resized_def file_bytes_def)
  have "sum (file_bytes meta') (S - {ino}) = sum (file_bytes meta) (S - {ino})"
    by (rule sum.cong) (auto simp: other)
  moreover have "sum f S = f ino + sum f (S - {ino})" if "ino \<in> S" for f :: "inode_id \<Rightarrow> nat"
    using sum.remove [OF fin that] .
  ultimately show "bytes_of meta' S = (if ino \<in> S then bytes_of meta S - i_size inode + n else bytes_of meta S)"
    using other by (cases "ino \<in> S") (simp_all add: bytes_of_def at)
  show "i_size inode \<le> bytes_of meta S" if "ino \<in> S"
    using member_le_sum [of ino S "file_bytes meta"] that fin at by (simp add: bytes_of_def)
qed

lemma fold_adjust:
  assumes "distinct qs"
  shows "map_of (fold (adjust_one old new) qs usage) q =
    (if q \<in> set qs
     then let used = (case map_of usage q of Some u \<Rightarrow> u | None \<Rightarrow> 0)
          in Some (if new > old then sat_add used (new - old) else used - (old - new))
     else map_of usage q)"
  using assms
proof (induction qs arbitrary: usage)
  case (Cons x xs)
  then show ?case by (auto simp: adjust_one_def Let_def)
qed simp

lemma bt_ok_fold_adjust: "bt_ok usage \<Longrightarrow> bt_ok (fold (adjust_one old new) qs usage)"
  by (induction qs arbitrary: usage) (simp_all add: adjust_one_def Let_def)

lemma below_dom: "entries_exist meta \<Longrightarrow> q \<in> dom (map_of (m_inodes meta)) \<Longrightarrow> below meta q \<subseteq> dom (map_of (m_inodes meta))"
proof
  fix x assume "entries_exist meta" "q \<in> dom (map_of (m_inodes meta))" "x \<in> below meta q"
  then have "(q, x) \<in> (edges meta)\<^sup>*" by (simp add: below_def)
  then show "x \<in> dom (map_of (m_inodes meta))"
    by (cases rule: rtranclE) (use \<open>entries_exist meta\<close> \<open>q \<in> dom _\<close> in \<open>auto simp: entries_exist_def\<close>)
qed

text \<open>All the bytes of a volume fit into 64 bits.\<close>

definition volume_fits :: "metadata \<Rightarrow> bool" where
  "volume_fits meta \<longleftrightarrow> bytes_of meta (dom (map_of (m_inodes meta))) \<le> u64_max"

lemma volume_fits_below:
  assumes "entries_exist meta" "volume_fits meta" "q \<in> dom (map_of (m_inodes meta))"
  shows "bytes_of meta (below meta q) \<le> u64_max"
proof -
  have "bytes_of meta (below meta q) \<le> bytes_of meta (dom (map_of (m_inodes meta)))"
    unfolding bytes_of_def by (rule sum_mono2) (use below_dom [OF assms(1,3)] in \<open>auto simp: finite_dom_map_of\<close>)
  then show ?thesis using assms(2) by (simp add: volume_fits_def)
qed

lemma volume_fits_sizes: "volume_fits meta \<Longrightarrow> sizes_fit meta"
  unfolding sizes_fit_def
proof
  fix ino assume v: "volume_fits meta"
  show "file_bytes meta ino \<le> u64_max"
  proof (cases "ino \<in> dom (map_of (m_inodes meta))")
    case True
    then have "file_bytes meta ino \<le> bytes_of meta (dom (map_of (m_inodes meta)))"
      unfolding bytes_of_def by (intro member_le_sum) (simp_all add: finite_dom_map_of)
    then show ?thesis using v by (simp add: volume_fits_def)
  next
    case False
    then have "map_of (m_inodes meta) ino = None" by auto
    then show ?thesis by (simp add: file_bytes_def)
  qed
qed

lemma adjust_runtime:
  assumes rt: "runtime_for meta qs rt" and r: "resized meta ino inode new meta'"
    and ee: "entries_exist meta" and fits: "volume_fits meta" "volume_fits meta'"
    and qs: "set qs \<subseteq> dom (map_of (m_inodes meta))" "distinct qs"
  shows "runtime_for meta' qs (adjust_quota_usage_for_resize ino (i_size inode) new rt)"
proof -
  let ?old = "i_size inode"
  have ee': "entries_exist meta'" using ee by (simp add: entries_exist_def resized_edges [OF r] resized_dom [OF r])
  have mem: "members_of rt ino = filter (\<lambda>q. ino \<in> below meta q) qs" by (rule runtime_for_members [OF rt])
  have fin: "finite (below meta q)" if "q \<in> set qs" for q
    using below_dom [OF ee] qs(1) that finite_dom_map_of [of "m_inodes meta"] by (meson finite_subset subsetD)
  have le: "bytes_of meta (below meta q) \<le> u64_max" "bytes_of meta' (below meta q) \<le> u64_max" if "q \<in> set qs" for q
    using volume_fits_below [OF ee fits(1), of q] volume_fits_below [OF ee' fits(2), of q] subsetD [OF qs(1) that]
    by (simp_all add: resized_below [OF r] resized_dom [OF r])
  have cap: "capped (bytes_of meta (below meta q)) = bytes_of meta (below meta q)"
    "capped (bytes_of meta' (below meta q)) = bytes_of meta' (below meta q)" if "q \<in> set qs" for q
    using le [OF that] by (simp_all add: capped_def)
  have new: "(if new > ?old then sat_add (bytes_of meta (below meta q)) (new - ?old) else bytes_of meta (below meta q) - (?old - new))
      = bytes_of meta' (below meta q)" if "q \<in> set qs" "ino \<in> below meta q" for q
    using resized_bytes [OF r fin [OF that(1)]] that(2) le [OF that(1)] by (auto simp: sat_add_def)
  have keep: "bytes_of meta' (below meta q) = bytes_of meta (below meta q)" if "q \<in> set qs" "ino \<notin> below meta q \<or> ?old = new" for q
    using resized_bytes [OF r fin [OF that(1)]] that(2) by auto
  have usage: "map_of (qr_usage_bytes (adjust_quota_usage_for_resize ino ?old new rt)) q
      = (if q \<in> set qs then Some (bytes_of meta' (below meta q)) else None)" for q
  proof -
    have u: "map_of (qr_usage_bytes rt) q = (if q \<in> set qs then Some (bytes_of meta (below meta q)) else None)"
      using rt cap by (simp add: runtime_for_def)
    show ?thesis
    proof (cases "?old = new")
      case True
      then show ?thesis using u keep by (simp add: adjust_quota_usage_for_resize_def)
    next
      case False
      then have "map_of (qr_usage_bytes (adjust_quota_usage_for_resize ino ?old new rt)) q
          = map_of (fold (adjust_one ?old new) (filter (\<lambda>q. ino \<in> below meta q) qs) (qr_usage_bytes rt)) q"
        by (simp add: adjust_quota_usage_for_resize_def mem)
      also have "\<dots> = (if q \<in> set qs then Some (bytes_of meta' (below meta q)) else None)"
        using qs(2) u new keep by (simp add: fold_adjust)
      finally show ?thesis .
    qed
  qed
  have "qr_active (adjust_quota_usage_for_resize ino ?old new rt) = qs"
    "qr_memberships (adjust_quota_usage_for_resize ino ?old new rt) = qr_memberships rt"
    "bt_ok (qr_usage_bytes (adjust_quota_usage_for_resize ino ?old new rt))"
    using rt by (simp_all add: adjust_quota_usage_for_resize_def runtime_for_def bt_ok_fold_adjust)
  then show ?thesis using rt usage cap by (simp add: runtime_for_def resized_below [OF r])
qed

lemma check_growth_ok:
  "check_growth rt meta growth qs = Inr () \<longleftrightarrow>
     (\<forall>q \<in> set qs. \<forall>limit. Option.bind (map_of (m_inodes meta) q) i_quota_bytes = Some limit
        \<longrightarrow> sat_add (case map_of (qr_usage_bytes rt) q of Some u \<Rightarrow> u | None \<Rightarrow> 0) growth \<le> limit)"
  by (induction qs) (auto simp: Let_def not_le split: option.split)

text \<open>C40. Quotas are enforced exactly when a file grows or shrinks. With the runtime of the metadata before,
  a resize is admitted if and only if it does not grow the file or no quota directory the file lies below
  would then hold more than its limit; and the incremental update of the runtime gives the very runtime
  that would be computed from the metadata afterwards.\<close>

theorem quota_resize_exact:
  assumes "bt_ok (m_inodes meta)" "bt_ok (m_inodes meta')" "entries_exist meta" "volume_fits meta" "volume_fits meta'"
    and r: "resized meta ino inode new_size meta'" and rt: "quota_from_metadata meta = Inr rt"
  shows "(ensure_resize_within_quotas_locked rt meta ino new_size = Inr () \<longleftrightarrow>
      new_size \<le> i_size inode
      \<or> (\<forall>q limit. Option.bind (map_of (m_inodes meta) q) i_quota_bytes = Some limit \<and> ino \<in> below meta q
            \<longrightarrow> bytes_of meta' (below meta' q) \<le> limit))
    \<and> quota_from_metadata meta' = Inr (adjust_quota_usage_for_resize ino (i_size inode) new_size rt)"
proof -
  let ?qs = "quota_inodes meta"
  have sizes: "sizes_fit meta" "sizes_fit meta'" using assms(4,5) by (simp_all add: volume_fits_sizes)
  have for_rt: "runtime_for meta ?qs rt" using quota_runtime_for [OF assms(1,3) sizes(1)] rt by (metis Inr_inject)
  have qs: "set ?qs \<subseteq> dom (map_of (m_inodes meta))" "distinct ?qs"
    using quota_inodes_sorted [OF assms(1)] by (auto simp: set_quota_inodes [OF assms(1)] bind_eq_Some_conv strict_sorted_iff)
  note adj = adjust_runtime [OF for_rt r assms(3-5) qs]
  have ee': "entries_exist meta'" using assms(3) by (simp add: entries_exist_def resized_edges [OF r] resized_dom [OF r])
  obtain rt' where rt': "quota_from_metadata meta' = Inr rt'" "runtime_for meta' ?qs rt'"
    using quota_runtime_for [OF assms(2) ee' sizes(2)] unfolding resized_quota_inodes [OF r assms(1,2)] .
  have inc: "quota_from_metadata meta' = Inr (adjust_quota_usage_for_resize ino (i_size inode) new_size rt)"
    using rt' runtime_for_unique [OF adj] by simp
  have inode: "map_of (m_inodes meta) ino = Some inode" using r by (simp add: resized_def)
  have grow: "sat_add (case map_of (qr_usage_bytes rt) q of Some u \<Rightarrow> u | None \<Rightarrow> 0) (new_size - i_size inode)
      = bytes_of meta' (below meta' q)" if "i_size inode < new_size" "q \<in> set ?qs" "ino \<in> below meta q" for q
  proof -
    have dom: "q \<in> dom (map_of (m_inodes meta))" using qs(1) that(2) by blast
    have fin: "finite (below meta q)" using below_dom [OF assms(3) dom] finite_dom_map_of [of "m_inodes meta"] finite_subset by blast
    have "bytes_of meta (below meta q) \<le> u64_max" "bytes_of meta' (below meta q) \<le> u64_max"
      using volume_fits_below [OF assms(3,4) dom] volume_fits_below [OF ee' assms(5), of q] dom
      by (simp_all add: resized_below [OF r] resized_dom [OF r])
    then show ?thesis
      using for_rt that resized_bytes [OF r fin] by (auto simp: runtime_for_def capped_def sat_add_def resized_below [OF r])
  qed
  have "ensure_resize_within_quotas_locked rt meta ino new_size = Inr () \<longleftrightarrow> new_size \<le> i_size inode
      \<or> (\<forall>q \<in> set (members_of rt ino). \<forall>limit. Option.bind (map_of (m_inodes meta) q) i_quota_bytes = Some limit
          \<longrightarrow> bytes_of meta' (below meta' q) \<le> limit)"
    using grow by (auto simp: ensure_resize_within_quotas_locked_def inode check_growth_ok runtime_for_members [OF for_rt])
  also have "\<dots> \<longleftrightarrow> new_size \<le> i_size inode
      \<or> (\<forall>q limit. Option.bind (map_of (m_inodes meta) q) i_quota_bytes = Some limit \<and> ino \<in> below meta q
            \<longrightarrow> bytes_of meta' (below meta' q) \<le> limit)"
    by (auto simp: runtime_for_members [OF for_rt] set_quota_inodes [OF assms(1)])
  finally show ?thesis using inc by blast
qed

text \<open>An example: a directory with a limit of 100 bytes and a file in it.\<close>

definition demo_quota :: "nat \<Rightarrow> metadata" where
  "demo_quota len = demo_metadata\<lparr>m_inodes :=
     [(3, demo_inode\<lparr>i_kind := Directory, i_quota_bytes := Some 100, i_entries := [(''a'', 5)]\<rparr>),
      (5, demo_inode\<lparr>i_size := len\<rparr>)]\<rparr>"

definition demo_runtime :: "nat \<Rightarrow> quota_runtime" where
  "demo_runtime len = \<lparr>qr_active = [3], qr_usage_bytes = [(3, len)], qr_memberships = [(3, [3]), (5, [3])]\<rparr>"

lemma demo_quota_ok:
  "bt_ok (m_inodes (demo_quota len))" "entries_exist (demo_quota len)" "len \<le> 100 \<Longrightarrow> volume_fits (demo_quota len)"
  "len \<le> 100 \<Longrightarrow> quota_from_metadata (demo_quota len) = Inr (demo_runtime len)"
proof -
  show "bt_ok (m_inodes (demo_quota len))" by (simp add: demo_quota_def bt_ok_def)
  have kind: "i_kind demo_inode = File" by (simp add: demo_inode_def)
  show "entries_exist (demo_quota len)" by (auto simp: entries_exist_def edges_def demo_quota_def kind split: if_splits)
  have d: "dom (map_of (m_inodes (demo_quota len))) = {3, 5}" by (auto simp: demo_quota_def split: if_splits)
  show "len \<le> 100 \<Longrightarrow> volume_fits (demo_quota len)"
    unfolding volume_fits_def d by (simp add: bytes_of_def file_bytes_def demo_quota_def demo_inode_def u64_max_def)
  have "walk_depth (demo_quota len) = Suc (Suc (Suc 0))" by (simp add: walk_depth_def demo_quota_def)
  then have "visit_from (demo_quota len) 3 = Inr (sat_add 0 len, [3, 5])"
    by (simp add: visit_from_def demo_quota_def kind)
  moreover have "quota_inodes (demo_quota len) = [3]"
    by (simp add: quota_inodes_def demo_quota_def demo_inode_def)
  ultimately show "len \<le> 100 \<Longrightarrow> quota_from_metadata (demo_quota len) = Inr (demo_runtime len)"
    by (simp add: quota_from_metadata_def add_quota_def default_runtime_def add_member_def demo_runtime_def sat_add_def u64_max_def)
qed

theorem quota_runtime_exact_witness:
  "quota_from_metadata (demo_quota 10) = Inr (demo_runtime 10)
   \<and> set (members_of (demo_runtime 10) 5) = {q \<in> {3}. (q, 5) \<in> (edges (demo_quota 10))\<^sup>*}
   \<and> Some 10 = Some (min (\<Sum>x \<in> below (demo_quota 10) 3. file_bytes (demo_quota 10) x) u64_max)"
proof -
  have run: "quota_from_metadata (demo_quota 10) = Inr (demo_runtime 10)" by (simp add: demo_quota_ok)
  have "sizes_fit (demo_quota 10)" by (simp add: demo_quota_ok volume_fits_sizes)
  from quota_runtime_exact [OF demo_quota_ok(1,2) this] show ?thesis
    unfolding run by (auto simp: demo_runtime_def)
qed

theorem quota_resize_exact_witness:
  "ensure_resize_within_quotas_locked (demo_runtime 10) (demo_quota 10) 5 60 = Inr ()
   \<and> quota_from_metadata (demo_quota 60) = Inr (adjust_quota_usage_for_resize 5 10 60 (demo_runtime 10))"
proof -
  have r: "resized (demo_quota 10) 5 (demo_inode\<lparr>i_size := 10\<rparr>) 60 (demo_quota 60)"
    unfolding resized_def by (auto simp: demo_quota_def demo_inode_def fun_eq_iff)
  have "ensure_resize_within_quotas_locked (demo_runtime 10) (demo_quota 10) 5 60 = Inr ()"
    by (simp add: ensure_resize_within_quotas_locked_def demo_quota_def demo_inode_def demo_runtime_def members_of_def
        Let_def sat_add_def u64_max_def)
  then show ?thesis
    using quota_resize_exact [OF demo_quota_ok(1) demo_quota_ok(1) demo_quota_ok(2) demo_quota_ok(3) demo_quota_ok(3) r demo_quota_ok(4)]
    by simp
qed

end
