(* ===== verification/Argos_Volume.thy ===== *)
theory Argos_Volume
  imports Argos_Quota Argos_Cache Argos_Verify Argos_Names Argos_ACL Argos_Journal Argos_Allocator
begin

text \<open>
  The state of a mounted volume (\<open>ArgosFs\<close> of \<open>src/volume/mod.rs\<close>) and what its operations share: access
  to inodes, reclaiming the blocks of a deleted file (\<open>src/volume/data_plane.rs\<close>), and the metadata commit
  of a host-backed volume, which appends a transaction to the journal and goes back to the recoverable
  metadata when that fails. Operations are functions from the volume to the volume and a result;
  \<open>sbind\<close> runs one after another and stops at the first error, like \<open>?\<close>. An operation reads the clock
  once, in \<open>ve_now\<close>. The locks are not modelled: an operation holds the metadata lock throughout.
\<close>

section \<open>Operations on a state\<close>

type_synonym ('s, 'a) sop = "'s \<Rightarrow> 's \<times> 'a result"

definition sret :: "'a \<Rightarrow> ('s, 'a) sop" where
  "sret x s = (s, Inr x)"

definition sthrow :: "argos_error \<Rightarrow> ('s, 'a) sop" where
  "sthrow err s = (s, Inl err)"

definition sbind :: "('s, 'a) sop \<Rightarrow> ('a \<Rightarrow> ('s, 'b) sop) \<Rightarrow> ('s, 'b) sop" where
  "sbind c f s = (case c s of (s', Inl err) \<Rightarrow> (s', Inl err) | (s', Inr x) \<Rightarrow> f x s')"

definition sread :: "('s \<Rightarrow> 'a result) \<Rightarrow> ('s, 'a) sop" where
  "sread f s = (s, f s)"

definition smodify :: "('s \<Rightarrow> 's) \<Rightarrow> ('s, unit) sop" where
  "smodify f s = (f s, Inr ())"

text \<open>\<open>if let Err(err) = c \{ ...; return Err(err) \}\<close>\<close>

definition son_error :: "('s, 'a) sop \<Rightarrow> (argos_error \<Rightarrow> 's \<Rightarrow> 's) \<Rightarrow> ('s, 'a) sop" where
  "son_error c h s = (case c s of (s', Inl err) \<Rightarrow> (h err s', Inl err) | (s', Inr x) \<Rightarrow> (s', Inr x))"

section \<open>The volume\<close>

record volume =
  v_root :: string
  v_meta :: metadata
  v_quota :: quota_runtime
  v_backend_writable :: bool
  v_write_fence :: bool
  v_bulk_import :: bool
  v_pending_reclaims :: "file_block list"
  v_cache :: block_cache
  v_verify :: "verify_queue option"
  v_host_files :: "(string, 8 word list) btree"
  v_store :: meta_store

record venv =
  ve_hashes :: hashes
  ve_hex :: hex_codec
  ve_codec :: codec
  ve_cache :: cache_env
  ve_nfs4_parse :: "string \<Rightarrow> nfs4_acl option"  \<comment> \<open>\<open>serde_json::from_str\<close>\<close>
  ve_nfs4_print :: "nfs4_acl \<Rightarrow> string"  \<comment> \<open>\<open>serde_json::to_string_pretty\<close>\<close>
  ve_uid :: "32 word"
  ve_gid :: "32 word"
  ve_now :: f64
  ve_checkpoint_interval :: nat
  ve_compaction_disabled :: bool
  ve_inject :: "string \<Rightarrow> bool"

type_synonym 'a vop = "(volume, 'a) sop"
type_synonym commit = "metadata option \<Rightarrow> string \<Rightarrow> json \<Rightarrow> unit vop"

definition on_meta :: "(metadata \<Rightarrow> metadata) \<Rightarrow> volume \<Rightarrow> volume" where
  "on_meta f v = v\<lparr>v_meta := f (v_meta v)\<rparr>"

definition on_inodes :: "((inode_id, inode) btree \<Rightarrow> (inode_id, inode) btree) \<Rightarrow> volume \<Rightarrow> volume" where
  "on_inodes f = on_meta (\<lambda>meta. meta\<lparr>m_inodes := f (m_inodes meta)\<rparr>)"

text \<open>\<open>if let Some(inode) = meta.inodes.get_mut(&ino) \{ ... \}\<close>\<close>

definition on_inode :: "inode_id \<Rightarrow> (inode \<Rightarrow> inode) \<Rightarrow> volume \<Rightarrow> volume" where
  "on_inode ino f = on_inodes (bt_update ino f)"

definition get_inode :: "metadata \<Rightarrow> inode_id \<Rightarrow> inode result" where
  "get_inode meta ino = ok_or NotFound (map_of (m_inodes meta) ino)"

definition dir_inode_locked :: "metadata \<Rightarrow> inode_id \<Rightarrow> inode result" where
  "dir_inode_locked meta ino =
     rbind (get_inode meta ino) (\<lambda>inode. if i_kind inode \<noteq> Directory then Inl NotDirectory else Inr inode)"

text \<open>Changing a directory found by \<open>dir_inode_mut_locked\<close>.\<close>

definition dir_inode_mut_locked :: "inode_id \<Rightarrow> (inode \<Rightarrow> inode) \<Rightarrow> unit vop" where
  "dir_inode_mut_locked ino f =
     sbind (sread (\<lambda>v. dir_inode_locked (v_meta v) ino)) (\<lambda>_. smodify (on_inode ino f))"

definition set_entry :: "string \<Rightarrow> inode_id \<Rightarrow> inode \<Rightarrow> inode" where
  "set_entry name child inode = inode\<lparr>i_entries := bt_insert name child (i_entries inode)\<rparr>"

definition remove_entry :: "string \<Rightarrow> inode \<Rightarrow> inode" where
  "remove_entry name inode = inode\<lparr>i_entries := bt_remove name (i_entries inode)\<rparr>"

text \<open>The saturating steps of a link count.\<close>

definition link_up :: "inode \<Rightarrow> inode" where
  "link_up inode = inode\<lparr>i_nlink := (if i_nlink inode = - 1 then - 1 else i_nlink inode + 1)\<rparr>"

definition link_down :: "inode \<Rightarrow> inode" where
  "link_down inode = inode\<lparr>i_nlink := (if i_nlink inode = 0 then 0 else i_nlink inode - 1)\<rparr>"

definition dir_link_down :: "inode \<Rightarrow> inode" where
  "dir_link_down inode = inode\<lparr>i_nlink := max (i_nlink (link_down inode)) 2\<rparr>"

definition touch_inode_locked :: "venv \<Rightarrow> inode_id \<Rightarrow> bool \<Rightarrow> bool \<Rightarrow> volume \<Rightarrow> volume" where
  "touch_inode_locked e ino mtime ctime =
     on_inode ino (\<lambda>inode. inode\<lparr>i_mtime := (if mtime then ve_now e else i_mtime inode),
                                 i_ctime := (if ctime then ve_now e else i_ctime inode)\<rparr>)"

definition alloc_inode_locked :: "inode_id vop" where
  "alloc_inode_locked v =
     (on_meta (\<lambda>meta. meta\<lparr>m_next_inode := wrap_add (m_next_inode meta) 1\<rparr>) v, Inr (m_next_inode (v_meta v)))"

definition ensure_block_backend_writable_locked :: "volume \<Rightarrow> unit result" where
  "ensure_block_backend_writable_locked v =
     (if m_backend (v_meta v) \<noteq> Host \<and> \<not> v_backend_writable v then Inl ReadonlyRequired
      else if m_backend (v_meta v) \<noteq> Host \<and> v_write_fence v then Inl ReadonlyRequired
      else Inr ())"

definition transaction_error_is_committed :: "argos_error \<Rightarrow> bool" where
  "transaction_error_is_committed err =
     (case err of
        CommittedDurabilityLoss \<Rightarrow> True
      | IndeterminateCommit \<Rightarrow> True
      | InjectedCrash point \<Rightarrow>
          List.member [''after-journal'', ''after-primary-metadata'', ''after-secondary-metadata'', ''after-compatible-metadata'',
            ''after-journal-commit-before-metadata-commit'', ''after-metadata-commit-before-superblock-update''] point
      | _ \<Rightarrow> False)"

definition rebuild_quota_runtime_locked :: "unit vop" where
  "rebuild_quota_runtime_locked v =
     (case quota_from_metadata (v_meta v) of Inl err \<Rightarrow> (v, Inl err) | Inr runtime \<Rightarrow> (v\<lparr>v_quota := runtime\<rparr>, Inr ()))"

section \<open>Reclaiming blocks\<close>

definition relative_or_absolute :: "string \<Rightarrow> string \<Rightarrow> string" where
  "relative_or_absolute base stored = (if stored \<noteq> [] \<and> hd stored = CHR ''/'' then stored else path_join base stored)"

definition shard_path_if_disk_exists_locked :: "volume \<Rightarrow> string \<Rightarrow> string \<Rightarrow> string option" where
  "shard_path_if_disk_exists_locked v disk_id relpath =
     map_option (\<lambda>disk. path_join (relative_or_absolute (v_root v) (d_path disk)) relpath) (map_of (m_disks (v_meta v)) disk_id)"

definition remove_host_shard :: "venv \<Rightarrow> string \<Rightarrow> string \<Rightarrow> unit vop" where
  "remove_host_shard e disk_id relpath v =
     (case shard_path_if_disk_exists_locked v disk_id relpath of
        Some path \<Rightarrow> (v\<lparr>v_host_files := fst (remove_file (ve_cache e) path (v_host_files v))\<rparr>, Inr ())
      | None \<Rightarrow> (v, Inr ()))"

definition delete_shard_locked :: "venv \<Rightarrow> shard \<Rightarrow> unit vop" where
  "delete_shard_locked e sh v =
     (case s_location sh of
        Some (RawExtent extent) \<Rightarrow>
          (let v1 = v\<lparr>v_verify := map_option (verify_invalidate (ext_disk_id extent) (ext_offset extent)) (v_verify v)\<rparr>;
               pool = m_raw_pool (v_meta v1)
           in case map_of (rp_allocators pool) (ext_disk_id extent) of
                None \<Rightarrow> (v1, Inr ())
              | Some allocator \<Rightarrow>
                  (case free allocator extent of
                     Inl err \<Rightarrow> (v1, Inl err)
                   | Inr allocator' \<Rightarrow>
                       (on_meta (\<lambda>meta. meta\<lparr>m_raw_pool := pool\<lparr>rp_allocators := bt_insert (ext_disk_id extent) allocator' (rp_allocators pool)\<rparr>\<rparr>) v1,
                        Inr ())))
      | Some (HostPath disk_id relpath) \<Rightarrow> remove_host_shard e disk_id relpath v
      | None \<Rightarrow> remove_host_shard e (s_disk_id sh) (s_relpath sh) v)"

definition delete_block :: "venv \<Rightarrow> file_block \<Rightarrow> volume \<Rightarrow> volume" where
  "delete_block e block v =
     fold (\<lambda>sh v. fst (delete_shard_locked e sh v)) (b_shards block)
       (v\<lparr>v_cache := cache_remove (ve_hashes e) (ve_cache e)
            (m_uuid (v_meta v) @ '':'' @ b_stripe_id block @ '':'' @ b_raw_sha256 block) (v_cache v)\<rparr>)"

definition delete_blocks_locked :: "venv \<Rightarrow> file_block list \<Rightarrow> volume \<Rightarrow> volume" where
  "delete_blocks_locked e blocks = fold (delete_block e) blocks"

definition account_shard :: "bool \<Rightarrow> shard \<Rightarrow> (string, disk) btree \<Rightarrow> (string, disk) btree" where
  "account_shard add sh =
     bt_update (s_disk_id sh) (\<lambda>disk. disk\<lparr>d_used_bytes :=
       (if add then sat_add (d_used_bytes disk) (shard_accounted_size sh) else d_used_bytes disk - shard_accounted_size sh)\<rparr>)"

definition account_blocks_locked :: "file_block list \<Rightarrow> bool \<Rightarrow> volume \<Rightarrow> volume" where
  "account_blocks_locked blocks add =
     on_meta (\<lambda>meta. meta\<lparr>m_disks := fold (account_shard add) (concat (map b_shards blocks)) (m_disks meta)\<rparr>)"

definition stage_block_reclamation_locked :: "venv \<Rightarrow> file_block list \<Rightarrow> volume \<Rightarrow> volume" where
  "stage_block_reclamation_locked e blocks v =
     (if m_backend (v_meta v) \<noteq> Host \<and> (v_bulk_import v \<or> c_defer_metadata_commit (m_config (v_meta v)))
      then v\<lparr>v_pending_reclaims := v_pending_reclaims v @ blocks\<rparr>
      else let v1 = account_blocks_locked blocks False v
           in if m_backend (v_meta v1) \<noteq> Host then delete_blocks_locked e blocks v1 else v1)"

definition finish_block_reclamation_locked :: "venv \<Rightarrow> file_block list \<Rightarrow> volume \<Rightarrow> volume" where
  "finish_block_reclamation_locked e blocks v =
     (if m_backend (v_meta v) = Host then delete_blocks_locked e blocks v else v)"

section \<open>Committing on a host-backed volume\<close>

definition jnum :: "nat \<Rightarrow> json" where
  "jnum n = JNumber (PosInt n)"

text \<open>\<open>commit_locked_with_previous\<close> with the backend \<open>Host\<close>, for which the snapshot of the caller is not used.\<close>

definition previous_meta_hash_of :: "venv \<Rightarrow> metadata \<Rightarrow> string result" where
  "previous_meta_hash_of e meta =
     (if mi_meta_hash (m_integrity meta) = [] then canonical_metadata_hash (ve_codec e) meta else Inr (mi_meta_hash (m_integrity meta)))"

definition next_transaction :: "venv \<Rightarrow> metadata \<Rightarrow> metadata" where
  "next_transaction e meta = meta\<lparr>m_txid := wrap_add (m_txid meta) 1, m_updated_at := ve_now e\<rparr>"

definition finish_commit :: "venv \<Rightarrow> volume \<Rightarrow> meta_store \<times> metadata \<times> unit result \<Rightarrow> volume \<times> unit result" where
  "finish_commit e v outcome =
     (case outcome of
        (st, meta, Inr _) \<Rightarrow> (v\<lparr>v_meta := meta, v_store := st\<rparr>, Inr ())
      | (st, meta, Inl commit_err) \<Rightarrow>
          (let v1 = v\<lparr>v_meta := meta, v_store := st\<rparr>
           in if \<not> transaction_error_is_committed commit_err
              then (case load_or_recover (ve_codec e) st of
                      Inl _ \<Rightarrow> (v1, Inl CorruptedMetadata)
                    | Inr (recovered, _, st') \<Rightarrow>
                        sbind rebuild_quota_runtime_locked (\<lambda>_. sthrow commit_err)
                          (v1\<lparr>v_meta := recompute_disk_usage_from_metadata recovered, v_store := st'\<rparr>))
              else sbind rebuild_quota_runtime_locked (\<lambda>_. sthrow commit_err) v1))"

definition commit_host :: "venv \<Rightarrow> commit" where
  "commit_host e previous action details v =
     (case previous_meta_hash_of e (v_meta v) of
        Inl err \<Rightarrow> (v, Inl err)
      | Inr previous_meta_hash \<Rightarrow>
          (let meta = next_transaction e (v_meta v)
           in finish_commit e v (append_transaction_checked (ve_codec e) (ve_checkpoint_interval e) (ve_compaction_disabled e)
                (ve_inject e) (ve_now e) (v_store v) meta (Some (m_txid (v_meta v))) action
                (JObject [(''details'', details), (''previous_meta_hash'', JString previous_meta_hash), (''txid'', jnum (m_txid meta))]))))"

end
