(* ===== verification/Argos_Tree.thy ===== *)
theory Argos_Tree
  imports Argos_Types
begin

text \<open>
  What the namespace of a volume promises, without inodes: every number has a kind, and an entry
  (a directory and a name) leads to a number. The steps say what each request does to that, and
  \<open>tree_ok\<close> is what a file system needs of it: entries lead to existing inodes, a directory has one
  entry at most, and every directory can be reached from the root. The link count a node must show is
  computed from the entries. \<open>Argos_Namespace\<close> proves that the operations of the volume implement the steps.
\<close>

section \<open>Namespaces\<close>

record nspace =
  nk :: "inode_id \<rightharpoonup> node_kind"
  lk :: "inode_id \<times> string \<rightharpoonup> inode_id"

definition is_dir :: "nspace \<Rightarrow> inode_id \<Rightarrow> bool" where
  "is_dir N i \<longleftrightarrow> nk N i = Some Directory"

definition links :: "nspace \<Rightarrow> inode_id \<Rightarrow> (inode_id \<times> string) set" where
  "links N i = {k. lk N k = Some i}"

definition subdirs :: "nspace \<Rightarrow> inode_id \<Rightarrow> string set" where
  "subdirs N i = {n. \<exists>d. lk N (i, n) = Some d \<and> is_dir N d}"

definition link_count :: "nspace \<Rightarrow> inode_id \<Rightarrow> nat" where
  "link_count N i = (if is_dir N i then 2 + card (subdirs N i) else card (links N i))"

definition tree_edges :: "nspace \<Rightarrow> (inode_id \<times> inode_id) set" where
  "tree_edges N = {(p, c). \<exists>n. lk N (p, n) = Some c}"

definition empty_dir :: "nspace \<Rightarrow> inode_id \<Rightarrow> bool" where
  "empty_dir N i \<longleftrightarrow> (\<forall>n. lk N (i, n) = None)"

definition tree_ok :: "inode_id \<Rightarrow> nspace \<Rightarrow> bool" where
  "tree_ok rt N \<longleftrightarrow>
     finite (dom (lk N)) \<and> is_dir N rt
     \<and> (\<forall>p n c. lk N (p, n) = Some c \<longrightarrow> is_dir N p \<and> c \<in> dom (nk N) \<and> c \<noteq> rt)
     \<and> (\<forall>d a b. is_dir N d \<longrightarrow> lk N a = Some d \<longrightarrow> lk N b = Some d \<longrightarrow> a = b)
     \<and> (\<forall>d. is_dir N d \<longrightarrow> (rt, d) \<in> (tree_edges N)\<^sup>*)"

section \<open>Requests\<close>

text \<open>Dropping an entry also drops the inode it led to, when that was a directory or had no other entry
  and is not kept for its open handles.\<close>

definition drop_entry :: "inode_id \<Rightarrow> string \<Rightarrow> bool \<Rightarrow> nspace \<Rightarrow> nspace" where
  "drop_entry p n keep N =
     (case lk N (p, n) of
        None \<Rightarrow> N
      | Some c \<Rightarrow>
          \<lparr>nk = (if is_dir N c \<or> links N c = {(p, n)} \<and> \<not> keep then (nk N)(c := None) else nk N),
           lk = (lk N)((p, n) := None)\<rparr>)"

definition add_entry :: "inode_id \<Rightarrow> string \<Rightarrow> inode_id \<Rightarrow> nspace \<Rightarrow> nspace" where
  "add_entry p n c N = N\<lparr>lk := (lk N)((p, n) \<mapsto> c)\<rparr>"

definition move_entry :: "inode_id \<Rightarrow> string \<Rightarrow> inode_id \<Rightarrow> string \<Rightarrow> inode_id \<Rightarrow> nspace \<Rightarrow> nspace" where
  "move_entry p n q m c N = N\<lparr>lk := ((lk N)((p, n) := None))((q, m) \<mapsto> c)\<rparr>"

datatype ns_change =
  Created inode_id string inode_id node_kind
| Linked inode_id inode_id string
| Dropped inode_id string bool
| Reaped inode_id
| Moved inode_id string inode_id string bool
| Exchanged inode_id string inode_id string
| Unchanged

text \<open>\<open>below_or_self N c p\<close>: moving \<open>c\<close> into \<open>p\<close> would move a directory into itself.\<close>

definition below_or_self :: "nspace \<Rightarrow> inode_id \<Rightarrow> inode_id \<Rightarrow> bool" where
  "below_or_self N c p \<longleftrightarrow> is_dir N c \<and> (c, p) \<in> (tree_edges N)\<^sup>*"

inductive ns_step :: "inode_id \<Rightarrow> ns_change \<Rightarrow> nspace \<Rightarrow> nspace \<Rightarrow> bool" for rt where
  create: "is_dir N p \<Longrightarrow> lk N (p, n) = None \<Longrightarrow> c \<notin> dom (nk N)
    \<Longrightarrow> ns_step rt (Created p n c kind) N (add_entry p n c (N\<lparr>nk := (nk N)(c \<mapsto> kind)\<rparr>))"
| link: "is_dir N p \<Longrightarrow> lk N (p, n) = None \<Longrightarrow> c \<in> dom (nk N) \<Longrightarrow> \<not> is_dir N c
    \<Longrightarrow> ns_step rt (Linked c p n) N (add_entry p n c N)"
| drop: "lk N (p, n) = Some c \<Longrightarrow> is_dir N c \<longrightarrow> empty_dir N c
    \<Longrightarrow> ns_step rt (Dropped p n keep) N (drop_entry p n keep N)"
| reap: "\<not> is_dir N c \<Longrightarrow> links N c = {} \<Longrightarrow> ns_step rt (Reaped c) N (N\<lparr>nk := (nk N)(c := None)\<rparr>)"
| move: "lk N (p, n) = Some c \<Longrightarrow> is_dir N q \<Longrightarrow> lk N (q, m) \<noteq> Some c \<Longrightarrow> \<not> below_or_self N c q
    \<Longrightarrow> (\<And>d. lk N (q, m) = Some d \<Longrightarrow> is_dir N d = is_dir N c \<and> (is_dir N d \<longrightarrow> empty_dir N d))
    \<Longrightarrow> ns_step rt (Moved p n q m keep) N (move_entry p n q m c (drop_entry q m keep N))"
| exchange: "lk N (p, n) = Some c \<Longrightarrow> lk N (q, m) = Some d \<Longrightarrow> \<not> below_or_self N c q \<Longrightarrow> \<not> below_or_self N d p
    \<Longrightarrow> ns_step rt (Exchanged p n q m) N (N\<lparr>lk := (lk N)((p, n) \<mapsto> d, (q, m) \<mapsto> c)\<rparr>)"
| unchanged: "ns_step rt Unchanged N N"

section \<open>Trees\<close>

lemma tree_okD:
  assumes "tree_ok rt N"
  shows "finite (dom (lk N))" "is_dir N rt"
    and "lk N (p, n) = Some c \<Longrightarrow> is_dir N p"
    and "lk N (p, n) = Some c \<Longrightarrow> c \<in> dom (nk N)"
    and "lk N k \<noteq> Some rt"
    and "is_dir N d \<Longrightarrow> lk N a = Some d \<Longrightarrow> lk N b = Some d \<Longrightarrow> a = b"
    and "is_dir N d \<Longrightarrow> (rt, d) \<in> (tree_edges N)\<^sup>*"
proof -
  show "lk N k \<noteq> Some rt" using assms unfolding tree_ok_def by (cases k) blast
  show "is_dir N d \<Longrightarrow> lk N a = Some d \<Longrightarrow> lk N b = Some d \<Longrightarrow> a = b" using assms unfolding tree_ok_def by blast
qed (use assms in \<open>simp_all add: tree_ok_def\<close>)

lemma edge_intro [intro]: "lk N (p, n) = Some c \<Longrightarrow> (p, c) \<in> tree_edges N"
  by (auto simp: tree_edges_def)

lemma edges_subset:
  assumes "\<And>p n c. lk N (p, n) = Some c \<Longrightarrow> c \<notin> C \<Longrightarrow> lk M (p, n) = Some c"
  shows "tree_edges N - UNIV \<times> C \<subseteq> tree_edges M"
proof (clarsimp simp: tree_edges_def)
  fix p n c assume "c \<notin> C" "lk N (p, n) = Some c"
  then show "\<exists>n. lk M (p, n) = Some c" using assms by blast
qed

lemma edges_mono:
  assumes "\<And>p n c. lk N (p, n) = Some c \<Longrightarrow> lk M (p, n) = Some c"
  shows "tree_edges N \<subseteq> tree_edges M"
  using edges_subset [of N "{}" M] assms by simp

lemma finite_links: "finite (dom (lk N)) \<Longrightarrow> finite (links N i)"
  by (rule finite_subset [of _ "dom (lk N)"]) (auto simp: links_def)

lemma finite_subdirs: "finite (dom (lk N)) \<Longrightarrow> finite (subdirs N i)"
  by (rule finite_subset [of _ "snd ` dom (lk N)"]) (force simp: subdirs_def image_iff)+

text \<open>A path to a node that is not below \<open>c\<close> does not pass \<open>c\<close>.\<close>

lemma path_avoids:
  assumes "(a, x) \<in> E\<^sup>*" "\<forall>c \<in> C. (c, x) \<notin> E\<^sup>*"
  shows "(a, x) \<in> (E - UNIV \<times> C)\<^sup>*"
  using assms
proof (induction rule: rtrancl_induct)
  case (step y z)
  then have "\<forall>c \<in> C. (c, y) \<notin> E\<^sup>*" "z \<notin> C" by (auto intro: rtrancl.rtrancl_into_rtrancl)
  with step show ?case by (auto intro: rtrancl.rtrancl_into_rtrancl)
qed simp

text \<open>After some nodes \<open>C\<close> have been re-attached, everything is reachable that was.\<close>

lemma reattached_reach:
  assumes "(rt, x) \<in> E\<^sup>*" "E - UNIV \<times> C \<subseteq> E'" "\<forall>c \<in> C. (rt, c) \<in> E'\<^sup>*"
  shows "(rt, x) \<in> E'\<^sup>*"
  using assms(1)
proof (induction rule: rtrancl_induct)
  case (step y z)
  then show ?case using assms(2,3) by (cases "z \<in> C") (auto intro: rtrancl.rtrancl_into_rtrancl)
qed simp

lemma reattach:
  assumes "E - UNIV \<times> C \<subseteq> E'" "\<forall>c \<in> C. \<exists>p. (p, c) \<in> E' \<and> (rt, p) \<in> E\<^sup>* \<and> (\<forall>c' \<in> C. (c', p) \<notin> E\<^sup>*)"
    and "(rt, x) \<in> E\<^sup>*"
  shows "(rt, x) \<in> E'\<^sup>*"
proof (rule reattached_reach [OF assms(3,1)], rule ballI)
  fix c assume "c \<in> C"
  then obtain p where p: "(p, c) \<in> E'" "(rt, p) \<in> E\<^sup>*" "\<forall>c' \<in> C. (c', p) \<notin> E\<^sup>*" using assms(2) by blast
  have "(rt, p) \<in> E'\<^sup>*" by (rule subsetD [OF rtrancl_mono [OF assms(1)] path_avoids [OF p(2,3)]])
  with p(1) show "(rt, c) \<in> E'\<^sup>*" by simp
qed

text \<open>A directory is not below itself.\<close>

lemma tree_path_dir:
  assumes "tree_ok rt N" "(x, y) \<in> (tree_edges N)\<^sup>*" "is_dir N y"
  shows "is_dir N x"
  using assms(2,3)
  by (cases rule: converse_rtranclE) (auto simp: tree_edges_def intro: tree_okD(3) [OF assms(1)])

lemma tree_acyclic:
  assumes t: "tree_ok rt N" and d: "is_dir N d" and e: "(p, d) \<in> tree_edges N"
  shows "(d, p) \<notin> (tree_edges N)\<^sup>*"
proof
  let ?E = "tree_edges N"
  let ?C = "{x. (d, x) \<in> ?E\<^sup>* \<and> (x, d) \<in> ?E\<^sup>*}"
  assume dp: "(d, p) \<in> ?E\<^sup>*"
  have pred: "\<exists>w. (w, z) \<in> ?E \<and> w \<in> ?C" if z: "z \<in> ?C" for z
  proof (cases "z = d")
    case True
    have "p \<in> ?C" using dp e by (simp add: r_into_rtrancl)
    then show ?thesis using e True by blast
  next
    case False
    then have "(d, z) \<in> ?E\<^sup>+" using z by (simp add: rtrancl_eq_or_trancl)
    then obtain w where w: "(d, w) \<in> ?E\<^sup>*" "(w, z) \<in> ?E" by (blast dest: tranclD2)
    have "(z, d) \<in> ?E\<^sup>*" using z by simp
    then have "w \<in> ?C" using w by (simp add: converse_rtrancl_into_rtrancl)
    then show ?thesis using w(2) by blast
  qed
  have out: "x \<notin> ?C" if "(rt, x) \<in> ?E\<^sup>*" for x
    using that
  proof (induction rule: rtrancl_induct)
    case base
    show ?case
    proof
      assume "rt \<in> ?C"
      then obtain w where "(w, rt) \<in> ?E" using pred by blast
      then show False using tree_okD(5) [OF t] by (auto simp: tree_edges_def)
    qed
  next
    case (step y z)
    show ?case
    proof
      assume z: "z \<in> ?C"
      then obtain w where w: "(w, z) \<in> ?E" "w \<in> ?C" using pred by blast
      have dir: "is_dir N z" using z tree_path_dir [OF t _ d] by simp
      obtain a b where "lk N (w, a) = Some z" "lk N (y, b) = Some z"
        using w(1) step.hyps(2) by (auto simp: tree_edges_def)
      then have "(w, a) = (y, b)" by (rule tree_okD(6) [OF t dir])
      then show False using w(2) step.IH by simp
    qed
  qed
  show False using out [OF tree_okD(7) [OF t d]] by simp
qed

lemma not_below_own_entry: "tree_ok rt N \<Longrightarrow> lk N (p, n) = Some d \<Longrightarrow> is_dir N d \<Longrightarrow> (d, p) \<notin> (tree_edges N)\<^sup>*"
  using tree_acyclic by blast

text \<open>Only directories have something below them.\<close>

lemma below_nondir:
  assumes "tree_ok rt N" "\<not> is_dir N c" "is_dir N x"
  shows "(c, x) \<notin> (tree_edges N)\<^sup>*"
  using tree_path_dir [OF assms(1) _ assms(3)] assms(2) by blast

lemma below_leaf:
  assumes "empty_dir N c" "x \<noteq> c"
  shows "(c, x) \<notin> (tree_edges N)\<^sup>*"
proof
  assume "(c, x) \<in> (tree_edges N)\<^sup>*"
  then show False using assms by (cases rule: converse_rtranclE) (auto simp: tree_edges_def empty_dir_def)
qed

section \<open>Every step keeps a tree\<close>

lemma tree_ok_create:
  assumes t: "tree_ok rt N" and p: "is_dir N p" "lk N (p, n) = None" "c \<notin> dom (nk N)"
  shows "tree_ok rt (add_entry p n c (N\<lparr>nk := (nk N)(c \<mapsto> kind)\<rparr>))" (is "tree_ok rt ?M")
proof -
  have dir: "is_dir ?M x \<longleftrightarrow> is_dir N x \<or> x = c \<and> kind = Directory" for x
    using p(3) by (auto simp: is_dir_def add_entry_def dom_def)
  have fresh: "lk N k \<noteq> Some c" for k using tree_okD(4) [OF t] p(3) by (cases k) blast
  have edges: "tree_edges N \<subseteq> tree_edges ?M" "(p, c) \<in> tree_edges ?M"
    using p(2) by (auto simp: add_entry_def intro!: edges_mono)
  have reach: "(rt, x) \<in> (tree_edges ?M)\<^sup>*" if "is_dir N x" for x
    using tree_okD(7) [OF t that] rtrancl_mono [OF edges(1)] by blast
  have "(rt, c) \<in> (tree_edges ?M)\<^sup>*" using reach [OF p(1)] edges(2) by (rule rtrancl.rtrancl_into_rtrancl)
  moreover have "finite (dom (lk ?M))" using tree_okD(1) [OF t] by (simp add: add_entry_def)
  moreover have "rt \<noteq> c" using tree_okD(2) [OF t] p(3) by (auto simp: is_dir_def)
  moreover have lkM: "lk ?M = (lk N)((p, n) \<mapsto> c)" "dom (nk ?M) = insert c (dom (nk N))" by (simp_all add: add_entry_def)
  ultimately show ?thesis
    unfolding tree_ok_def dir lkM(2)
    using tree_okD(2-6) [OF t] reach p fresh unfolding lkM(1) by (auto split: if_splits)
qed

lemma tree_ok_link:
  assumes t: "tree_ok rt N" and p: "is_dir N p" "lk N (p, n) = None" "c \<in> dom (nk N)" "\<not> is_dir N c"
  shows "tree_ok rt (add_entry p n c N)" (is "tree_ok rt ?M")
proof -
  have dir: "is_dir ?M x = is_dir N x" for x by (simp add: is_dir_def add_entry_def)
  have edges: "tree_edges N \<subseteq> tree_edges ?M" using p(2) by (intro edges_mono) (auto simp: add_entry_def)
  have reach: "(rt, x) \<in> (tree_edges ?M)\<^sup>*" if "is_dir N x" for x
    using tree_okD(7) [OF t that] rtrancl_mono [OF edges] by blast
  have "finite (dom (lk ?M))" using tree_okD(1) [OF t] by (simp add: add_entry_def)
  moreover have "c \<noteq> rt" using p(4) tree_okD(2) [OF t] by blast
  moreover have lkM: "lk ?M = (lk N)((p, n) \<mapsto> c)" "dom (nk ?M) = dom (nk N)" by (simp_all add: add_entry_def)
  ultimately show ?thesis
    unfolding tree_ok_def dir lkM(2)
    using tree_okD(2-6) [OF t] reach p unfolding lkM(1) by (auto split: if_splits)
qed

lemma drop_entry_simps:
  assumes "lk N (p, n) = Some c"
  shows "lk (drop_entry p n keep N) = (lk N)((p, n) := None)"
    and "nk (drop_entry p n keep N) = (if is_dir N c \<or> links N c = {(p, n)} \<and> \<not> keep then (nk N)(c := None) else nk N)"
    and "is_dir (drop_entry p n keep N) x \<longleftrightarrow> is_dir N x \<and> x \<noteq> c"
  using assms by (auto simp: drop_entry_def is_dir_def)

lemma tree_ok_drop:
  assumes t: "tree_ok rt N" and c: "lk N (p, n) = Some c" "is_dir N c \<longrightarrow> empty_dir N c"
  shows "tree_ok rt (drop_entry p n keep N)" (is "tree_ok rt ?M")
proof -
  note simps = drop_entry_simps [OF c(1), of keep]
  have empty: "empty_dir N c"
  proof (cases "is_dir N c")
    case False
    then have "lk N (c, m) \<noteq> Some x" for m x using tree_okD(3) [OF t] by blast
    then show ?thesis by (simp add: empty_dir_def not_None_eq [symmetric] del: not_None_eq) (metis not_None_eq)
  qed (use c(2) in simp)
  have edges: "tree_edges N - UNIV \<times> {c} \<subseteq> tree_edges ?M" using c(1) by (intro edges_subset) (auto simp: simps)
  have reach: "(rt, x) \<in> (tree_edges ?M)\<^sup>*" if "is_dir N x" "x \<noteq> c" for x
    using path_avoids [OF tree_okD(7) [OF t that(1)], of "{c}"] below_leaf [OF empty that(2)] rtrancl_mono [OF edges] by blast
  have rt: "rt \<noteq> c" using tree_okD(5) [OF t] c(1) by blast
  have kept: "x \<in> dom (nk ?M)" if "lk ?M k = Some x" for k x
  proof -
    have k: "lk N k = Some x" "k \<noteq> (p, n)" using that by (auto simp: simps(1) split: if_splits)
    then have "x \<in> dom (nk N)" using tree_okD(4) [OF t] by (cases k) blast
    moreover have "x \<noteq> c" if "is_dir N c \<or> links N c = {(p, n)} \<and> \<not> keep"
      using that k tree_okD(6) [OF t _ k(1), of "(p, n)"] c(1) by (auto simp: links_def)
    ultimately show ?thesis by (auto simp: simps(2))
  qed
  have parent: "is_dir ?M x" if "lk ?M (x, m) = Some y" for x m y
  proof -
    have "lk N (x, m) = Some y" using that by (simp add: simps(1) split: if_splits)
    then show ?thesis using tree_okD(3) [OF t] empty unfolding simps(3) by (auto simp: empty_dir_def)
  qed
  have sub: "lk N k = Some x" if "lk ?M k = Some x" for k x using that by (simp add: simps(1) split: if_splits)
  show ?thesis
    unfolding tree_ok_def
  proof (intro conjI allI impI)
    show "finite (dom (lk ?M))" using tree_okD(1) [OF t] by (simp add: simps)
    show "is_dir ?M rt" using tree_okD(2) [OF t] rt by (simp add: simps)
    show "is_dir ?M x \<Longrightarrow> (rt, x) \<in> (tree_edges ?M)\<^sup>*" for x by (simp add: simps reach)
    show "lk ?M (x, m) = Some y \<Longrightarrow> y \<noteq> rt" for x m y using sub tree_okD(5) [OF t] by blast
    show "is_dir ?M d \<Longrightarrow> lk ?M a = Some d \<Longrightarrow> lk ?M b = Some d \<Longrightarrow> a = b" for d a b
      using sub tree_okD(6) [OF t] by (metis simps(3))
  qed (use kept parent in blast)+
qed

lemma tree_ok_reap:
  assumes t: "tree_ok rt N" and c: "\<not> is_dir N c" "links N c = {}"
  shows "tree_ok rt (N\<lparr>nk := (nk N)(c := None)\<rparr>)" (is "tree_ok rt ?M")
proof -
  have dir: "is_dir ?M x = is_dir N x" for x using c(1) by (auto simp: is_dir_def)
  have lkM: "lk ?M = lk N" "dom (nk ?M) = dom (nk N) - {c}" by auto
  have edges: "tree_edges ?M = tree_edges N" by (simp add: tree_edges_def)
  have "lk N k \<noteq> Some c" for k using c(2) by (cases k) (auto simp: links_def)
  then show ?thesis using t unfolding tree_ok_def dir edges lkM by blast
qed

lemma not_below_target:
  assumes t: "tree_ok rt N" and q: "is_dir N q" and "\<not> below_or_self N c q"
  shows "(c, q) \<notin> (tree_edges N)\<^sup>*"
  using assms(3) below_nondir [OF t _ q, of c] by (auto simp: below_or_self_def)

lemma not_below_holder:
  assumes t: "tree_ok rt N" and c: "lk N (p, n) = Some c"
  shows "(c, p) \<notin> (tree_edges N)\<^sup>*"
  using not_below_own_entry [OF t c] below_nondir [OF t _ tree_okD(3) [OF t c], of c] by blast

lemma tree_ok_move_free:
  assumes t: "tree_ok rt N" and c: "lk N (p, n) = Some c"
    and q: "is_dir N q" "lk N (q, m) = None" "\<not> below_or_self N c q"
  shows "tree_ok rt (move_entry p n q m c N)" (is "tree_ok rt ?M")
proof -
  have lkM: "lk ?M = ((lk N)((p, n) := None))((q, m) \<mapsto> c)" "nk ?M = nk N" by (simp_all add: move_entry_def)
  have dir: "is_dir ?M x = is_dir N x" for x by (simp add: is_dir_def lkM)
  have edges: "tree_edges N - UNIV \<times> {c} \<subseteq> tree_edges ?M"
    using c q(2) by (intro edges_subset) (auto simp: lkM)
  have qc: "(q, c) \<in> tree_edges ?M" by (rule edge_intro [of _ _ m]) (simp add: lkM)
  have reach: "(rt, x) \<in> (tree_edges ?M)\<^sup>*" if "is_dir N x" for x
    by (rule reattach [OF edges _ tree_okD(7) [OF t that]])
      (use qc tree_okD(7) [OF t q(1)] not_below_target [OF t q(1,3)] in blast)
  have origin: "\<exists>k'. lk N k' = Some x \<and> (k' = k \<or> k = (q, m) \<and> k' = (p, n))" if "lk ?M k = Some x" for k x
    using that c by (cases k) (auto simp: lkM split: if_splits)
  show ?thesis
    unfolding tree_ok_def dir lkM(2)
  proof (intro conjI allI impI)
    show "finite (dom (lk ?M))" using tree_okD(1) [OF t] by (simp add: lkM)
    show "is_dir N rt" using tree_okD(2) [OF t] .
    show "lk ?M (x, k) = Some y \<Longrightarrow> is_dir N x" for x k y
      using q(1) tree_okD(3) [OF t] by (auto simp: lkM split: if_splits)
    show "lk ?M (x, k) = Some y \<Longrightarrow> y \<in> dom (nk N)" for x k y
      using origin tree_okD(4) [OF t] by (metis surj_pair)
    show "lk ?M (x, k) = Some y \<Longrightarrow> y \<noteq> rt" for x k y using origin tree_okD(5) [OF t] by blast
    show "is_dir N d \<Longrightarrow> lk ?M a = Some d \<Longrightarrow> lk ?M b = Some d \<Longrightarrow> a = b" for d a b
    proof -
      assume d: "is_dir N d" "lk ?M a = Some d" "lk ?M b = Some d"
      then show "a = b"
        using tree_okD(6) [OF t d(1), of a b] tree_okD(6) [OF t d(1), of a "(p, n)"] tree_okD(6) [OF t d(1), of b "(p, n)"] c
        by (auto simp: lkM split: if_splits)
    qed
  qed (rule reach)
qed

lemma tree_ok_exchange:
  assumes t: "tree_ok rt N" and c: "lk N (p, n) = Some c" and d: "lk N (q, m) = Some d"
    and apart: "\<not> below_or_self N c q" "\<not> below_or_self N d p"
  shows "tree_ok rt (N\<lparr>lk := (lk N)((p, n) \<mapsto> d, (q, m) \<mapsto> c)\<rparr>)" (is "tree_ok rt ?M")
proof -
  let ?swap = "\<lambda>k. if k = (p, n) then (q, m) else if k = (q, m) then (p, n) else k"
  have lkM: "lk ?M k = lk N (?swap k)" "nk ?M = nk N" for k using c d by auto
  have inj: "?swap a = ?swap b \<Longrightarrow> a = b" for a b by (auto split: if_splits)
  have dir: "is_dir ?M x = is_dir N x" for x by (simp add: is_dir_def)
  note p = tree_okD(3) [OF t c] and q = tree_okD(3) [OF t d]
  have edges: "tree_edges N - UNIV \<times> {c, d} \<subseteq> tree_edges ?M" using c d by (intro edges_subset) auto
  have "lk ?M (q, m) = Some c" "lk ?M (p, n) = Some d" unfolding lkM using c d by simp_all
  note new = this [THEN edge_intro]
  have far: "(x, y) \<notin> (tree_edges N)\<^sup>*" if "x \<in> {c, d}" "y \<in> {p, q}" for x y
    using that not_below_target [OF t q apart(1)] not_below_target [OF t p apart(2)]
      not_below_holder [OF t c] not_below_holder [OF t d] by blast
  have reach: "(rt, x) \<in> (tree_edges ?M)\<^sup>*" if "is_dir N x" for x
    by (rule reattach [OF edges _ tree_okD(7) [OF t that]])
      (use new tree_okD(7) [OF t p] tree_okD(7) [OF t q] far in blast)
  show ?thesis
    unfolding tree_ok_def dir lkM(2)
  proof (intro conjI allI impI)
    show "finite (dom (lk ?M))" using tree_okD(1) [OF t] by simp
    show "is_dir N rt" using tree_okD(2) [OF t] .
    show "lk ?M (x, k) = Some y \<Longrightarrow> is_dir N x" for x k y
      using p q tree_okD(3) [OF t] unfolding lkM(1) by (auto split: if_splits)
    show "lk ?M (x, k) = Some y \<Longrightarrow> y \<in> dom (nk N)" for x k y
      using tree_okD(4) [OF t] unfolding lkM(1) by (metis surj_pair)
    show "lk ?M (x, k) = Some y \<Longrightarrow> y \<noteq> rt" for x k y using tree_okD(5) [OF t] unfolding lkM(1) by blast
    show "is_dir N x \<Longrightarrow> lk ?M a = Some x \<Longrightarrow> lk ?M b = Some x \<Longrightarrow> a = b" for x a b
      unfolding lkM(1) by (rule inj) (rule tree_okD(6) [OF t])
  qed (rule reach)
qed

text \<open>After the target of a move has been dropped, the entry can be moved to the free place.\<close>

lemma move_after_drop:
  assumes t: "tree_ok rt N" and c: "lk N (p, n) = Some c"
    and q: "is_dir N q" "lk N (q, m) \<noteq> Some c" "\<not> below_or_self N c q"
    and over: "\<And>d. lk N (q, m) = Some d \<Longrightarrow> is_dir N d = is_dir N c \<and> (is_dir N d \<longrightarrow> empty_dir N d)"
    and M_def: "M = drop_entry q m keep N"
  shows "tree_ok rt M \<and> lk M (p, n) = Some c \<and> is_dir M q \<and> lk M (q, m) = None \<and> \<not> below_or_self M c q \<and> is_dir M c = is_dir N c"
proof (cases "lk N (q, m)")
  case None
  then have "M = N" by (simp add: M_def drop_entry_def)
  then show ?thesis using None t c q by simp
next
  case (Some d)
  note simps = drop_entry_simps [OF Some, of keep, folded M_def]
  have q_d: "q \<noteq> d" using Some over [OF Some] q(1) by (auto simp: empty_dir_def)
  have t': "tree_ok rt M" unfolding M_def by (rule tree_ok_drop [OF t Some]) (use over [OF Some] in blast)
  have edges: "tree_edges M \<subseteq> tree_edges N" by (rule edges_mono) (simp add: simps split: if_splits)
  have "lk M (p, n) = Some c" using c q(2) by (auto simp: simps)
  moreover have "is_dir M q" "lk M (q, m) = None" using q(1) q_d by (simp_all add: simps)
  moreover have "is_dir M c = is_dir N c" using q(2) Some by (auto simp: simps)
  moreover have "\<not> below_or_self M c q"
    using q(3) rtrancl_mono [OF edges] by (auto simp: below_or_self_def simps)
  ultimately show ?thesis using t' by blast
qed

lemma tree_ok_move:
  assumes "tree_ok rt N" "lk N (p, n) = Some c" "is_dir N q" "lk N (q, m) \<noteq> Some c" "\<not> below_or_self N c q"
    and "\<And>d. lk N (q, m) = Some d \<Longrightarrow> is_dir N d = is_dir N c \<and> (is_dir N d \<longrightarrow> empty_dir N d)"
  shows "tree_ok rt (move_entry p n q m c (drop_entry q m keep N))"
  using move_after_drop [OF assms refl, of keep] by (blast intro: tree_ok_move_free)

lemma ns_step_tree_ok: "ns_step rt change N M \<Longrightarrow> tree_ok rt N \<Longrightarrow> tree_ok rt M"
  by (induction rule: ns_step.induct)
    (simp_all add: tree_ok_create tree_ok_link tree_ok_drop tree_ok_reap tree_ok_move tree_ok_exchange)

section \<open>Link counts\<close>

text \<open>How many entries satisfy \<open>P\<close>, and how that number follows a change of one entry.\<close>

definition entry_count :: "(inode_id \<times> string \<Rightarrow> inode_id \<Rightarrow> bool) \<Rightarrow> (inode_id \<times> string \<rightharpoonup> inode_id) \<Rightarrow> nat" where
  "entry_count P l = card {k. \<exists>c. l k = Some c \<and> P k c}"

definition hit :: "(inode_id \<times> string \<Rightarrow> inode_id \<Rightarrow> bool) \<Rightarrow> inode_id \<times> string \<Rightarrow> inode_id option \<Rightarrow> nat" where
  "hit P k v = (case v of Some c \<Rightarrow> of_bool (P k c) | None \<Rightarrow> 0)"

lemma entry_count_update:
  assumes "finite (dom l)"
  shows "entry_count P (l(k := v)) + hit P k (l k) = entry_count P l + hit P k v"
proof -
  let ?S = "{j. j \<noteq> k \<and> (\<exists>c. l j = Some c \<and> P j c)}"
  have fin: "finite ?S" using assms by (rule rev_finite_subset) auto
  have "card {j. \<exists>c. (l(k := w)) j = Some c \<and> P j c} = card ?S + hit P k w" for w
  proof (cases "\<exists>c. w = Some c \<and> P k c")
    case True
    then have "{j. \<exists>c. (l(k := w)) j = Some c \<and> P j c} = insert k ?S" by auto
    then show ?thesis using True fin by (auto simp: hit_def)
  next
    case False
    then have "{j. \<exists>c. (l(k := w)) j = Some c \<and> P j c} = ?S" by auto
    then show ?thesis using False by (auto simp: hit_def split: option.split)
  qed
  from this [of v] this [of "l k"] show ?thesis unfolding entry_count_def fun_upd_triv by simp
qed

definition counts :: "nspace \<Rightarrow> inode_id \<Rightarrow> inode_id \<times> string \<Rightarrow> inode_id \<Rightarrow> bool" where
  "counts N i k c \<longleftrightarrow> (if is_dir N i then fst k = i \<and> is_dir N c else c = i)"

lemma link_count_entries: "link_count N i = (if is_dir N i then 2 else 0) + entry_count (counts N i) (lk N)"
proof (cases "is_dir N i")
  case True
  have "{k. \<exists>c. lk N k = Some c \<and> counts N i k c} = Pair i ` subdirs N i"
    using True by (force simp: counts_def subdirs_def)
  then show ?thesis using True by (simp add: link_count_def entry_count_def card_image inj_on_def)
qed (simp add: link_count_def entry_count_def counts_def links_def)

lemma link_count_update_entry:
  assumes "finite (dom (lk N))"
  shows "link_count (N\<lparr>lk := (lk N)(k := v)\<rparr>) i + hit (counts N i) k (lk N k) = link_count N i + hit (counts N i) k v"
proof -
  have "counts (N\<lparr>lk := (lk N)(k := v)\<rparr>) = counts N" "is_dir (N\<lparr>lk := (lk N)(k := v)\<rparr>) i = is_dir N i"
    by (simp_all add: counts_def is_dir_def fun_eq_iff)
  then show ?thesis using entry_count_update [OF assms, of "counts N i" k v] by (simp add: link_count_entries)
qed

lemma link_count_add_entry:
  assumes "finite (dom (lk N))" "lk N (p, n) = None"
  shows "link_count (add_entry p n c N) i = link_count N i + of_bool (counts N i (p, n) c)"
  using link_count_update_entry [OF assms(1), of "(p, n)" "Some c" i] assms(2) by (simp add: add_entry_def hit_def)

lemma link_count_remove_entry:
  assumes "finite (dom (lk N))" "lk N (p, n) = Some c"
  shows "link_count N i = link_count (N\<lparr>lk := (lk N)((p, n) := None)\<rparr>) i + of_bool (counts N i (p, n) c)"
  using link_count_update_entry [OF assms(1), of "(p, n)" None i] assms(2) by (simp add: hit_def)

lemma link_count_dir_ge: "is_dir N i \<Longrightarrow> 2 \<le> link_count N i"
  by (simp add: link_count_def)

lemma link_count_of_parent:
  assumes "finite (dom (lk N))" "lk N (p, n) = Some c" "is_dir N p" "is_dir N c"
  shows "3 \<le> link_count N p"
  using link_count_remove_entry [OF assms(1,2), of p] link_count_dir_ge [of "N\<lparr>lk := (lk N)((p, n) := None)\<rparr>" p] assms(3,4)
  by (simp add: counts_def is_dir_def)

lemma link_count_move:
  assumes fin: "finite (dom (lk N))" and l: "lk N (p, n) = Some c" "lk N (q, m) = None"
  shows "link_count (move_entry p n q m c N) i + of_bool (counts N i (p, n) c) = link_count N i + of_bool (counts N i (q, m) c)"
proof -
  let ?M = "N\<lparr>lk := (lk N)((p, n) := None)\<rparr>"
  have "move_entry p n q m c N = add_entry q m c ?M" "counts ?M = counts N"
    by (simp_all add: move_entry_def add_entry_def counts_def is_dir_def fun_eq_iff)
  moreover have "lk ?M (q, m) = None" "finite (dom (lk ?M))" using fin l by auto
  ultimately show ?thesis
    using link_count_remove_entry [OF fin l(1), of i] link_count_add_entry [of ?M q m c i] by simp
qed

lemma link_count_exchange:
  assumes fin: "finite (dom (lk N))" and l: "lk N (p, n) = Some c" "lk N (q, m) = Some d"
  shows "link_count (N\<lparr>lk := (lk N)((p, n) \<mapsto> d, (q, m) \<mapsto> c)\<rparr>) i + of_bool (counts N i (p, n) c) + of_bool (counts N i (q, m) d)
    = link_count N i + of_bool (counts N i (p, n) d) + of_bool (counts N i (q, m) c)"
proof -
  let ?M = "N\<lparr>lk := (lk N)((p, n) \<mapsto> d)\<rparr>"
  have "counts ?M = counts N" by (simp add: counts_def is_dir_def fun_eq_iff)
  moreover have "lk ?M (q, m) = Some d" "finite (dom (lk ?M))" using fin l by auto
  ultimately show ?thesis
    using link_count_update_entry [OF fin, of "(p, n)" "Some d" i] link_count_update_entry [of ?M "(q, m)" "Some c" i] l
    by (simp add: hit_def)
qed

text \<open>The kind of a node without entries does not matter to the others.\<close>

lemma link_count_update_kind:
  assumes "links N c = {}" "i \<noteq> c"
  shows "link_count (N\<lparr>nk := (nk N)(c := v)\<rparr>) i = link_count N i"
proof -
  let ?M = "N\<lparr>nk := (nk N)(c := v)\<rparr>"
  have dir: "is_dir ?M x = is_dir N x" if "x \<noteq> c" for x using that by (simp add: is_dir_def)
  have "lk N k = Some d \<and> counts ?M i k d \<longleftrightarrow> lk N k = Some d \<and> counts N i k d" for k d
    using assms dir [of d] dir [of i] by (cases k) (auto simp: counts_def links_def)
  then show ?thesis using dir [OF assms(2)] by (simp add: link_count_entries entry_count_def)
qed

lemma links_fresh: "tree_ok rt N \<Longrightarrow> c \<notin> dom (nk N) \<Longrightarrow> links N c = {}"
  using tree_okD(4) by (fastforce simp: links_def)

lemma no_entries_in_nondir: "tree_ok rt N \<Longrightarrow> \<not> is_dir N c \<Longrightarrow> lk N (c, n) = None"
  using tree_okD(3) by (meson not_None_eq)

lemma link_count_new:
  assumes t: "tree_ok rt N" and c: "c \<notin> dom (nk N)"
  shows "link_count (N\<lparr>nk := (nk N)(c \<mapsto> kind)\<rparr>) c = (if kind = Directory then 2 else 0)"
proof -
  have "\<not> is_dir N c" using c by (auto simp: is_dir_def)
  then have "lk N (c, n) = None" for n by (rule no_entries_in_nondir [OF t])
  moreover have "links (N\<lparr>nk := (nk N)(c \<mapsto> kind)\<rparr>) c = {}" using links_fresh [OF t c] by (simp add: links_def)
  ultimately show ?thesis by (simp add: link_count_def is_dir_def subdirs_def)
qed

end
