(* ===== verification/Argos_Namespace.thy ===== *)
theory Argos_Namespace
  imports Argos_Volume Argos_Tree Argos_Path
begin

text \<open>
  The operations on the namespace of a volume (\<open>src/volume/mod.rs\<close> and \<open>src/volume/namespace.rs\<close>): making,
  linking, removing and renaming inodes, resolving paths and listing directories. Every operation that
  changes the namespace checks, changes the metadata, commits, and finishes; the commit is the argument
  \<open>commit\<close>, an interface for which \<open>commit_host\<close> is the host-backed implementation.
\<close>

section \<open>Mode bits\<close>

abbreviation (input) "S_IFMT \<equiv> 0xF000 :: 32 word"
abbreviation (input) "S_IFSOCK \<equiv> 0xC000 :: 32 word"
abbreviation (input) "S_IFLNK \<equiv> 0xA000 :: 32 word"
abbreviation (input) "S_IFREG \<equiv> 0x8000 :: 32 word"
abbreviation (input) "S_IFBLK \<equiv> 0x6000 :: 32 word"
abbreviation (input) "S_IFDIR \<equiv> 0x4000 :: 32 word"
abbreviation (input) "S_IFCHR \<equiv> 0x2000 :: 32 word"
abbreviation (input) "S_IFIFO \<equiv> 0x1000 :: 32 word"
abbreviation (input) "S_ISGID \<equiv> 0x400 :: 32 word"
abbreviation (input) "S_ISVTX \<equiv> 0x200 :: 32 word"

section \<open>Reading the namespace\<close>

record node_attr =
  na_ino :: inode_id
  na_kind :: node_kind
  na_mode :: "32 word"
  na_uid :: "32 word"
  na_gid :: "32 word"
  na_nlink :: "32 word"
  na_size :: nat
  na_rdev :: nat
  na_atime :: f64
  na_mtime :: f64
  na_ctime :: f64
  na_blocks :: nat
  na_blksize :: "32 word"

record dir_entry =
  de_name_bytes :: "8 word list"
  de_attr :: node_attr

record rename_policy =
  po_no_replace :: bool
  po_exchange :: bool
  po_uid :: "32 word option"
  po_preserve_replaced_inode :: bool

definition attr_from_inode :: "inode \<Rightarrow> nat \<Rightarrow> node_attr" where
  "attr_from_inode inode chunk_size =
     \<lparr>na_ino = i_id inode, na_kind = i_kind inode, na_mode = i_mode inode, na_uid = i_uid inode, na_gid = i_gid inode,
      na_nlink = i_nlink inode, na_size = i_size inode, na_rdev = i_rdev inode, na_atime = i_atime inode,
      na_mtime = i_mtime inode, na_ctime = i_ctime inode,
      na_blocks = (if i_kind inode = File then div_ceil (i_size inode) 512 else 0),
      na_blksize = (if chunk_size < 2 ^ 32 then of_nat chunk_size else - 1)\<rparr>"

definition attr_inode :: "inode_id \<Rightarrow> volume \<Rightarrow> node_attr result" where
  "attr_inode ino v =
     rbind (get_inode (v_meta v) ino) (\<lambda>inode. Inr (attr_from_inode inode (c_chunk_size (m_config (v_meta v)))))"

definition lookup :: "venv \<Rightarrow> inode_id \<Rightarrow> 8 word list \<Rightarrow> volume \<Rightarrow> node_attr result" where
  "lookup e parent name v =
     rbind (dir_inode_locked (v_meta v) parent) (\<lambda>parent_inode.
     rbind (entry_name_from_os (ve_hex e) name) (\<lambda>name.
     rbind (ok_or NotFound (map_of (i_entries parent_inode) name)) (\<lambda>child.
     rbind (get_inode (v_meta v) child) (\<lambda>inode.
       Inr (attr_from_inode inode (c_chunk_size (m_config (v_meta v))))))))"

definition parent_inode_locked :: "metadata \<Rightarrow> inode_id \<Rightarrow> inode_id result" where
  "parent_inode_locked meta ino =
     (if ino = ROOT_INO then Inr ROOT_INO
      else ok_or NotFound (map_option fst (find (\<lambda>(_, inode). i_kind inode = Directory \<and> ino \<in> set (bt_values (i_entries inode)))
             (m_inodes meta))))"

text \<open>\<open>readdir\<close>; the \<open>unwrap\<close> on the parent, which panics if the root has no inode, is an error here. An entry is
  given by the bytes of its name, of which \<open>name\<close> is the lossy text.\<close>

definition readdir :: "venv \<Rightarrow> inode_id \<Rightarrow> volume \<Rightarrow> dir_entry list result" where
  "readdir e ino v =
     (let meta = v_meta v; chunk = c_chunk_size (m_config meta)
      in rbind (dir_inode_locked meta ino) (\<lambda>inode.
         rbind (parent_inode_locked meta ino) (\<lambda>parent_ino.
         rbind (get_inode meta parent_ino) (\<lambda>parent_inode.
           Inr (\<lparr>de_name_bytes = str_bytes ''.'', de_attr = attr_from_inode inode chunk\<rparr>
              # \<lparr>de_name_bytes = str_bytes ''..'', de_attr = attr_from_inode parent_inode chunk\<rparr>
              # List.map_filter (\<lambda>(name, child).
                   map_option (\<lambda>child_inode.
                     \<lparr>de_name_bytes = decode_entry_name_bytes (ve_hex e) name, de_attr = attr_from_inode child_inode chunk\<rparr>)
                     (map_of (m_inodes meta) child)) (i_entries inode))))))"

definition readlink_inode_bytes :: "venv \<Rightarrow> inode_id \<Rightarrow> volume \<Rightarrow> 8 word list result" where
  "readlink_inode_bytes e ino v =
     rbind (get_inode (v_meta v) ino) (\<lambda>inode.
       if i_kind inode \<noteq> Symlink then Inl Invalid
       else Inr (decode_symlink_target_bytes (ve_hex e) (case i_target inode of Some t \<Rightarrow> t | None \<Rightarrow> [])))"

text \<open>\<open>resolve_path_locked\<close>: the loop over the components, which a symbolic link leaves with the path to
  resolve instead.\<close>

definition link_path :: "string list \<Rightarrow> string \<Rightarrow> string list \<Rightarrow> string" where
  "link_path prefix target rest_parts =
     (let rest = join ''/'' rest_parts
      in if target \<noteq> [] \<and> hd target = CHR ''/'' then (if rest = [] then target else target @ ''/'' @ rest)
         else let base = (if prefix = [] then ''/'' else ''/'' @ join ''/'' prefix)
              in if rest = [] then clean_path (base @ ''/'' @ target) else clean_path (base @ ''/'' @ target @ ''/'' @ rest))"

fun resolve_parts :: "venv \<Rightarrow> metadata \<Rightarrow> bool \<Rightarrow> inode_id \<Rightarrow> string list \<Rightarrow> string list \<Rightarrow> (inode_id + string) result" where
  "resolve_parts e meta follow_final current prefix [] = Inr (Inl current)"
| "resolve_parts e meta follow_final current prefix (part # parts) =
     rbind (dir_inode_locked meta current) (\<lambda>inode.
     rbind (entry_name_from_str (ve_hex e) part) (\<lambda>part_key.
     rbind (ok_or NotFound (map_of (i_entries inode) part_key)) (\<lambda>next_ino.
     rbind (get_inode meta next_ino) (\<lambda>child.
       if i_kind child = Symlink \<and> (follow_final \<or> parts \<noteq> [])
       then rbind (ok_or Invalid (from_utf8 (decode_symlink_target_bytes (ve_hex e)
                     (case i_target child of Some t \<Rightarrow> t | None \<Rightarrow> [])))) (\<lambda>target.
              Inr (Inr (link_path prefix target parts)))
       else resolve_parts e meta follow_final next_ino (prefix @ [part]) parts))))"

fun resolve_path_locked :: "venv \<Rightarrow> metadata \<Rightarrow> string \<Rightarrow> bool \<Rightarrow> nat \<Rightarrow> inode_id result" where
  "resolve_path_locked e meta path follow_final 0 = Inl Invalid"
| "resolve_path_locked e meta path follow_final (Suc limit) =
     (if clean_path path = ''/'' then Inr ROOT_INO
      else rbind (resolve_parts e meta follow_final ROOT_INO [] (split_path (clean_path path))) (\<lambda>r.
             case r of Inl ino \<Rightarrow> Inr ino | Inr new_path \<Rightarrow> resolve_path_locked e meta new_path True limit))"

definition resolve_path :: "venv \<Rightarrow> string \<Rightarrow> bool \<Rightarrow> volume \<Rightarrow> inode_id result" where
  "resolve_path e path follow_final v = resolve_path_locked e (v_meta v) path follow_final 40"

definition attr_path :: "venv \<Rightarrow> string \<Rightarrow> bool \<Rightarrow> volume \<Rightarrow> node_attr result" where
  "attr_path e path follow_final v = rbind (resolve_path e path follow_final v) (\<lambda>ino. attr_inode ino v)"

section \<open>Checks\<close>

definition check_sticky_locked :: "metadata \<Rightarrow> inode_id \<Rightarrow> inode_id \<Rightarrow> 32 word option \<Rightarrow> unit result" where
  "check_sticky_locked meta parent child uid =
     (case uid of
        None \<Rightarrow> Inr ()
      | Some uid \<Rightarrow>
          if uid = 0 then Inr ()
          else rbind (dir_inode_locked meta parent) (\<lambda>parent_inode.
                 if i_mode parent_inode AND S_ISVTX = 0 then Inr ()
                 else rbind (get_inode meta child) (\<lambda>child_inode.
                        if uid = i_uid parent_inode \<or> uid = i_uid child_inode then Inr () else Inl PermissionDenied)))"

text \<open>\<open>directory_contains_inode\<close> with a bound on its depth; on a tree the number of inodes is enough.\<close>

fun contains_within :: "nat \<Rightarrow> metadata \<Rightarrow> inode_id \<Rightarrow> inode_id \<Rightarrow> bool option"
  and any_contains :: "nat \<Rightarrow> metadata \<Rightarrow> inode_id list \<Rightarrow> inode_id \<Rightarrow> bool option" where
  "contains_within 0 meta ancestor needle = None"
| "contains_within (Suc depth) meta ancestor needle =
     (if ancestor = needle then Some True
      else case map_of (m_inodes meta) ancestor of
             None \<Rightarrow> Some False
           | Some inode \<Rightarrow>
               if i_kind inode \<noteq> Directory then Some False
               else any_contains depth meta (bt_values (i_entries inode)) needle)"
| "any_contains depth meta [] needle = Some False"
| "any_contains depth meta (child # children) needle =
     (case contains_within depth meta child needle of
        None \<Rightarrow> None
      | Some True \<Rightarrow> Some True
      | Some False \<Rightarrow> any_contains depth meta children needle)"

definition directory_contains_inode :: "metadata \<Rightarrow> inode_id \<Rightarrow> inode_id \<Rightarrow> bool option" where
  "directory_contains_inode meta ancestor needle = contains_within (walk_depth meta) meta ancestor needle"

text \<open>The check of \<open>rename_locked\<close>; a walk that does not end is \<open>Inl Message\<close>.\<close>

definition not_into_itself :: "metadata \<Rightarrow> inode \<Rightarrow> inode_id \<Rightarrow> inode_id \<Rightarrow> unit result" where
  "not_into_itself meta inode ino target =
     (if i_kind inode = Directory
      then case directory_contains_inode meta ino target of
             Some True \<Rightarrow> Inl Invalid | Some False \<Rightarrow> Inr () | None \<Rightarrow> Inl Message
      else Inr ())"

section \<open>Making inodes\<close>

definition new_inode ::
  "venv \<Rightarrow> inode_id \<Rightarrow> node_kind \<Rightarrow> 32 word \<Rightarrow> 32 word \<Rightarrow> 32 word \<Rightarrow> 32 word \<Rightarrow> nat \<Rightarrow> nat \<Rightarrow> string option
    \<Rightarrow> posix_acl option \<Rightarrow> posix_acl option \<Rightarrow> bool \<Rightarrow> inode" where
  "new_inode e ino kind mode uid gid nlink bytes rdev target access_acl default_acl boot =
     \<lparr>i_id = ino, i_kind = kind, i_mode = mode, i_uid = uid, i_gid = gid, i_nlink = nlink, i_size = bytes, i_rdev = rdev,
      i_atime = ve_now e, i_mtime = ve_now e, i_ctime = ve_now e, i_entries = [], i_target = target,
      i_inline_data = None, i_inline_sha256 = [], i_blocks = [], i_xattrs = [], i_quota_bytes = None,
      i_posix_acl_access = access_acl, i_posix_acl_default = default_acl, i_nfs4_acl = None,
      i_access_count = 0, i_write_count = 0, i_read_bytes = 0, i_write_bytes = 0, i_storage_class = Warm,
      i_boot_critical = boot, i_workload_score = 0, i_last_accessed_at = ve_now e, i_last_written_at = ve_now e\<rparr>"

definition inherited_gid :: "inode \<Rightarrow> 32 word \<Rightarrow> 32 word" where
  "inherited_gid parent_inode gid = (if i_mode parent_inode AND S_ISGID \<noteq> 0 then i_gid parent_inode else gid)"

definition parent_acl :: "(inode \<Rightarrow> posix_acl option) \<Rightarrow> inode_id \<Rightarrow> metadata \<Rightarrow> posix_acl option" where
  "parent_acl f parent meta = Option.bind (map_of (m_inodes meta) parent) f"

definition mkdir_locked :: "commit \<Rightarrow> venv \<Rightarrow> inode_id \<Rightarrow> string \<Rightarrow> 32 word \<Rightarrow> 32 word \<Rightarrow> 32 word \<Rightarrow> inode_id vop" where
  "mkdir_locked commit e parent name mode uid gid =
     sbind (sread ensure_block_backend_writable_locked) (\<lambda>_.
     sbind (sread (\<lambda>_. validate_entry_name name)) (\<lambda>_.
     sbind (sread (\<lambda>v. dir_inode_locked (v_meta v) parent)) (\<lambda>inode.
     if bt_contains name (i_entries inode) then sthrow AlreadyExists
     else
       sbind alloc_inode_locked (\<lambda>ino.
       sbind (sread (\<lambda>v. dir_inode_locked (v_meta v) parent)) (\<lambda>parent_inode.
       let gid = inherited_gid parent_inode gid;
           mode = (if i_mode parent_inode AND S_ISGID \<noteq> 0 then mode OR S_ISGID else mode)
       in
       sbind (sread (\<lambda>v. Inr (parent_acl inherited_directory_acl parent (v_meta v)))) (\<lambda>default_acl.
       sbind (sread (\<lambda>v. Inr (parent_acl (\<lambda>p. inherited_access_acl p mode) parent (v_meta v)))) (\<lambda>access_acl.
       sbind (smodify (on_inodes (bt_insert ino
         (new_inode e ino Directory (S_IFDIR OR (mode AND 0xFFF)) uid gid 2 0 0 None access_acl default_acl (boot_critical_name name))))) (\<lambda>_.
       sbind (dir_inode_mut_locked parent (set_entry name ino)) (\<lambda>_.
       sbind (smodify (on_inode parent link_up)) (\<lambda>_.
       sbind (smodify (touch_inode_locked e parent True True)) (\<lambda>_.
       sbind (commit None ''mkdir'' (JObject [(''inode'', jnum ino), (''name'', JString name), (''parent'', jnum parent)])) (\<lambda>_.
       sbind (smodify (\<lambda>v. v\<lparr>v_quota := inherit_quota_memberships parent ino (v_quota v)\<rparr>)) (\<lambda>_.
       sret ino)))))))))))))"

definition mknod_kind :: "32 word \<Rightarrow> nat \<Rightarrow> node_kind result" where
  "mknod_kind mode rdev =
     (let file_type = mode AND S_IFMT
      in if file_type = S_IFREG \<or> file_type = 0 then (if rdev \<noteq> 0 then Inl Invalid else Inr File)
         else if file_type = S_IFCHR \<or> file_type = S_IFBLK \<or> file_type = S_IFIFO \<or> file_type = S_IFSOCK
         then (if (file_type = S_IFIFO \<or> file_type = S_IFSOCK) \<and> rdev \<noteq> 0 then Inl Invalid else Inr Special)
         else Inl Unsupported)"

definition restore_unless_committed :: "metadata option \<Rightarrow> argos_error \<Rightarrow> volume \<Rightarrow> volume" where
  "restore_unless_committed rollback err v =
     (if \<not> transaction_error_is_committed err \<and> err \<noteq> Conflict
      then (case rollback of Some meta \<Rightarrow> v\<lparr>v_meta := meta\<rparr> | None \<Rightarrow> v) else v)"

definition mknod_locked :: "commit \<Rightarrow> venv \<Rightarrow> inode_id \<Rightarrow> string \<Rightarrow> 32 word \<Rightarrow> nat \<Rightarrow> 32 word \<Rightarrow> 32 word \<Rightarrow> inode_id vop" where
  "mknod_locked commit e parent name mode rdev uid gid =
     sbind (sread ensure_block_backend_writable_locked) (\<lambda>_.
     sbind (sread (\<lambda>_. validate_entry_name name)) (\<lambda>_.
     sbind (sread (\<lambda>v. dir_inode_locked (v_meta v) parent)) (\<lambda>inode.
     if bt_contains name (i_entries inode) then sthrow AlreadyExists
     else
       sbind (sread (\<lambda>v. Inr (commit_previous_snapshot (v_meta v)))) (\<lambda>rollback.
       sbind (sread (\<lambda>_. mknod_kind mode rdev)) (\<lambda>kind.
       sbind alloc_inode_locked (\<lambda>ino.
       sbind (sread (\<lambda>v. dir_inode_locked (v_meta v) parent)) (\<lambda>parent_inode.
       let gid = inherited_gid parent_inode gid;
           file_type = mode AND S_IFMT;
           normalized_mode = (if kind = File \<and> file_type = 0 then S_IFREG OR (mode AND 0xFFF) else file_type OR (mode AND 0xFFF))
       in
       sbind (sread (\<lambda>v. Inr (parent_acl (\<lambda>p. inherited_access_acl p mode) parent (v_meta v)))) (\<lambda>acl.
       sbind (smodify (on_inodes (bt_insert ino
         (new_inode e ino kind normalized_mode uid gid 1 0 rdev None acl None (boot_critical_name name))))) (\<lambda>_.
       sbind (dir_inode_mut_locked parent (set_entry name ino)) (\<lambda>_.
       sbind (smodify (touch_inode_locked e parent True True)) (\<lambda>_.
       sbind (son_error (commit rollback ''mknod''
                (JObject [(''inode'', jnum ino), (''mode'', jnum (unat mode)), (''name'', JString name), (''parent'', jnum parent), (''rdev'', jnum rdev)]))
                (restore_unless_committed rollback)) (\<lambda>_.
       sbind (smodify (\<lambda>v. v\<lparr>v_quota := inherit_quota_memberships parent ino (v_quota v)\<rparr>)) (\<lambda>_.
       sret ino)))))))))))))"

definition symlink_at_with_owner ::
  "commit \<Rightarrow> venv \<Rightarrow> inode_id \<Rightarrow> 8 word list \<Rightarrow> 8 word list \<Rightarrow> 32 word \<Rightarrow> 32 word \<Rightarrow> node_attr vop" where
  "symlink_at_with_owner commit e parent os_name target uid gid =
     sbind (sread (\<lambda>_. entry_name_from_os (ve_hex e) os_name)) (\<lambda>name.
     sbind (sread ensure_block_backend_writable_locked) (\<lambda>_.
     sbind (sread (\<lambda>v. dir_inode_locked (v_meta v) parent)) (\<lambda>inode.
     if bt_contains name (i_entries inode) then sthrow AlreadyExists
     else
       sbind alloc_inode_locked (\<lambda>ino.
       sbind (sread (\<lambda>v. dir_inode_locked (v_meta v) parent)) (\<lambda>parent_inode.
       sbind (sread (\<lambda>v. Inr (parent_acl (\<lambda>p. inherited_access_acl p 0x1FF) parent (v_meta v)))) (\<lambda>acl.
       let target_string = encode_symlink_target (ve_hex e) target
       in
       sbind (smodify (on_inodes (bt_insert ino
         (new_inode e ino Symlink (S_IFLNK OR 0x1FF) uid (inherited_gid parent_inode gid) 1
            (length (decode_symlink_target_bytes (ve_hex e) target_string)) 0 (Some target_string) acl None (boot_critical_name name))))) (\<lambda>_.
       sbind (dir_inode_mut_locked parent (set_entry name ino)) (\<lambda>_.
       sbind (smodify (touch_inode_locked e parent True True)) (\<lambda>_.
       sbind (commit None ''symlink''
         (JObject [(''inode'', jnum ino), (''name'', JString name), (''parent'', jnum parent), (''target'', JString target_string)])) (\<lambda>_.
       sread (attr_inode ino)))))))))))"

definition link_at :: "commit \<Rightarrow> venv \<Rightarrow> inode_id \<Rightarrow> inode_id \<Rightarrow> 8 word list \<Rightarrow> node_attr vop" where
  "link_at commit e ino new_parent new_name =
     sbind (sread (\<lambda>_. entry_name_from_os (ve_hex e) new_name)) (\<lambda>name.
     sbind (sread ensure_block_backend_writable_locked) (\<lambda>_.
     sbind (sread (\<lambda>v. get_inode (v_meta v) ino)) (\<lambda>inode.
     sbind (sread (\<lambda>v. dir_inode_locked (v_meta v) new_parent)) (\<lambda>parent_inode.
     if bt_contains name (i_entries parent_inode) then sthrow AlreadyExists
     else if i_kind inode = Directory then sthrow Unsupported
     else
       sbind (sread (\<lambda>v. Inr (if has_directory_quotas (v_quota v) then Some (v_meta v) else None))) (\<lambda>quota_rollback.
       sbind (dir_inode_mut_locked new_parent (set_entry name ino)) (\<lambda>_.
       sbind (smodify (on_inode ino (\<lambda>inode. (link_up inode)\<lparr>i_ctime := ve_now e\<rparr>))) (\<lambda>_.
       sbind (smodify (touch_inode_locked e new_parent True True)) (\<lambda>_.
       sbind (case quota_rollback of
                None \<Rightarrow> sret ()
              | Some rollback \<Rightarrow>
                  son_error (sread (\<lambda>v. validate_all_directory_quotas_locked (v_quota v) (v_meta v)))
                    (\<lambda>_ v. v\<lparr>v_meta := rollback\<rparr>)) (\<lambda>_.
       sbind (commit None ''link'' (JObject [(''inode'', jnum ino), (''name'', JString name), (''new_parent'', jnum new_parent)])) (\<lambda>_.
       sbind rebuild_quota_runtime_locked (\<lambda>_.
       sread (attr_inode ino))))))))))))"

section \<open>Removing and renaming\<close>

text \<open>An entry to \<open>child\<close> was removed: a directory goes away, another inode loses a link and goes away with its
  last one unless it is to be kept. The result is the blocks that are no longer needed.\<close>

definition unlink_child :: "venv \<Rightarrow> inode_id \<Rightarrow> bool \<Rightarrow> file_block list vop" where
  "unlink_child e child keep v =
     (let v1 = on_inode child (\<lambda>live. (link_down live)\<lparr>i_ctime := ve_now e\<rparr>) v
      in case map_of (m_inodes (v_meta v1)) child of
           None \<Rightarrow> (v1, Inr [])
         | Some live \<Rightarrow>
             if i_nlink live = 0 \<and> \<not> keep then (on_inodes (bt_remove child) v1, Inr (i_blocks live)) else (v1, Inr []))"

definition check_removable :: "bool \<Rightarrow> inode \<Rightarrow> unit result" where
  "check_removable dir child_inode =
     (if dir then (if i_kind child_inode \<noteq> Directory then Inl NotDirectory
                   else if i_entries child_inode \<noteq> [] then Inl DirectoryNotEmpty else Inr ())
      else if i_kind child_inode = Directory then Inl IsDirectory else Inr ())"

definition unlink_locked :: "commit \<Rightarrow> venv \<Rightarrow> inode_id \<Rightarrow> string \<Rightarrow> bool \<Rightarrow> 32 word option \<Rightarrow> bool \<Rightarrow> unit vop" where
  "unlink_locked commit e parent name dir uid preserve_unlinked =
     sbind (sread (\<lambda>_. validate_entry_name name)) (\<lambda>_.
     sbind (sread (\<lambda>v. dir_inode_locked (v_meta v) parent)) (\<lambda>inode.
     sbind (sread (\<lambda>_. ok_or NotFound (map_of (i_entries inode) name))) (\<lambda>child.
     sbind (sread (\<lambda>v. get_inode (v_meta v) child)) (\<lambda>child_inode.
     sbind (sread (\<lambda>v. check_sticky_locked (v_meta v) parent child uid)) (\<lambda>_.
     sbind (sread ensure_block_backend_writable_locked) (\<lambda>_.
     sbind (sread (\<lambda>_. check_removable dir child_inode)) (\<lambda>_.
     sbind (dir_inode_mut_locked parent (remove_entry name)) (\<lambda>_.
     sbind (smodify (touch_inode_locked e parent True True)) (\<lambda>_.
     sbind (if i_kind child_inode = Directory
            then sbind (smodify (\<lambda>v. on_inodes (bt_remove child) (on_inode parent dir_link_down v))) (\<lambda>_. sret [])
            else unlink_child e child preserve_unlinked) (\<lambda>blocks_to_delete.
     sbind (smodify (stage_block_reclamation_locked e blocks_to_delete)) (\<lambda>_.
     sbind (commit None (if dir then ''rmdir'' else ''unlink'')
       (JObject [(''inode'', jnum child), (''name'', JString name), (''parent'', jnum parent)])) (\<lambda>_.
     sbind rebuild_quota_runtime_locked (\<lambda>_.
     smodify (finish_block_reclamation_locked e blocks_to_delete))))))))))))))"

definition reap_unlinked_inode :: "commit \<Rightarrow> venv \<Rightarrow> inode_id \<Rightarrow> unit vop" where
  "reap_unlinked_inode commit e ino =
     sbind (sread ensure_block_backend_writable_locked) (\<lambda>_.
     sbind (sread (\<lambda>v. Inr (map_of (m_inodes (v_meta v)) ino))) (\<lambda>found.
     case found of
       None \<Rightarrow> sret ()
     | Some inode \<Rightarrow>
         if i_nlink inode \<noteq> 0 then sret ()
         else
           sbind (smodify (on_inodes (bt_remove ino))) (\<lambda>_.
           sbind (smodify (stage_block_reclamation_locked e (i_blocks inode))) (\<lambda>_.
           sbind (commit None ''orphan-reap'' (JObject [(''inode'', jnum ino)])) (\<lambda>_.
           smodify (finish_block_reclamation_locked e (i_blocks inode)))))))"

text \<open>Checking quotas on a copy of the metadata that \<open>change\<close> is applied to.\<close>

definition validate_candidate :: "unit vop \<Rightarrow> unit vop" where
  "validate_candidate change =
     sread (\<lambda>v. if has_directory_quotas (v_quota v)
       then (case change v of
               (_, Inl err) \<Rightarrow> Inl err
             | (candidate, Inr _) \<Rightarrow> validate_all_directory_quotas_locked (v_quota v) (v_meta candidate))
       else Inr ())"

definition swap_entries :: "inode_id \<Rightarrow> string \<Rightarrow> inode_id \<Rightarrow> inode_id \<Rightarrow> string \<Rightarrow> inode_id \<Rightarrow> unit vop" where
  "swap_entries old_parent old_name existing new_parent new_name child =
     sbind (dir_inode_mut_locked old_parent (set_entry old_name existing)) (\<lambda>_.
     dir_inode_mut_locked new_parent (set_entry new_name child))"

definition move_links :: "inode_id \<Rightarrow> inode_id \<Rightarrow> volume \<Rightarrow> volume" where
  "move_links from_parent to_parent v = on_inode to_parent link_up (on_inode from_parent dir_link_down v)"

definition rename_details :: "inode_id \<Rightarrow> string \<Rightarrow> inode_id \<Rightarrow> string \<Rightarrow> inode_id \<Rightarrow> (string \<times> json) list \<Rightarrow> json" where
  "rename_details old_parent old_name new_parent new_name child extra =
     JObject (extra @ [(''inode'', jnum child), (''new_name'', JString new_name), (''new_parent'', jnum new_parent),
                       (''old_name'', JString old_name), (''old_parent'', jnum old_parent)])"

definition rename_exchange ::
  "commit \<Rightarrow> venv \<Rightarrow> inode_id \<Rightarrow> string \<Rightarrow> inode_id \<Rightarrow> string \<Rightarrow> 32 word option \<Rightarrow> inode_id \<Rightarrow> inode \<Rightarrow> inode_id option \<Rightarrow> unit vop" where
  "rename_exchange commit e old_parent old_name new_parent new_name uid child child_inode found =
     sbind (sread (\<lambda>_. ok_or NotFound found)) (\<lambda>existing.
     sbind (sread (\<lambda>v. check_sticky_locked (v_meta v) new_parent existing uid)) (\<lambda>_.
     sbind (sread (\<lambda>v. get_inode (v_meta v) existing)) (\<lambda>existing_inode.
     sbind (sread (\<lambda>v. not_into_itself (v_meta v) existing_inode existing old_parent)) (\<lambda>_.
     sbind (validate_candidate (swap_entries old_parent old_name existing new_parent new_name child)) (\<lambda>_.
     sbind (swap_entries old_parent old_name existing new_parent new_name child) (\<lambda>_.
     sbind (smodify (\<lambda>v. if old_parent \<noteq> new_parent
              then let v1 = (if i_kind child_inode = Directory then move_links old_parent new_parent v else v)
                   in (if i_kind existing_inode = Directory then move_links new_parent old_parent v1 else v1)
              else v)) (\<lambda>_.
     sbind (smodify (touch_inode_locked e old_parent True True)) (\<lambda>_.
     sbind (smodify (touch_inode_locked e new_parent True True)) (\<lambda>_.
     sbind (smodify (touch_inode_locked e child False True)) (\<lambda>_.
     sbind (smodify (touch_inode_locked e existing False True)) (\<lambda>_.
     sbind (commit None ''rename-exchange''
       (rename_details old_parent old_name new_parent new_name child [(''exchanged_inode'', jnum existing)])) (\<lambda>_.
     rebuild_quota_runtime_locked))))))))))))"

definition check_replaceable :: "inode \<Rightarrow> inode \<Rightarrow> unit result" where
  "check_replaceable child_inode inode =
     (if i_kind child_inode = Directory
      then (if i_kind inode = Directory then (if i_entries inode \<noteq> [] then Inl DirectoryNotEmpty else Inr ())
            else Inl NotDirectory)
      else if i_kind inode = Directory then Inl IsDirectory else Inr ())"

definition find_replaced ::
  "inode_id \<Rightarrow> 32 word option \<Rightarrow> inode \<Rightarrow> inode_id option \<Rightarrow> volume \<Rightarrow> (inode_id \<times> inode) option result" where
  "find_replaced new_parent uid child_inode found v =
     (case found of
        None \<Rightarrow> Inr None
      | Some existing \<Rightarrow>
          rbind (check_sticky_locked (v_meta v) new_parent existing uid) (\<lambda>_.
          rbind (get_inode (v_meta v) existing) (\<lambda>inode.
          rbind (check_replaceable child_inode inode) (\<lambda>_. Inr (Some (existing, inode))))))"

definition remove_replaced :: "venv \<Rightarrow> inode_id \<Rightarrow> string \<Rightarrow> bool \<Rightarrow> (inode_id \<times> inode) option \<Rightarrow> file_block list vop" where
  "remove_replaced e new_parent new_name keep replaced =
     (case replaced of
        None \<Rightarrow> sret []
      | Some (existing, existing_inode) \<Rightarrow>
          sbind (dir_inode_mut_locked new_parent (remove_entry new_name)) (\<lambda>_.
          if i_kind existing_inode = Directory
          then sbind (smodify (\<lambda>v. on_inode new_parent dir_link_down (on_inodes (bt_remove existing) v))) (\<lambda>_. sret [])
          else unlink_child e existing keep))"

definition move_candidate :: "inode_id \<Rightarrow> string \<Rightarrow> inode_id \<Rightarrow> string \<Rightarrow> inode_id \<Rightarrow> inode_id option \<Rightarrow> unit vop" where
  "move_candidate old_parent old_name new_parent new_name child found =
     sbind (if found \<noteq> None then dir_inode_mut_locked new_parent (remove_entry new_name) else sret ()) (\<lambda>_.
     sbind (dir_inode_mut_locked old_parent (remove_entry old_name)) (\<lambda>_.
     dir_inode_mut_locked new_parent (set_entry new_name child)))"

definition rename_move ::
  "commit \<Rightarrow> venv \<Rightarrow> inode_id \<Rightarrow> string \<Rightarrow> inode_id \<Rightarrow> string \<Rightarrow> 32 word option \<Rightarrow> bool \<Rightarrow> inode_id \<Rightarrow> inode \<Rightarrow> inode_id option
    \<Rightarrow> unit vop" where
  "rename_move commit e old_parent old_name new_parent new_name uid keep child child_inode found =
     sbind (sread (find_replaced new_parent uid child_inode found)) (\<lambda>replaced.
     sbind (validate_candidate (move_candidate old_parent old_name new_parent new_name child found)) (\<lambda>_.
     sbind (remove_replaced e new_parent new_name keep replaced) (\<lambda>blocks_to_delete.
     sbind (smodify (stage_block_reclamation_locked e blocks_to_delete)) (\<lambda>_.
     sbind (dir_inode_mut_locked old_parent (remove_entry old_name)) (\<lambda>_.
     sbind (dir_inode_mut_locked new_parent (set_entry new_name child)) (\<lambda>_.
     sbind (smodify (\<lambda>v. if i_kind child_inode = Directory \<and> old_parent \<noteq> new_parent then move_links old_parent new_parent v else v)) (\<lambda>_.
     sbind (smodify (touch_inode_locked e old_parent True True)) (\<lambda>_.
     sbind (smodify (touch_inode_locked e new_parent True True)) (\<lambda>_.
     sbind (smodify (touch_inode_locked e child False True)) (\<lambda>_.
     sbind (commit None ''rename'' (rename_details old_parent old_name new_parent new_name child [])) (\<lambda>_.
     sbind rebuild_quota_runtime_locked (\<lambda>_.
     smodify (finish_block_reclamation_locked e blocks_to_delete)))))))))))))"

definition rename_locked ::
  "commit \<Rightarrow> venv \<Rightarrow> inode_id \<Rightarrow> string \<Rightarrow> inode_id \<Rightarrow> string \<Rightarrow> rename_policy \<Rightarrow> unit vop" where
  "rename_locked commit e old_parent old_name new_parent new_name policy =
     sbind (sread (\<lambda>_. validate_entry_name old_name)) (\<lambda>_.
     sbind (sread (\<lambda>_. validate_entry_name new_name)) (\<lambda>_.
     if po_no_replace policy \<and> po_exchange policy then sthrow Invalid
     else if old_parent = new_parent \<and> old_name = new_name \<and> \<not> po_exchange policy then sret ()
     else
       sbind (sread (\<lambda>v. dir_inode_locked (v_meta v) old_parent)) (\<lambda>inode.
       sbind (sread (\<lambda>_. ok_or NotFound (map_of (i_entries inode) old_name))) (\<lambda>child.
       sbind (sread (\<lambda>v. get_inode (v_meta v) child)) (\<lambda>child_inode.
       sbind (sread (\<lambda>v. dir_inode_locked (v_meta v) new_parent)) (\<lambda>_.
       sbind (sread (\<lambda>v. check_sticky_locked (v_meta v) old_parent child (po_uid policy))) (\<lambda>_.
       sbind (sread (\<lambda>v. not_into_itself (v_meta v) child_inode child new_parent)) (\<lambda>_.
       sbind (sread (\<lambda>v. dir_inode_locked (v_meta v) new_parent)) (\<lambda>target_inode.
       let existing = map_of (i_entries target_inode) new_name
       in
       if po_no_replace policy \<and> existing \<noteq> None then sthrow AlreadyExists
       else if existing = Some child \<and> \<not> po_exchange policy then sret ()
       else
         sbind (sread ensure_block_backend_writable_locked) (\<lambda>_.
         if po_exchange policy
         then rename_exchange commit e old_parent old_name new_parent new_name (po_uid policy) child child_inode existing
         else rename_move commit e old_parent old_name new_parent new_name (po_uid policy)
                (po_preserve_replaced_inode policy) child child_inode existing)))))))))) "

section \<open>The public operations\<close>

text \<open>The parent of a path, found by name, and the last component as an entry name.\<close>

definition parent_of_path :: "venv \<Rightarrow> string \<Rightarrow> (inode_id \<times> string) vop" where
  "parent_of_path e path =
     sbind (sread (\<lambda>_. parent_name path)) (\<lambda>(parent, name).
     sbind (sread (\<lambda>_. entry_name_from_str (ve_hex e) name)) (\<lambda>name.
     sbind (sread (resolve_path e parent True)) (\<lambda>parent_ino.
     sret (parent_ino, name))))"

definition mkdir :: "commit \<Rightarrow> venv \<Rightarrow> string \<Rightarrow> 32 word \<Rightarrow> inode_id vop" where
  "mkdir commit e path mode =
     sbind (parent_of_path e path) (\<lambda>(parent, name). mkdir_locked commit e parent name mode (ve_uid e) (ve_gid e))"

definition mkdir_at_with_owner :: "commit \<Rightarrow> venv \<Rightarrow> inode_id \<Rightarrow> 8 word list \<Rightarrow> 32 word \<Rightarrow> 32 word \<Rightarrow> 32 word \<Rightarrow> node_attr vop" where
  "mkdir_at_with_owner commit e parent os_name mode uid gid =
     sbind (sread (\<lambda>_. entry_name_from_os (ve_hex e) os_name)) (\<lambda>name.
     sbind (mkdir_locked commit e parent name mode uid gid) (\<lambda>ino. sread (attr_inode ino)))"

definition mkdir_at :: "commit \<Rightarrow> venv \<Rightarrow> inode_id \<Rightarrow> 8 word list \<Rightarrow> 32 word \<Rightarrow> node_attr vop" where
  "mkdir_at commit e parent os_name mode = mkdir_at_with_owner commit e parent os_name mode (ve_uid e) (ve_gid e)"

definition mknod_path :: "commit \<Rightarrow> venv \<Rightarrow> string \<Rightarrow> 32 word \<Rightarrow> nat \<Rightarrow> inode_id vop" where
  "mknod_path commit e path mode rdev =
     sbind (parent_of_path e path) (\<lambda>(parent, name). mknod_locked commit e parent name mode rdev (ve_uid e) (ve_gid e))"

definition mknod_at_with_owner ::
  "commit \<Rightarrow> venv \<Rightarrow> inode_id \<Rightarrow> 8 word list \<Rightarrow> 32 word \<Rightarrow> nat \<Rightarrow> 32 word \<Rightarrow> 32 word \<Rightarrow> node_attr vop" where
  "mknod_at_with_owner commit e parent os_name mode rdev uid gid =
     sbind (sread (\<lambda>_. entry_name_from_os (ve_hex e) os_name)) (\<lambda>name.
     sbind (mknod_locked commit e parent name mode rdev uid gid) (\<lambda>ino. sread (attr_inode ino)))"

definition mknod_at :: "commit \<Rightarrow> venv \<Rightarrow> inode_id \<Rightarrow> 8 word list \<Rightarrow> 32 word \<Rightarrow> nat \<Rightarrow> node_attr vop" where
  "mknod_at commit e parent os_name mode rdev = mknod_at_with_owner commit e parent os_name mode rdev (ve_uid e) (ve_gid e)"

definition create_file_path :: "commit \<Rightarrow> venv \<Rightarrow> string \<Rightarrow> 32 word \<Rightarrow> inode_id vop" where
  "create_file_path commit e path mode =
     sbind (parent_of_path e path) (\<lambda>(parent, name).
       mknod_locked commit e parent name (S_IFREG OR (mode AND 0xFFF)) 0 (ve_uid e) (ve_gid e))"

definition create_file_at_with_owner ::
  "commit \<Rightarrow> venv \<Rightarrow> inode_id \<Rightarrow> 8 word list \<Rightarrow> 32 word \<Rightarrow> 32 word \<Rightarrow> 32 word \<Rightarrow> node_attr vop" where
  "create_file_at_with_owner commit e parent os_name mode uid gid =
     sbind (sread (\<lambda>_. entry_name_from_os (ve_hex e) os_name)) (\<lambda>name.
     sbind (mknod_locked commit e parent name (S_IFREG OR (mode AND 0xFFF)) 0 uid gid) (\<lambda>ino. sread (attr_inode ino)))"

definition create_file_at :: "commit \<Rightarrow> venv \<Rightarrow> inode_id \<Rightarrow> 8 word list \<Rightarrow> 32 word \<Rightarrow> node_attr vop" where
  "create_file_at commit e parent os_name mode = create_file_at_with_owner commit e parent os_name mode (ve_uid e) (ve_gid e)"

definition symlink_at :: "commit \<Rightarrow> venv \<Rightarrow> inode_id \<Rightarrow> 8 word list \<Rightarrow> 8 word list \<Rightarrow> node_attr vop" where
  "symlink_at commit e parent os_name target = symlink_at_with_owner commit e parent os_name target (ve_uid e) (ve_gid e)"

definition symlink_path :: "commit \<Rightarrow> venv \<Rightarrow> string \<Rightarrow> string \<Rightarrow> unit vop" where
  "symlink_path commit e target link_name =
     sbind (sread (\<lambda>_. parent_name link_name)) (\<lambda>(parent, name).
     sbind (sread (resolve_path e parent True)) (\<lambda>parent_ino.
     sbind (symlink_at commit e parent_ino (str_bytes name) (str_bytes target)) (\<lambda>_. sret ())))"

definition unlink_path :: "commit \<Rightarrow> venv \<Rightarrow> string \<Rightarrow> unit vop" where
  "unlink_path commit e path =
     sbind (parent_of_path e path) (\<lambda>(parent, name). unlink_locked commit e parent name False (Some (ve_uid e)) False)"

definition rmdir_path :: "commit \<Rightarrow> venv \<Rightarrow> string \<Rightarrow> unit vop" where
  "rmdir_path commit e path =
     sbind (parent_of_path e path) (\<lambda>(parent, name). unlink_locked commit e parent name True (Some (ve_uid e)) False)"

definition unlink_at_as :: "commit \<Rightarrow> venv \<Rightarrow> inode_id \<Rightarrow> 8 word list \<Rightarrow> 32 word \<Rightarrow> unit vop" where
  "unlink_at_as commit e parent os_name uid =
     sbind (sread (\<lambda>_. entry_name_from_os (ve_hex e) os_name)) (\<lambda>name. unlink_locked commit e parent name False (Some uid) False)"

definition unlink_at :: "commit \<Rightarrow> venv \<Rightarrow> inode_id \<Rightarrow> 8 word list \<Rightarrow> unit vop" where
  "unlink_at commit e parent os_name = unlink_at_as commit e parent os_name (ve_uid e)"

definition unlink_at_as_preserving_open :: "commit \<Rightarrow> venv \<Rightarrow> inode_id \<Rightarrow> 8 word list \<Rightarrow> 32 word \<Rightarrow> unit vop" where
  "unlink_at_as_preserving_open commit e parent os_name uid =
     sbind (sread (\<lambda>_. entry_name_from_os (ve_hex e) os_name)) (\<lambda>name. unlink_locked commit e parent name False (Some uid) True)"

definition rmdir_at_as :: "commit \<Rightarrow> venv \<Rightarrow> inode_id \<Rightarrow> 8 word list \<Rightarrow> 32 word \<Rightarrow> unit vop" where
  "rmdir_at_as commit e parent os_name uid =
     sbind (sread (\<lambda>_. entry_name_from_os (ve_hex e) os_name)) (\<lambda>name. unlink_locked commit e parent name True (Some uid) False)"

definition rmdir_at :: "commit \<Rightarrow> venv \<Rightarrow> inode_id \<Rightarrow> 8 word list \<Rightarrow> unit vop" where
  "rmdir_at commit e parent os_name = rmdir_at_as commit e parent os_name (ve_uid e)"

definition default_policy :: rename_policy where
  "default_policy = \<lparr>po_no_replace = False, po_exchange = False, po_uid = None, po_preserve_replaced_inode = False\<rparr>"

definition rename_path :: "commit \<Rightarrow> venv \<Rightarrow> string \<Rightarrow> string \<Rightarrow> unit vop" where
  "rename_path commit e old_path new_path =
     sbind (sread (\<lambda>_. parent_name old_path)) (\<lambda>(old_parent, old_name).
     sbind (sread (\<lambda>_. parent_name new_path)) (\<lambda>(new_parent, new_name).
     sbind (sread (\<lambda>_. entry_name_from_str (ve_hex e) old_name)) (\<lambda>old_name.
     sbind (sread (\<lambda>_. entry_name_from_str (ve_hex e) new_name)) (\<lambda>new_name.
     sbind (sread (resolve_path e old_parent True)) (\<lambda>old_ino.
     sbind (sread (resolve_path e new_parent True)) (\<lambda>new_ino.
     rename_locked commit e old_ino old_name new_ino new_name (default_policy\<lparr>po_uid := Some (ve_uid e)\<rparr>)))))))"

definition rename_at_with_policy ::
  "commit \<Rightarrow> venv \<Rightarrow> inode_id \<Rightarrow> 8 word list \<Rightarrow> inode_id \<Rightarrow> 8 word list \<Rightarrow> rename_policy \<Rightarrow> unit vop" where
  "rename_at_with_policy commit e old_parent old_name new_parent new_name policy =
     sbind (sread (\<lambda>_. entry_name_from_os (ve_hex e) old_name)) (\<lambda>old_name.
     sbind (sread (\<lambda>_. entry_name_from_os (ve_hex e) new_name)) (\<lambda>new_name.
     rename_locked commit e old_parent old_name new_parent new_name policy))"

definition rename_at :: "commit \<Rightarrow> venv \<Rightarrow> inode_id \<Rightarrow> 8 word list \<Rightarrow> inode_id \<Rightarrow> 8 word list \<Rightarrow> unit vop" where
  "rename_at commit e old_parent old_name new_parent new_name =
     rename_at_with_policy commit e old_parent old_name new_parent new_name default_policy"

end
