(* ===== verification/Argos_Refine.thy ===== *)
theory Argos_Refine
  imports Argos_Namespace
begin

text \<open>
  The operations of \<open>Argos_Namespace\<close> implement the steps of \<open>Argos_Tree\<close>. A table of inodes is read as a
  namespace and a table of link counts; each change of the table an operation makes has a lemma on both;
  and every operation either stops before it has changed anything or brings a well-formed table in which
  one step was made to its commit.
\<close>

section \<open>The inode table as a namespace\<close>

definition ns_of :: "(inode_id, inode) btree \<Rightarrow> nspace" where
  "ns_of X = \<lparr>nk = (\<lambda>i. map_option i_kind (map_of X i)),
              lk = (\<lambda>(p, n). Option.bind (map_of X p) (\<lambda>inode. map_of (i_entries inode) n))\<rparr>"

definition nlinks :: "(inode_id, inode) btree \<Rightarrow> inode_id \<rightharpoonup> nat" where
  "nlinks X i = map_option (\<lambda>inode. unat (i_nlink inode)) (map_of X i)"

definition table_ok :: "(inode_id, inode) btree \<Rightarrow> bool" where
  "table_ok X \<longleftrightarrow> bt_ok X \<and> (\<forall>ino inode. map_of X ino = Some inode \<longrightarrow> i_id inode = ino \<and> bt_ok (i_entries inode))"

definition counts_ok :: "(inode_id, inode) btree \<Rightarrow> bool" where
  "counts_ok X \<longleftrightarrow> (\<forall>i c. nlinks X i = Some c \<longrightarrow> c = link_count (ns_of X) i)"

definition meta_ok :: "metadata \<Rightarrow> bool" where
  "meta_ok meta \<longleftrightarrow>
     table_ok (m_inodes meta) \<and> tree_ok ROOT_INO (ns_of (m_inodes meta)) \<and> counts_ok (m_inodes meta)
     \<and> (\<forall>i \<in> dom (map_of (m_inodes meta)). i < m_next_inode meta)"

lemma ns_of_simps:
  "nk (ns_of X) i = map_option i_kind (map_of X i)"
  "lk (ns_of X) (p, n) = Option.bind (map_of X p) (\<lambda>inode. map_of (i_entries inode) n)"
  "dom (nk (ns_of X)) = dom (map_of X)"
  by (auto simp: ns_of_def)

lemma is_dir_of: "is_dir (ns_of X) i \<longleftrightarrow> (\<exists>inode. map_of X i = Some inode \<and> i_kind inode = Directory)"
  by (auto simp: is_dir_def ns_of_simps)

named_theorems view

text \<open>Functions on inodes by what they leave alone.\<close>

definition keeps_tree :: "(inode \<Rightarrow> inode) \<Rightarrow> bool" where
  "keeps_tree f \<longleftrightarrow> (\<forall>x. i_kind (f x) = i_kind x \<and> i_entries (f x) = i_entries x)"

definition keeps_links :: "(inode \<Rightarrow> inode) \<Rightarrow> bool" where
  "keeps_links f \<longleftrightarrow> (\<forall>x. i_nlink (f x) = i_nlink x)"

definition keeps_shape :: "(inode \<Rightarrow> inode) \<Rightarrow> bool" where
  "keeps_shape f \<longleftrightarrow> (\<forall>x. i_id (f x) = i_id x \<and> (bt_ok (i_entries x) \<longrightarrow> bt_ok (i_entries (f x))))"

lemma keeps_set_entry [view]: "keeps_links (set_entry n c)" "keeps_shape (set_entry n c)"
  by (simp_all add: keeps_links_def keeps_shape_def set_entry_def)

lemma keeps_remove_entry [view]: "keeps_links (remove_entry n)" "keeps_shape (remove_entry n)"
  by (simp_all add: keeps_links_def keeps_shape_def remove_entry_def)

lemma keeps_link_changes [view]:
  "keeps_tree link_up" "keeps_tree link_down" "keeps_tree dir_link_down"
  "keeps_shape link_up" "keeps_shape link_down" "keeps_shape dir_link_down"
  by (simp_all add: keeps_tree_def keeps_shape_def link_up_def link_down_def dir_link_down_def)

lemma ns_update_keeps [view]: "keeps_tree f \<Longrightarrow> ns_of (bt_update p f X) = ns_of X"
  by (cases "map_of X p") (auto simp: ns_of_def bt_get_update fun_eq_iff keeps_tree_def)

lemma ns_update_set_entry [view]:
  "p \<in> dom (map_of X) \<Longrightarrow> ns_of (bt_update p (set_entry n c) X) = add_entry p n c (ns_of X)"
  by (auto simp: ns_of_def bt_get_update fun_eq_iff add_entry_def set_entry_def)

lemma ns_update_remove_entry [view]:
  "ns_of (bt_update p (remove_entry n) X) = (ns_of X)\<lparr>lk := (lk (ns_of X))((p, n) := None)\<rparr>"
  by (cases "map_of X p") (auto simp: ns_of_def bt_get_update fun_eq_iff remove_entry_def)

lemma ns_insert [view]:
  assumes "\<And>n. lk (ns_of X) (ino, n) = None" "i_entries inode = []"
  shows "ns_of (bt_insert ino inode X) = (ns_of X)\<lparr>nk := (nk (ns_of X))(ino \<mapsto> i_kind inode)\<rparr>"
  using assms by (auto simp: ns_of_def fun_eq_iff)

lemma ns_remove [view]:
  assumes "\<And>n. lk (ns_of X) (ino, n) = None"
  shows "ns_of (bt_remove ino X) = (ns_of X)\<lparr>nk := (nk (ns_of X))(ino := None)\<rparr>"
  using assms by (auto simp: ns_of_def fun_eq_iff)

lemma nlinks_update [view]: "keeps_links f \<Longrightarrow> nlinks (bt_update p f X) = nlinks X"
  by (cases "map_of X p") (auto simp: nlinks_def bt_get_update fun_eq_iff keeps_links_def)

lemma nlinks_insert [view]: "nlinks (bt_insert ino inode X) = (nlinks X)(ino \<mapsto> unat (i_nlink inode))"
  by (auto simp: nlinks_def fun_eq_iff)

lemma nlinks_remove [view]: "nlinks (bt_remove ino X) = (nlinks X)(ino := None)"
  by (auto simp: nlinks_def fun_eq_iff)

lemma nlinks_update_down [view]:
  "nlinks (bt_update p (\<lambda>x. (link_down x)\<lparr>i_ctime := t\<rparr>) X) = (nlinks X)(p := map_option (\<lambda>c. c - 1) (nlinks X p))"
proof -
  have "unat (if w = 0 then 0 else w - 1) = unat w - 1" for w :: "32 word"
    by (cases "w = 0") (simp_all add: unat_minus_one)
  then show ?thesis by (auto simp: nlinks_def bt_get_update fun_eq_iff link_down_def option.map_comp comp_def)
qed

lemma nlinks_update_dir_down [view]:
  "nlinks (bt_update p dir_link_down X) = (nlinks X)(p := map_option (\<lambda>c. max (c - 1) 2) (nlinks X p))"
proof -
  have "unat (max (if w = 0 then 0 else w - 1) 2) = max (unat w - 1) 2" for w :: "32 word"
    by (cases "w = 0") (auto simp: max_def word_le_nat_alt unat_minus_one)
  then show ?thesis
    by (auto simp: nlinks_def bt_get_update fun_eq_iff dir_link_down_def link_down_def option.map_comp comp_def)
qed

definition u32_up :: "nat \<Rightarrow> nat" where
  "u32_up c = (if c = 2 ^ 32 - 1 then c else c + 1)"

lemma unat_link_up: "unat (if w = - 1 then - 1 else w + 1) = u32_up (unat w)" for w :: "32 word"
proof -
  have top: "unat (- 1 :: 32 word) = 2 ^ 32 - 1" by (simp add: unsigned_minus_1_eq_mask mask_eq_exp_minus_1)
  show ?thesis
  proof (cases "w = - 1")
    case True
    then show ?thesis using top by (simp add: u32_up_def)
  next
    case False
    then have "unat w \<noteq> 2 ^ 32 - 1" using top by (metis word_unat_eq_iff)
    moreover have "unat w < 2 ^ 32" using unsigned_less [of w] by simp
    ultimately show ?thesis using False by (simp add: u32_up_def unat_word_ariths)
  qed
qed

lemma nlinks_update_up [view]:
  "nlinks (bt_update p link_up X) = (nlinks X)(p := map_option u32_up (nlinks X p))"
  "nlinks (bt_update p (\<lambda>x. (link_up x)\<lparr>i_ctime := t\<rparr>) X) = (nlinks X)(p := map_option u32_up (nlinks X p))"
  by (auto simp: nlinks_def bt_get_update fun_eq_iff link_up_def option.map_comp comp_def unat_link_up)

lemma table_ok_update [view]: "keeps_shape f \<Longrightarrow> table_ok X \<Longrightarrow> table_ok (bt_update p f X)"
  by (auto simp: table_ok_def bt_get_update keeps_shape_def split: if_splits)

lemma table_ok_insert [view]: "table_ok X \<Longrightarrow> i_id inode = ino \<Longrightarrow> i_entries inode = [] \<Longrightarrow> table_ok (bt_insert ino inode X)"
  by (auto simp: table_ok_def split: if_splits)

lemma table_ok_remove [view]: "table_ok X \<Longrightarrow> table_ok (bt_remove ino X)"
  by (auto simp: table_ok_def split: if_splits)

lemma dom_update [simp]: "dom (map_of (bt_update p f X)) = dom (map_of X)"
  by (auto simp: bt_get_update dom_def split: if_splits)

section \<open>Changes of a well-formed table\<close>

definition below_limit :: "(inode_id, inode) btree \<Rightarrow> bool" where
  "below_limit X \<longleftrightarrow> (\<forall>i c. nlinks X i = Some c \<longrightarrow> c < 2 ^ 32 - 1)"

definition table_inv :: "(inode_id, inode) btree \<Rightarrow> bool" where
  "table_inv X \<longleftrightarrow> table_ok X \<and> tree_ok ROOT_INO (ns_of X) \<and> counts_ok X"

lemma u32_up_below: "c < 2 ^ 32 - 1 \<Longrightarrow> u32_up c = c + 1"
  by (simp add: u32_up_def)

lemma nlinks_dom: "nlinks X i = Some c \<Longrightarrow> i \<in> dom (nk (ns_of X))"
  by (auto simp: nlinks_def ns_of_simps)

lemma table_inv_keep:
  assumes "keeps_tree f" "keeps_links f" "keeps_shape f" "table_inv X"
  shows "table_inv (bt_update p f X)"
  using assms by (simp add: table_inv_def counts_ok_def view)

lemma counts_okI:
  assumes "\<And>i c. nlinks Y i = Some c \<Longrightarrow> c = link_count N i" "ns_of Y = N"
  shows "counts_ok Y"
  using assms by (simp add: counts_ok_def)

lemma counts_okD: "counts_ok X \<Longrightarrow> map_of X i = Some inode \<Longrightarrow> unat (i_nlink inode) = link_count (ns_of X) i"
  by (simp add: counts_ok_def nlinks_def)

lemma table_create:
  assumes inv: "table_inv X" and lim: "below_limit X"
    and p: "map_of X p = Some parent" "i_kind parent = Directory" "map_of (i_entries parent) n = None"
    and c: "map_of X c = None" "i_id inode = c" "i_entries inode = []"
      "i_nlink inode = (if i_kind inode = Directory then 2 else 1)"
    and Y: "Y = bt_update p (set_entry n c) (bt_insert c inode X)"
    and Z: "Z = (if i_kind inode = Directory then bt_update p link_up Y else Y)"
  shows "table_inv Z \<and> ns_of Z = add_entry p n c ((ns_of X)\<lparr>nk := (nk (ns_of X))(c \<mapsto> i_kind inode)\<rparr>)"
proof -
  let ?N = "ns_of X" and ?k = "i_kind inode"
  let ?M = "?N\<lparr>nk := (nk ?N)(c \<mapsto> ?k)\<rparr>"
  have t: "tree_ok ROOT_INO ?N" and ok: "table_ok X" and cnt: "counts_ok X" using inv by (simp_all add: table_inv_def)
  have fresh: "c \<notin> dom (nk ?N)" using c(1) by (simp add: ns_of_simps dom_def)
  have pdir: "is_dir ?N p" and free: "lk ?N (p, n) = None" and pc: "p \<noteq> c"
    using p c(1) by (auto simp: is_dir_of ns_of_simps)
  have none: "lk ?N (c, m) = None" for m using c(1) by (simp add: ns_of_simps)
  have nsY: "ns_of Y = add_entry p n c ?M"
    using domI [of "map_of X", OF p(1)] none by (simp add: Y view c(3))
  then have nsZ: "ns_of Z = add_entry p n c ?M" by (simp add: Z view)
  have okZ: "table_ok Z" using ok c by (simp add: Z Y view)
  have fin: "finite (dom (lk ?M))" using tree_okD(1) [OF t] by simp
  have count: "link_count (add_entry p n c ?M) i = link_count ?M i + of_bool (counts ?M i (p, n) c)" for i
    by (rule link_count_add_entry [OF fin]) (use free in simp)
  have dirM: "is_dir ?M i \<longleftrightarrow> (if i = c then ?k = Directory else is_dir ?N i)" for i by (simp add: is_dir_def)
  have "counts_ok Z"
  proof (rule counts_okI [OF _ nsZ])
    fix i x assume "nlinks Z i = Some x"
    then have x: "((nlinks X)(c \<mapsto> unat (i_nlink inode),
        p := (if ?k = Directory then map_option u32_up (nlinks X p) else nlinks X p))) i = Some x"
      using pc by (auto simp: Z Y view split: if_splits)
    have at_c: "unat (i_nlink inode) = (if ?k = Directory then 2 else 1)" by (simp add: c(4))
    show "x = link_count (add_entry p n c ?M) i"
    proof (cases "i = c")
      case True
      then show ?thesis using x pc at_c link_count_new [OF t fresh, of ?k] by (auto simp: count counts_def dirM)
    next
      case False
      have same: "link_count ?M i = link_count ?N i" by (rule link_count_update_kind [OF links_fresh [OF t fresh] False])
      obtain y where y: "nlinks X i = Some y" "x = (if i = p \<and> ?k = Directory then u32_up y else y)"
        using x False by (auto split: if_splits)
      have "y = link_count ?N i" "y < 2 ^ 32 - 1" using y(1) cnt lim by (simp_all add: counts_ok_def below_limit_def)
      then show ?thesis using False pdir by (auto simp: y(2) count same counts_def is_dir_def u32_up_below)
    qed
  qed
  moreover have "tree_ok ROOT_INO (ns_of Z)" unfolding nsZ by (rule tree_ok_create [OF t pdir free fresh])
  ultimately show ?thesis using okZ nsZ by (simp add: table_inv_def)
qed

lemma table_link:
  assumes inv: "table_inv X" and lim: "below_limit X"
    and p: "map_of X p = Some parent" "i_kind parent = Directory" "map_of (i_entries parent) n = None"
    and c: "map_of X c = Some inode" "i_kind inode \<noteq> Directory"
    and Z: "Z = bt_update c (\<lambda>x. (link_up x)\<lparr>i_ctime := t\<rparr>) (bt_update p (set_entry n c) X)"
  shows "table_inv Z \<and> ns_of Z = add_entry p n c (ns_of X)"
proof -
  let ?N = "ns_of X"
  have t: "tree_ok ROOT_INO ?N" and ok: "table_ok X" and cnt: "counts_ok X" using inv by (simp_all add: table_inv_def)
  have keep: "keeps_tree (\<lambda>x. (link_up x)\<lparr>i_ctime := t\<rparr>)" "keeps_shape (\<lambda>x. (link_up x)\<lparr>i_ctime := t\<rparr>)"
    by (simp_all add: keeps_tree_def keeps_shape_def link_up_def)
  have facts: "is_dir ?N p" "lk ?N (p, n) = None" "c \<in> dom (nk ?N)" "\<not> is_dir ?N c"
    using p c by (auto simp: is_dir_of ns_of_simps)
  have nsZ: "ns_of Z = add_entry p n c ?N" using domI [of "map_of X", OF p(1)] keep by (simp add: Z view)
  have "counts_ok Z"
  proof (rule counts_okI [OF _ nsZ])
    fix i x assume "nlinks Z i = Some x"
    then obtain y where y: "nlinks X i = Some y" "x = (if i = c then u32_up y else y)"
      by (auto simp: Z view split: if_splits)
    have "y = link_count ?N i" "y < 2 ^ 32 - 1" using y(1) cnt lim by (simp_all add: counts_ok_def below_limit_def)
    then show "x = link_count (add_entry p n c ?N) i"
      using facts(4) by (auto simp: y(2) link_count_add_entry [OF tree_okD(1) [OF t] facts(2)] counts_def u32_up_below)
  qed
  moreover have "table_ok Z" using ok keep by (simp add: Z view)
  moreover have "tree_ok ROOT_INO (ns_of Z)" unfolding nsZ by (rule tree_ok_link [OF t facts])
  ultimately show ?thesis using nsZ by (simp add: table_inv_def)
qed

lemma table_drop_dir:
  assumes inv: "table_inv X"
    and p: "map_of X p = Some parent" "i_kind parent = Directory" "map_of (i_entries parent) n = Some c"
    and c: "map_of X c = Some inode" "i_kind inode = Directory" "i_entries inode = []"
    and ok: "table_ok Z" and ns: "ns_of Z = (ns_of X)\<lparr>lk := (lk (ns_of X))((p, n) := None), nk := (nk (ns_of X))(c := None)\<rparr>"
    and nl: "nlinks Z = ((nlinks X)(p := map_option (\<lambda>c. max (c - 1) 2) (nlinks X p)))(c := None)"
  shows "table_inv Z \<and> ns_of Z = drop_entry p n keep (ns_of X)"
proof -
  let ?N = "ns_of X"
  let ?M = "?N\<lparr>lk := (lk ?N)((p, n) := None)\<rparr>"
  have t: "tree_ok ROOT_INO ?N" and cnt: "counts_ok X" using inv by (simp_all add: table_inv_def)
  have facts: "is_dir ?N p" "lk ?N (p, n) = Some c" "is_dir ?N c" "empty_dir ?N c"
    using p c by (auto simp: is_dir_of ns_of_simps empty_dir_def)
  have ns': "ns_of Z = drop_entry p n keep ?N" using facts by (simp add: ns drop_entry_def)
  have unlinked: "links ?M c = {}" using tree_okD(6) [OF t facts(3) facts(2)] by (auto simp: links_def)
  note fin = tree_okD(1) [OF t]
  have "counts_ok Z"
  proof (rule counts_okI [OF _ ns])
    fix i x assume "nlinks Z i = Some x"
    then obtain y where i: "i \<noteq> c" and y: "nlinks X i = Some y" "x = (if i = p then max (y - 1) 2 else y)"
      by (auto simp: nl split: if_splits)
    have "y = link_count ?N i" using y(1) cnt by (simp add: counts_ok_def)
    moreover have "link_count ?N i = link_count (?M\<lparr>nk := (nk ?M)(c := None)\<rparr>) i + of_bool (counts ?N i (p, n) c)"
      using link_count_remove_entry [OF fin facts(2), of i] link_count_update_kind [OF unlinked i, of None] by simp
    moreover have "counts ?N i (p, n) c \<longleftrightarrow> i = p" using facts(1,3) i by (auto simp: counts_def)
    ultimately show "x = link_count (?N\<lparr>lk := (lk ?N)((p, n) := None), nk := (nk ?N)(c := None)\<rparr>) i"
      using y(2) link_count_of_parent [OF fin facts(2,1,3)] by auto
  qed
  moreover have "tree_ok ROOT_INO (ns_of Z)" unfolding ns' by (rule tree_ok_drop [OF t facts(2)]) (use facts in blast)
  ultimately show ?thesis using ok ns' by (simp add: table_inv_def)
qed

text \<open>The inode is removed exactly if its count says that this was its last entry.\<close>

lemma last_link:
  assumes "table_inv X" "map_of X p = Some parent" "map_of (i_entries parent) n = Some c"
    and "map_of X c = Some inode" "i_kind inode \<noteq> Directory"
  shows "unat (i_nlink inode) - 1 = 0 \<longleftrightarrow> links (ns_of X) c = {(p, n)}"
proof -
  have t: "tree_ok ROOT_INO (ns_of X)" and "counts_ok X" using assms(1) by (simp_all add: table_inv_def)
  then have "unat (i_nlink inode) = card (links (ns_of X) c)"
    using counts_okD [OF _ assms(4)] assms(4,5) by (simp add: link_count_def is_dir_of)
  moreover have "(p, n) \<in> links (ns_of X) c" using assms(2,3) by (simp add: links_def ns_of_simps)
  moreover have "finite (links (ns_of X) c)" by (rule finite_links [OF tree_okD(1) [OF t]])
  ultimately show ?thesis by (auto simp: card_le_Suc0_iff_eq)
qed

lemma table_drop_file:
  assumes inv: "table_inv X"
    and p: "map_of X p = Some parent" "i_kind parent = Directory" "map_of (i_entries parent) n = Some c"
    and c: "map_of X c = Some inode" "i_kind inode \<noteq> Directory"
    and gone: "gone \<longleftrightarrow> unat (i_nlink inode) - 1 = 0 \<and> \<not> keep"
    and ok: "table_ok Z"
    and ns: "ns_of Z = (ns_of X)\<lparr>lk := (lk (ns_of X))((p, n) := None), nk := (if gone then (nk (ns_of X))(c := None) else nk (ns_of X))\<rparr>"
    and nl: "nlinks Z = (nlinks X)(c := (if gone then None else map_option (\<lambda>c. c - 1) (nlinks X c)))"
  shows "table_inv Z \<and> ns_of Z = drop_entry p n keep (ns_of X)"
proof -
  let ?N = "ns_of X"
  let ?M = "?N\<lparr>lk := (lk ?N)((p, n) := None)\<rparr>"
  have t: "tree_ok ROOT_INO ?N" and cnt: "counts_ok X" using inv by (simp_all add: table_inv_def)
  have facts: "is_dir ?N p" "lk ?N (p, n) = Some c" "\<not> is_dir ?N c"
    using p c by (auto simp: is_dir_of ns_of_simps)
  have g: "gone \<longleftrightarrow> links ?N c = {(p, n)} \<and> \<not> keep" unfolding gone last_link [OF inv p(1,3) c] ..
  have ns': "ns_of Z = drop_entry p n keep ?N" using facts by (auto simp: ns drop_entry_def g)
  have unlinked: "links ?M c = {}" if gone using that by (auto simp: g links_def)
  note fin = tree_okD(1) [OF t]
  have "counts_ok Z"
  proof (rule counts_okI [OF _ ns])
    fix i x assume "nlinks Z i = Some x"
    then obtain y where y: "nlinks X i = Some y" "x = (if i = c then y - 1 else y)" and i: "gone \<Longrightarrow> i \<noteq> c"
      by (auto simp: nl split: if_splits)
    let ?Q = "?N\<lparr>lk := (lk ?N)((p, n) := None), nk := (if gone then (nk ?N)(c := None) else nk ?N)\<rparr>"
    have "y = link_count ?N i" using y(1) cnt by (simp add: counts_ok_def)
    moreover have "link_count ?Q i = link_count ?M i"
      using link_count_update_kind [OF unlinked i, of None] by (cases gone) simp_all
    moreover have "counts ?N i (p, n) c \<longleftrightarrow> i = c" using facts by (auto simp: counts_def)
    ultimately show "x = link_count ?Q i" using y(2) link_count_remove_entry [OF fin facts(2), of i] by auto
  qed
  moreover have "tree_ok ROOT_INO (ns_of Z)" unfolding ns' by (rule tree_ok_drop [OF t facts(2)]) (use facts in blast)
  ultimately show ?thesis using ok ns' by (simp add: table_inv_def)
qed

lemma table_reap:
  assumes inv: "table_inv X" and c: "map_of X c = Some inode" "i_nlink inode = 0"
  shows "table_inv (bt_remove c X) \<and> ns_step ROOT_INO (Reaped c) (ns_of X) (ns_of (bt_remove c X))"
proof -
  let ?N = "ns_of X"
  have t: "tree_ok ROOT_INO ?N" and cnt: "counts_ok X" and ok: "table_ok X" using inv by (simp_all add: table_inv_def)
  have "link_count ?N c = 0" using counts_okD [OF cnt c(1)] c(2) by simp
  then have facts: "\<not> is_dir ?N c" "links ?N c = {}"
    using finite_links [OF tree_okD(1) [OF t], of c] by (auto simp: link_count_def split: if_splits)
  have ns: "ns_of (bt_remove c X) = ?N\<lparr>nk := (nk ?N)(c := None)\<rparr>"
    using no_entries_in_nondir [OF t facts(1)] by (simp add: view)
  have "counts_ok (bt_remove c X)"
    by (rule counts_okI [OF _ ns])
      (use cnt in \<open>auto simp: view counts_ok_def link_count_update_kind [OF facts(2)] split: if_splits\<close>)
  then show ?thesis
    using tree_ok_reap [OF t facts] ok ns ns_step.reap [OF facts] by (simp add: table_inv_def view)
qed

lemma drop_below_limit:
  assumes "below_limit X" "\<And>i c. nlinks Z i = Some c \<Longrightarrow> \<exists>y. nlinks X i = Some y \<and> (c \<le> y \<or> c \<le> 2)"
  shows "below_limit Z"
  using assms unfolding below_limit_def by (fastforce dest: assms(2))

lemma table_move:
  assumes inv: "table_inv X" and lim: "below_limit X"
    and l: "lk (ns_of X) (p, n) = Some c" "lk (ns_of X) (q, m) = None" "is_dir (ns_of X) q" "\<not> below_or_self (ns_of X) c q"
    and ok: "table_ok Z" and ns: "ns_of Z = move_entry p n q m c (ns_of X)"
    and nl: "nlinks Z = (if is_dir (ns_of X) c \<and> p \<noteq> q
      then (nlinks X)(p := map_option (\<lambda>c. max (c - 1) 2) (nlinks X p), q := map_option u32_up (nlinks X q)) else nlinks X)"
  shows "table_inv Z"
proof -
  let ?N = "ns_of X"
  have t: "tree_ok ROOT_INO ?N" and cnt: "counts_ok X" using inv by (simp_all add: table_inv_def)
  note fin = tree_okD(1) [OF t] and p = tree_okD(3) [OF t l(1)]
  have "counts_ok Z"
  proof (rule counts_okI [OF _ ns])
    fix i x assume x: "nlinks Z i = Some x"
    then obtain y where y: "nlinks X i = Some y" by (auto simp: nl split: if_splits)
    have count: "y = link_count ?N i" "y < 2 ^ 32 - 1" using y cnt lim by (simp_all add: counts_ok_def below_limit_def)
    note move = link_count_move [OF fin l(1,2), of i]
    show "x = link_count (move_entry p n q m c ?N) i"
    proof (cases "is_dir ?N c \<and> p \<noteq> q")
      case True
      have "3 \<le> link_count ?N p" by (rule link_count_of_parent [OF fin l(1) p]) (use True in blast)
      moreover have "\<not> is_dir ?N i \<Longrightarrow> c \<noteq> i" using True by blast
      ultimately show ?thesis using x y True count move p l(3) by (auto simp: nl counts_def u32_up_below split: if_splits)
    next
      case False
      then have "counts ?N i (p, n) c = counts ?N i (q, m) c" by (auto simp: counts_def)
      then show ?thesis using x y count move False by (simp add: nl split: if_splits)
    qed
  qed
  moreover have "tree_ok ROOT_INO (ns_of Z)" unfolding ns by (rule tree_ok_move_free [OF t l(1,3,2,4)])
  ultimately show ?thesis using ok by (simp add: table_inv_def)
qed

lemma table_exchange:
  assumes inv: "table_inv X" and lim: "below_limit X"
    and l: "lk (ns_of X) (p, n) = Some c" "lk (ns_of X) (q, m) = Some d"
      "\<not> below_or_self (ns_of X) c q" "\<not> below_or_self (ns_of X) d p"
    and ok: "table_ok Z" and ns: "ns_of Z = (ns_of X)\<lparr>lk := (lk (ns_of X))((p, n) \<mapsto> d, (q, m) \<mapsto> c)\<rparr>"
    and nl: "\<And>i. i \<noteq> p \<Longrightarrow> i \<noteq> q \<or> p = q \<Longrightarrow> nlinks Z i = nlinks X i" "p = q \<Longrightarrow> nlinks Z = nlinks X"
    and nlp: "p \<noteq> q \<Longrightarrow> nlinks Z p = map_option (\<lambda>x. let y = (if is_dir (ns_of X) c then max (x - 1) 2 else x) in if is_dir (ns_of X) d then u32_up y else y) (nlinks X p)"
    and nlq: "p \<noteq> q \<Longrightarrow> nlinks Z q = map_option (\<lambda>x. let y = (if is_dir (ns_of X) c then u32_up x else x) in if is_dir (ns_of X) d then max (y - 1) 2 else y) (nlinks X q)"
  shows "table_inv Z"
proof -
  let ?N = "ns_of X"
  have t: "tree_ok ROOT_INO ?N" and cnt: "counts_ok X" using inv by (simp_all add: table_inv_def)
  note fin = tree_okD(1) [OF t] and p = tree_okD(3) [OF t l(1)] and q = tree_okD(3) [OF t l(2)]
  have "counts_ok Z"
  proof (rule counts_okI [OF _ ns])
    fix i x assume x: "nlinks Z i = Some x"
    have "nlinks Z i = None" if "nlinks X i = None"
      using that nl(1) [of i] nl(2) nlp nlq by (cases "p = q"; cases "i = p"; cases "i = q") simp_all
    with x obtain y where y: "nlinks X i = Some y" by fastforce
    have count: "y = link_count ?N i" "y < 2 ^ 32 - 1" using y cnt lim by (simp_all add: counts_ok_def below_limit_def)
    note move = link_count_exchange [OF fin l(1,2), of i]
    have c3: "is_dir ?N c \<Longrightarrow> 3 \<le> link_count ?N p" and d3: "is_dir ?N d \<Longrightarrow> 3 \<le> link_count ?N q"
      using link_count_of_parent [OF fin l(1) p] link_count_of_parent [OF fin l(2) q] by blast+
    consider "p = q" | "p \<noteq> q" "i = p" | "p \<noteq> q" "i = q" | "p \<noteq> q" "i \<noteq> p" "i \<noteq> q" by blast
    then show "x = link_count (?N\<lparr>lk := (lk ?N)((p, n) \<mapsto> d, (q, m) \<mapsto> c)\<rparr>) i"
    proof cases
      case 1
      then have "counts ?N i (p, n) x = counts ?N i (q, m) x" for x by (simp add: counts_def)
      then show ?thesis using move x y count nl(2) [OF 1] by simp
    next
      case 2
      then show ?thesis using move x y count c3 nlp p by (auto simp: counts_def u32_up_below Let_def split: if_splits)
    next
      case 3
      then show ?thesis using move x y count d3 nlq q by (auto simp: counts_def u32_up_below Let_def split: if_splits)
    next
      case 4
      then have "counts ?N i (p, n) x = counts ?N i (q, m) x" for x by (simp add: counts_def)
      then show ?thesis using move x y count nl(1) [of i] 4 by simp
    qed
  qed
  moreover have "tree_ok ROOT_INO (ns_of Z)" unfolding ns by (rule tree_ok_exchange [OF t l])
  ultimately show ?thesis using ok by (simp add: table_inv_def)
qed

section \<open>The walk that looks for a directory below another\<close>

lemma tree_edges_of:
  assumes "table_ok X" "map_of X a = Some inode"
  shows "tree_edges (ns_of X) `` {a} = set (bt_values (i_entries inode))"
proof -
  have "bt_ok (i_entries inode)" using assms by (simp add: table_ok_def)
  then show ?thesis
    using assms(2) by (force simp: tree_edges_def ns_of_simps bt_get_in_set)
qed

lemma tree_edges_outside: "map_of X a = None \<or> (\<exists>inode. map_of X a = Some inode \<and> i_entries inode = []) \<Longrightarrow> tree_edges (ns_of X) `` {a} = {}"
  by (auto simp: tree_edges_def ns_of_simps)

lemma reach_finite:
  assumes "tree_ok rt N" "finite (dom (nk N))"
  shows "finite ((tree_edges N)\<^sup>* `` {a})" "(tree_edges N)\<^sup>* `` {a} \<subseteq> insert a (dom (nk N))"
proof -
  show sub: "(tree_edges N)\<^sup>* `` {a} \<subseteq> insert a (dom (nk N))"
  proof
    fix x assume "x \<in> (tree_edges N)\<^sup>* `` {a}"
    then have "(a, x) \<in> (tree_edges N)\<^sup>*" by simp
    then show "x \<in> insert a (dom (nk N))"
      by (cases rule: rtranclE) (auto simp: tree_edges_def dest: tree_okD(4) [OF assms(1)])
  qed
  show "finite ((tree_edges N)\<^sup>* `` {a})" by (rule finite_subset [OF sub]) (simp add: assms(2))
qed

lemma reach_shrinks:
  assumes t: "tree_ok rt N" and fin: "finite (dom (nk N))" and e: "(a, c) \<in> tree_edges N"
  shows "card ((tree_edges N)\<^sup>* `` {c}) < card ((tree_edges N)\<^sup>* `` {a})"
proof (rule psubset_card_mono [OF reach_finite(1) [OF t fin]])
  obtain n where n: "lk N (a, n) = Some c" using e by (auto simp: tree_edges_def)
  have "a \<notin> (tree_edges N)\<^sup>* `` {c}" using not_below_holder [OF t n] by simp
  moreover have "(tree_edges N)\<^sup>* `` {c} \<subseteq> (tree_edges N)\<^sup>* `` {a}"
    using e by (auto intro: converse_rtrancl_into_rtrancl)
  ultimately show "(tree_edges N)\<^sup>* `` {c} \<subset> (tree_edges N)\<^sup>* `` {a}" by blast
qed

lemma any_contains_eq:
  assumes "\<And>c. c \<in> set cs \<Longrightarrow> contains_within depth meta c b = Some (P c)"
  shows "any_contains depth meta cs b = Some (\<exists>c \<in> set cs. P c)"
  using assms by (induction cs) (auto split: bool.split)

lemma contains_within_eq:
  assumes inv: "table_inv (m_inodes meta)"
  defines "E \<equiv> tree_edges (ns_of (m_inodes meta))"
  shows "card (E\<^sup>* `` {a}) \<le> depth \<Longrightarrow> contains_within depth meta a b = Some ((a, b) \<in> E\<^sup>*)"
proof (induction depth arbitrary: a)
  have t: "tree_ok ROOT_INO (ns_of (m_inodes meta))" and ok: "table_ok (m_inodes meta)" using inv by (simp_all add: table_inv_def)
  have fin: "finite (dom (nk (ns_of (m_inodes meta))))" by (simp add: ns_of_simps finite_dom_map_of)
  {
    case 0
    have "a \<in> E\<^sup>* `` {a}" by simp
    moreover have "E\<^sup>* `` {a} = {}" using 0 reach_finite(1) [OF t fin, of a] by (simp add: E_def)
    ultimately show ?case by blast
  next
    case (Suc depth)
    have step: "(a, b) \<in> E\<^sup>* \<longleftrightarrow> a = b \<or> (\<exists>c \<in> E `` {a}. (c, b) \<in> E\<^sup>*)"
      by (auto elim: converse_rtranclE intro: converse_rtrancl_into_rtrancl)
    show ?case
    proof (cases "map_of (m_inodes meta) a")
      case None
      then have "E `` {a} = {}" unfolding E_def by (intro tree_edges_outside) simp
      then show ?thesis using None step by simp
    next
      case (Some inode)
      show ?thesis
      proof (cases "i_kind inode = Directory")
        case True
        have sub: "contains_within depth meta c b = Some ((c, b) \<in> E\<^sup>*)" if "c \<in> E `` {a}" for c
        proof (rule Suc.IH)
          have "card (E\<^sup>* `` {c}) < card (E\<^sup>* `` {a})" using reach_shrinks [OF t fin] that by (simp add: E_def)
          then show "card (E\<^sup>* `` {c}) \<le> depth" using Suc.prems by simp
        qed
        have "E `` {a} = set (bt_values (i_entries inode))" unfolding E_def by (rule tree_edges_of [OF ok Some])
        then have "any_contains depth meta (bt_values (i_entries inode)) b = Some (\<exists>c \<in> E `` {a}. (c, b) \<in> E\<^sup>*)"
          using any_contains_eq [of "bt_values (i_entries inode)"] sub by simp
        then show ?thesis using Some True step by simp
      next
        case False
        then have "\<not> is_dir (ns_of (m_inodes meta)) a" using Some by (simp add: is_dir_of)
        then have "E `` {a} = {}" using no_entries_in_nondir [OF t] by (auto simp: E_def tree_edges_def)
        then show ?thesis using Some False step by simp
      qed
    qed
  }
qed

lemma directory_contains_inode_eq:
  assumes inv: "table_inv (m_inodes meta)"
  shows "directory_contains_inode meta a b = Some ((a, b) \<in> (tree_edges (ns_of (m_inodes meta)))\<^sup>*)"
  unfolding directory_contains_inode_def
proof (rule contains_within_eq [OF inv])
  let ?R = "(tree_edges (ns_of (m_inodes meta)))\<^sup>* `` {a}" and ?D = "dom (nk (ns_of (m_inodes meta)))"
  have t: "tree_ok ROOT_INO (ns_of (m_inodes meta))" using inv by (simp add: table_inv_def)
  have fin: "finite ?D" by (simp add: ns_of_simps finite_dom_map_of)
  have "card ?R \<le> card (insert a ?D)" by (rule card_mono) (use fin reach_finite(2) [OF t fin] in auto)
  also have "\<dots> \<le> Suc (card ?D)" by (rule card_insert_le_m1) simp_all
  also have "card ?D \<le> length (m_inodes meta)"
    using card_length [of "map fst (m_inodes meta)"] by (simp add: ns_of_simps dom_map_of_conv_image_fst)
  finally show "card ?R \<le> walk_depth meta" by (simp add: walk_depth_def)
qed

lemma not_into_itself_eq:
  assumes inv: "table_inv (m_inodes meta)" and c: "map_of (m_inodes meta) c = Some inode"
  shows "not_into_itself meta inode c q = (if below_or_self (ns_of (m_inodes meta)) c q then Inl Invalid else Inr ())"
  using c by (simp add: not_into_itself_def below_or_self_def directory_contains_inode_eq [OF inv] is_dir_of)

end
