(* ===== verification/Argos_Atomic.thy ===== *)
theory Argos_Atomic
  imports Argos_Refine
begin

text \<open>
  Every operation on the namespace is atomic around its commit: it stops with the volume as it was, or it
  hands a well-formed volume to the commit in which exactly one step of \<open>Argos_Tree\<close> was made, and what it
  does after a successful commit neither fails nor changes the namespace. This holds whatever the commit is.
\<close>

section \<open>What an operation may do around its commit\<close>

definition tab :: "volume \<Rightarrow> (inode_id, inode) btree \<times> inode_id" where
  "tab v = (m_inodes (v_meta v), m_next_inode (v_meta v))"

definition base :: "volume \<Rightarrow> meta_store \<times> backend_kind \<times> metadata_integrity \<times> nat \<times> string \<times> volume_config" where
  "base v = (v_store v, m_backend (v_meta v), m_integrity (v_meta v), m_txid (v_meta v), m_format (v_meta v), m_config (v_meta v))"

definition vns :: "volume \<Rightarrow> nspace" where
  "vns v = ns_of (m_inodes (v_meta v))"

definition staged :: "volume \<Rightarrow> ns_change set \<Rightarrow> volume \<Rightarrow> bool" where
  "staged v C w \<longleftrightarrow> meta_ok (v_meta w) \<and> base w = base v \<and> (\<exists>change \<in> C. ns_step ROOT_INO change (vns v) (vns w))"

definition harmless :: "volume \<Rightarrow> (argos_error \<Rightarrow> volume \<Rightarrow> volume) \<Rightarrow> bool" where
  "harmless v h \<longleftrightarrow> (\<forall>err w. h err w = w \<or> \<not> transaction_error_is_committed err \<and> h err w = w\<lparr>v_meta := v_meta v\<rparr>)"

definition tidy :: "('a \<Rightarrow> bool) \<Rightarrow> volume \<Rightarrow> (unit \<Rightarrow> 'a vop) \<Rightarrow> bool" where
  "tidy R v k \<longleftrightarrow> (\<forall>w. tab w = tab v \<longrightarrow> (\<exists>w' y. k () w = (w', Inr y) \<and> R y \<and> tab w' = tab w \<and> base w' = base w))"

text \<open>\<open>leads R v F w C\<close>: \<open>F\<close>, which is at \<open>w\<close> after it was started at \<open>v\<close>, commits one of the changes \<open>C\<close>, if any, and the
  value it returns satisfies \<open>R\<close>.\<close>

definition leads :: "('a \<Rightarrow> bool) \<Rightarrow> volume \<Rightarrow> (commit \<Rightarrow> 'a vop) \<Rightarrow> volume \<Rightarrow> ns_change set \<Rightarrow> bool" where
  "leads R v F w C \<longleftrightarrow> (\<forall>commit.
     (\<exists>err. F commit w = (v, Inl err)) \<or> (\<exists>x. F commit w = (v, Inr x) \<and> R x \<and> Unchanged \<in> C)
     \<or> (\<exists>v1 p a d h k. staged v C v1 \<and> harmless v h \<and> tidy R v1 k \<and> F commit w = sbind (son_error (commit p a d) h) k v1))"

abbreviation anyhow :: "'a \<Rightarrow> bool" where "anyhow \<equiv> \<lambda>_. True"

named_theorems run

lemma leads_throw [run]: "leads R v (\<lambda>commit. sthrow err) v C"
  by (simp add: leads_def sthrow_def)

lemma leads_ret [run]: "Unchanged \<in> C \<Longrightarrow> R x \<Longrightarrow> leads R v (\<lambda>commit. sret x) v C"
  by (simp add: leads_def sret_def)

lemma leads_check [run]:
  assumes "\<And>x. g v = Inr x \<Longrightarrow> leads R v (F x) v C"
  shows "leads R v (\<lambda>commit. sbind (sread g) (\<lambda>x. F x commit)) v C"
proof (cases "g v")
  case (Inr x)
  then show ?thesis using assms [OF Inr] by (simp add: leads_def sbind_def sread_def)
qed (simp add: leads_def sbind_def sread_def)

lemma leads_if [run]:
  "(b \<Longrightarrow> leads R v F w C) \<Longrightarrow> (\<not> b \<Longrightarrow> leads R v G w C) \<Longrightarrow> leads R v (\<lambda>commit. if b then F commit else G commit) w C"
  by (cases b) simp_all

lemma leads_read [run]:
  assumes "g w = Inr x" "leads R v (F x) w C"
  shows "leads R v (\<lambda>commit. sbind (sread g) (\<lambda>x. F x commit)) w C"
  using assms by (simp add: leads_def sbind_def sread_def)

lemma leads_modify [run]: "leads R v F (g w) C \<Longrightarrow> leads R v (\<lambda>commit. sbind (smodify g) (\<lambda>_. F commit)) w C"
  by (simp add: leads_def sbind_def smodify_def)

lemma leads_run:
  assumes "c w = (w', Inr x)" "leads R v (F x) w' C"
  shows "leads R v (\<lambda>commit. sbind c (\<lambda>x. F x commit)) w C"
  using assms by (simp add: leads_def sbind_def)

lemma leads_guarded_commit:
  assumes "staged v C w" "harmless v h" "tidy R w k"
  shows "leads R v (\<lambda>commit. sbind (son_error (commit p a d) h) k) w C"
  using assms unfolding leads_def by blast

lemma son_error_id: "son_error c (\<lambda>_ w. w) = c"
  by (auto simp: son_error_def fun_eq_iff split: prod.split sum.split)

lemma leads_commit [run]:
  assumes "staged v C w" "tidy R w k"
  shows "leads R v (\<lambda>commit. sbind (commit p a d) k) w C"
  using leads_guarded_commit [OF assms(1) _ assms(2), of "\<lambda>_ w. w" p a d] by (simp add: son_error_id harmless_def)

section \<open>After the commit\<close>

lemma tidyI:
  assumes "\<And>w. tab w = tab v \<Longrightarrow> \<exists>w' y. k () w = (w', Inr y) \<and> R y \<and> tab w' = tab w \<and> base w' = base w"
  shows "tidy R v k"
  using assms by (simp add: tidy_def)

lemma tidy_ret: "R x \<Longrightarrow> tidy R v (\<lambda>_. sret x)"
  by (simp add: tidy_def sret_def)

lemma tidy_modify:
  assumes "\<And>w. tab (g w) = tab w \<and> base (g w) = base w"
  shows "tidy anyhow v (\<lambda>_. smodify g)"
  using assms by (simp add: tidy_def smodify_def)

lemma tidy_bind:
  assumes "tidy anyhow v (\<lambda>_. c)" "\<And>x. tidy R v (\<lambda>_. k x)"
  shows "tidy R v (\<lambda>_. sbind c k)"
proof (rule tidyI)
  fix w assume w: "tab w = tab v"
  then obtain w1 x where 1: "c w = (w1, Inr x)" "tab w1 = tab w" "base w1 = base w" using assms(1) by (auto simp: tidy_def)
  then obtain w2 y where "k x w1 = (w2, Inr y)" "R y" "tab w2 = tab w1" "base w2 = base w1"
    using assms(2) [of x] w by (fastforce simp: tidy_def)
  then show "\<exists>w' y. sbind c k w = (w', Inr y) \<and> R y \<and> tab w' = tab w \<and> base w' = base w"
    using 1 by (simp add: sbind_def)
qed

lemma meta_ok_inv: "meta_ok meta \<Longrightarrow> table_inv (m_inodes meta)"
  by (simp add: meta_ok_def table_inv_def)

lemma meta_ok_entries_exist:
  assumes "table_inv (m_inodes meta)"
  shows "entries_exist meta"
proof -
  have t: "tree_ok ROOT_INO (ns_of (m_inodes meta))" and ok: "table_ok (m_inodes meta)" using assms by (simp_all add: table_inv_def)
  have "c \<in> dom (map_of (m_inodes meta))" if e: "(p, c) \<in> edges meta" for p c
  proof -
    obtain inode where i: "map_of (m_inodes meta) p = Some inode" "c \<in> set (bt_values (i_entries inode))"
      using e by (auto simp: edges_def)
    then have "(p, c) \<in> tree_edges (ns_of (m_inodes meta))" using tree_edges_of [OF ok i(1)] by blast
    then show ?thesis using tree_okD(4) [OF t] by (auto simp: tree_edges_def ns_of_simps)
  qed
  then show ?thesis by (auto simp: entries_exist_def)
qed

lemma tidy_rebuild:
  assumes "meta_ok (v_meta v)"
  shows "tidy anyhow v (\<lambda>_. rebuild_quota_runtime_locked)"
proof (rule tidyI)
  fix w assume "tab w = tab v"
  then have "table_inv (m_inodes (v_meta w))" using meta_ok_inv [OF assms] by (simp add: tab_def)
  then obtain rt where "quota_from_metadata (v_meta w) = Inr rt"
    using quota_from_metadata_total [OF meta_ok_entries_exist] by blast
  then show "\<exists>w' y. rebuild_quota_runtime_locked w = (w', Inr y) \<and> True \<and> tab w' = tab w \<and> base w' = base w"
    by (simp add: rebuild_quota_runtime_locked_def tab_def base_def)
qed

lemma tidy_attr:
  assumes "ino \<in> dom (map_of (m_inodes (v_meta v)))"
  shows "tidy anyhow v (\<lambda>_. sread (attr_inode ino))"
  using assms by (auto simp: tidy_def sread_def attr_inode_def get_inode_def tab_def ok_or_def)

lemma delete_shard_keeps: "tab (fst (delete_shard_locked e sh v)) = tab v \<and> base (fst (delete_shard_locked e sh v)) = base v"
  by (auto simp: delete_shard_locked_def remove_host_shard_def on_meta_def tab_def base_def Let_def
      split: option.split shard_location.split sum.split)

lemma fold_keeps:
  assumes "\<And>x w. tab (f x w) = tab w \<and> base (f x w) = base w"
  shows "tab (fold f xs w) = tab w \<and> base (fold f xs w) = base w"
  using assms by (induction xs arbitrary: w) simp_all

lemma delete_blocks_keeps: "tab (delete_blocks_locked e blocks w) = tab w \<and> base (delete_blocks_locked e blocks w) = base w"
proof -
  have "tab (delete_block e b w) = tab w \<and> base (delete_block e b w) = base w" for b w
  proof -
    let ?w = "w\<lparr>v_cache := cache_remove (ve_hashes e) (ve_cache e)
            (m_uuid (v_meta w) @ '':'' @ b_stripe_id b @ '':'' @ b_raw_sha256 b) (v_cache w)\<rparr>"
    have "tab ?w = tab w \<and> base ?w = base w" by (simp add: tab_def base_def)
    then show ?thesis
      using fold_keeps [where f = "\<lambda>sh v. fst (delete_shard_locked e sh v)" and xs = "b_shards b" and w = ?w] delete_shard_keeps
      by (simp add: delete_block_def)
  qed
  then show ?thesis unfolding delete_blocks_locked_def by (rule fold_keeps)
qed

lemma finish_keeps: "tab (finish_block_reclamation_locked e blocks w) = tab w \<and> base (finish_block_reclamation_locked e blocks w) = base w"
  by (simp add: finish_block_reclamation_locked_def delete_blocks_keeps)

lemma stage_keeps: "tab (stage_block_reclamation_locked e blocks w) = tab w \<and> base (stage_block_reclamation_locked e blocks w) = base w"
  using delete_blocks_keeps [of e blocks "account_blocks_locked blocks False w"]
  by (simp add: stage_block_reclamation_locked_def Let_def account_blocks_locked_def on_meta_def tab_def base_def)

section \<open>Running an operation up to its commit\<close>

lemma leads_cong: "(\<And>commit. F commit w = G commit w') \<Longrightarrow> leads R v F w C = leads R v G w' C"
  by (simp only: leads_def)

lemma leads_mono: "leads R v F w C \<Longrightarrow> C \<subseteq> D \<Longrightarrow> leads R v F w D"
  unfolding leads_def staged_def by blast

lemma leads_step:
  fixes F :: "'a \<Rightarrow> commit \<Rightarrow> 'b vop"
  shows "leads R v (\<lambda>commit. sbind c (\<lambda>x. F x commit)) w C =
     (case c w of (w', Inl err) \<Rightarrow> leads R v (\<lambda>commit. sthrow err :: 'b vop) w' C | (w', Inr x) \<Rightarrow> leads R v (F x) w' C)"
proof (cases "c w")
  case (Pair w' r)
  show ?thesis
  proof (cases r)
    case (Inl err)
    then have "leads R v (\<lambda>commit. sbind c (\<lambda>x. F x commit)) w C = leads R v (\<lambda>commit. sthrow err :: 'b vop) w' C"
      by (intro leads_cong) (simp add: sbind_def sthrow_def Pair)
    then show ?thesis using Pair Inl by simp
  next
    case (Inr x)
    then have "leads R v (\<lambda>commit. sbind c (\<lambda>x. F x commit)) w C = leads R v (F x) w' C"
      by (intro leads_cong) (simp add: sbind_def Pair)
    then show ?thesis using Pair Inr by simp
  qed
qed

lemma m_inodes_on [simp]:
  "m_inodes (v_meta (on_meta f v)) = m_inodes (f (v_meta v))"
  "m_inodes (v_meta (on_inodes g v)) = g (m_inodes (v_meta v))"
  "m_inodes (v_meta (on_inode i h v)) = bt_update i h (m_inodes (v_meta v))"
  by (simp_all add: on_meta_def on_inodes_def on_inode_def)

lemma m_next_on [simp]:
  "m_next_inode (v_meta (on_inodes g v)) = m_next_inode (v_meta v)"
  "m_next_inode (v_meta (on_inode i h v)) = m_next_inode (v_meta v)"
  by (simp_all add: on_meta_def on_inodes_def on_inode_def)

lemma base_on [simp]: "base (on_inodes g v) = base v" "base (on_inode i h v) = base v"
  by (simp_all add: base_def on_meta_def on_inodes_def on_inode_def)

lemma touch_keeps: "keeps_tree (\<lambda>inode. inode\<lparr>i_mtime := f inode, i_ctime := g inode\<rparr>)"
  "keeps_links (\<lambda>inode. inode\<lparr>i_mtime := f inode, i_ctime := g inode\<rparr>)"
  "keeps_shape (\<lambda>inode. inode\<lparr>i_mtime := f inode, i_ctime := g inode\<rparr>)"
  by (simp_all add: keeps_tree_def keeps_links_def keeps_shape_def)

lemma touch_base [simp]: "base (touch_inode_locked e ino m c v) = base v"
  by (simp add: touch_inode_locked_def)

lemma touch_next [simp]: "m_next_inode (v_meta (touch_inode_locked e ino m c v)) = m_next_inode (v_meta v)"
  by (simp add: touch_inode_locked_def)

lemma touch_view [view]:
  "ns_of (m_inodes (v_meta (touch_inode_locked e ino m c v))) = ns_of (m_inodes (v_meta v))"
  "nlinks (m_inodes (v_meta (touch_inode_locked e ino m c v))) = nlinks (m_inodes (v_meta v))"
  "table_ok (m_inodes (v_meta v)) \<Longrightarrow> table_ok (m_inodes (v_meta (touch_inode_locked e ino m c v)))"
  "table_inv (m_inodes (v_meta v)) \<Longrightarrow> table_inv (m_inodes (v_meta (touch_inode_locked e ino m c v)))"
  "dom (map_of (m_inodes (v_meta (touch_inode_locked e ino m c v)))) = dom (map_of (m_inodes (v_meta v)))"
  using touch_keeps by (simp_all add: touch_inode_locked_def view table_inv_keep)

lemma dir_inode_eq:
  "dir_inode_locked meta p = Inr inode \<longleftrightarrow> map_of (m_inodes meta) p = Some inode \<and> i_kind inode = Directory"
  by (auto simp: dir_inode_locked_def get_inode_def ok_or_def rbind_eq_Inr_iff split: option.split)

lemma dir_mut_eq:
  assumes "is_dir (ns_of (m_inodes (v_meta w))) p"
  shows "dir_inode_mut_locked p f w = (on_inode p f w, Inr ())"
proof -
  obtain inode where "dir_inode_locked (v_meta w) p = Inr inode" using assms by (auto simp: is_dir_of dir_inode_eq)
  then show ?thesis by (simp add: dir_inode_mut_locked_def sbind_def sread_def smodify_def)
qed

lemma is_dir_changes [view]:
  "is_dir (add_entry p n c N) = is_dir N"
  "is_dir (N\<lparr>lk := l\<rparr>) = is_dir N"
  "is_dir (N\<lparr>nk := (nk N)(c := k)\<rparr>) i = (if i = c then k = Some Directory else is_dir N i)"
  by (simp_all add: is_dir_def add_entry_def fun_eq_iff)

lemma stagedI:
  assumes "meta_ok (v_meta v)" "table_inv (m_inodes (v_meta w))" "base w = base v"
    and "dom (map_of (m_inodes (v_meta w))) \<subseteq> insert (m_next_inode (v_meta v)) (dom (map_of (m_inodes (v_meta v))))"
    and "m_next_inode (v_meta w) = Suc (m_next_inode (v_meta v))
      \<or> m_next_inode (v_meta w) = m_next_inode (v_meta v) \<and> dom (map_of (m_inodes (v_meta w))) \<subseteq> dom (map_of (m_inodes (v_meta v)))"
    and "change \<in> C" "ns_step ROOT_INO change (ns_of (m_inodes (v_meta v))) (ns_of (m_inodes (v_meta w)))"
  shows "staged v C w"
proof -
  have "i < m_next_inode (v_meta w)" if "i \<in> dom (map_of (m_inodes (v_meta w)))" for i
  proof -
    have "i = m_next_inode (v_meta v) \<and> m_next_inode (v_meta w) = Suc (m_next_inode (v_meta v))
        \<or> i \<in> dom (map_of (m_inodes (v_meta v))) \<and> m_next_inode (v_meta v) \<le> m_next_inode (v_meta w)"
      using assms(4,5) that by auto
    then show ?thesis using assms(1) by (auto simp: meta_ok_def dest: bspec)
  qed
  then show ?thesis using assms by (auto simp: staged_def vns_def meta_ok_def table_inv_def)
qed

text \<open>Once its checks have passed, an operation reaches its commit.\<close>

definition reaches :: "('a \<Rightarrow> bool) \<Rightarrow> volume \<Rightarrow> (commit \<Rightarrow> 'a vop) \<Rightarrow> volume \<Rightarrow> ns_change set \<Rightarrow> bool" where
  "reaches R v F w C \<longleftrightarrow> (\<exists>v1 p a d h k. staged v C v1 \<and> harmless v h \<and> tidy R v1 k
     \<and> (\<forall>commit. F commit w = sbind (son_error (commit p a d) h) k v1))"

lemma reaches_leads: "reaches R v F w C \<Longrightarrow> leads R v F w C"
  unfolding reaches_def leads_def by blast

lemma reaches_commit:
  assumes "staged v C w" "tidy R w k"
  shows "reaches R v (\<lambda>commit. sbind (commit p a d) k) w C"
  using assms unfolding reaches_def by (intro exI [of _ w] exI [of _ p] exI [of _ a] exI [of _ d] exI [of _ "\<lambda>_ w. w"] exI [of _ k])
    (simp add: son_error_id harmless_def)

lemma reaches_step:
  shows "reaches R v (\<lambda>commit. sbind c (\<lambda>x. F x commit)) w C =
     (case c w of (w', Inl err) \<Rightarrow> False | (w', Inr x) \<Rightarrow> reaches R v (F x) w' C)"
proof (cases "c w")
  case (Pair w' r)
  show ?thesis
  proof (cases r)
    case (Inl err)
    have False if reached: "reaches R v (\<lambda>commit. sbind c (\<lambda>x. F x commit)) w C"
    proof -
      obtain v1 p a d h k where t: "tidy R v1 k" and eq: "\<forall>commit. sbind c (\<lambda>x. F x commit) w = sbind (son_error (commit p a d) h) k v1"
        using reached unfolding reaches_def by blast
      obtain w2 y where "k () v1 = (w2, Inr y)" using t unfolding tidy_def by blast
      then show False using spec [OF eq, of "\<lambda>_ _ _ w. (w, Inr ())"] Pair Inl by (simp add: sbind_def son_error_def)
    qed
    then show ?thesis using Pair Inl by auto
  next
    case (Inr x)
    then show ?thesis using Pair by (simp add: reaches_def sbind_def)
  qed
qed

section \<open>Making inodes\<close>

text \<open>What makes room for another inode: the inode counter and no link count are at their limits.\<close>

definition roomy :: "volume \<Rightarrow> bool" where
  "roomy v \<longleftrightarrow> meta_ok (v_meta v) \<and> below_limit (m_inodes (v_meta v)) \<and> m_next_inode (v_meta v) < u64_max"

lemma alloc_eq:
  assumes "roomy v"
  shows "alloc_inode_locked v = (on_meta (\<lambda>meta. meta\<lparr>m_next_inode := Suc (m_next_inode (v_meta v))\<rparr>) v, Inr (m_next_inode (v_meta v)))"
  using assms by (simp add: alloc_inode_locked_def on_meta_def roomy_def wrap_add_def u64_max_def)

lemma create_staged:
  assumes room: "roomy v" and p: "map_of (m_inodes (v_meta v)) p = Some parent" "i_kind parent = Directory"
      "map_of (i_entries parent) n = None"
    and inode: "i_id inode = m_next_inode (v_meta v)" "i_entries inode = []"
      "i_nlink inode = (if i_kind inode = Directory then 2 else 1)"
    and w: "w = touch_inode_locked e p True True (w1)"
      "w1 = (if i_kind inode = Directory then on_inode p link_up w2 else w2)"
      "w2 = on_inode p (set_entry n (m_next_inode (v_meta v))) (on_inodes (bt_insert (m_next_inode (v_meta v)) inode) w3)"
      "m_inodes (v_meta w3) = m_inodes (v_meta v)" "base w3 = base v" "m_next_inode (v_meta w3) = Suc (m_next_inode (v_meta v))"
  shows "staged v {Created p n (m_next_inode (v_meta v)) (i_kind inode)} w"
proof -
  let ?X = "m_inodes (v_meta v)" and ?c = "m_next_inode (v_meta v)"
  have ok: "meta_ok (v_meta v)" and lim: "below_limit ?X" using room by (simp_all add: roomy_def)
  have fresh: "map_of ?X ?c = None" using ok by (auto simp: meta_ok_def dom_def)
  have X1: "m_inodes (v_meta w1) = (if i_kind inode = Directory then bt_update p link_up (bt_update p (set_entry n ?c) (bt_insert ?c inode ?X))
      else bt_update p (set_entry n ?c) (bt_insert ?c inode ?X))"
    by (simp add: w)
  have t: "table_inv (m_inodes (v_meta w1)) \<and> ns_of (m_inodes (v_meta w1)) = add_entry p n ?c ((ns_of ?X)\<lparr>nk := (nk (ns_of ?X))(?c \<mapsto> i_kind inode)\<rparr>)"
    by (rule table_create [OF meta_ok_inv [OF ok] lim p fresh inode refl X1])
  have step: "ns_step ROOT_INO (Created p n ?c (i_kind inode)) (ns_of ?X) (ns_of (m_inodes (v_meta w1)))"
    unfolding t [THEN conjunct2]
    by (rule ns_step.create) (use p fresh in \<open>auto simp: is_dir_of ns_of_simps\<close>)
  show ?thesis
  proof (rule stagedI [OF ok])
    show "table_inv (m_inodes (v_meta w))" unfolding w(1) by (rule touch_view(4)) (use t in blast)
    show "base w = base v" by (simp add: w)
    have "dom (map_of (m_inodes (v_meta w))) = insert ?c (insert p (dom (map_of ?X)))"
      using p(1) by (auto simp: w(1) touch_view(5) X1)
    then show "dom (map_of (m_inodes (v_meta w))) \<subseteq> insert ?c (dom (map_of ?X))" using p(1) by auto
    show "m_next_inode (v_meta w) = Suc ?c \<or> m_next_inode (v_meta w) = ?c \<and> dom (map_of (m_inodes (v_meta w))) \<subseteq> dom (map_of ?X)"
      by (simp add: w)
    show "ns_step ROOT_INO (Created p n ?c (i_kind inode)) (ns_of ?X) (ns_of (m_inodes (v_meta w)))"
      using step by (simp add: w(1) touch_view(1))
  qed simp
qed

lemma on_next [simp]:
  "m_inodes (v_meta (on_meta (\<lambda>meta. meta\<lparr>m_next_inode := n\<rparr>) v)) = m_inodes (v_meta v)"
  "base (on_meta (\<lambda>meta. meta\<lparr>m_next_inode := n\<rparr>) v) = base v"
  "m_next_inode (v_meta (on_meta (\<lambda>meta. meta\<lparr>m_next_inode := n\<rparr>) v)) = n"
  "dir_inode_locked (v_meta (on_meta (\<lambda>meta. meta\<lparr>m_next_inode := n\<rparr>) v)) = dir_inode_locked (v_meta v)"
  by (simp_all add: on_meta_def base_def dir_inode_locked_def get_inode_def fun_eq_iff)

lemma new_inode_simps [simp]:
  "i_id (new_inode e ino kind mode uid gid nlink bytes rdev target access_acl default_acl boot) = ino"
  "i_kind (new_inode e ino kind mode uid gid nlink bytes rdev target access_acl default_acl boot) = kind"
  "i_entries (new_inode e ino kind mode uid gid nlink bytes rdev target access_acl default_acl boot) = []"
  "i_nlink (new_inode e ino kind mode uid gid nlink bytes rdev target access_acl default_acl boot) = nlink"
  by (simp_all add: new_inode_def)

lemma bt_contains_None: "\<not> bt_contains k m \<Longrightarrow> map_of m k = None"
  by (auto simp: bt_contains_def)

lemmas operation = leads_step sread_def smodify_def sret_def

lemma tidy_inherit: "R x \<Longrightarrow> tidy R v (\<lambda>_. sbind (smodify (\<lambda>v. v\<lparr>v_quota := inherit_quota_memberships p c (v_quota v)\<rparr>)) (\<lambda>_. sret x))"
  by (rule tidy_bind [OF tidy_modify tidy_ret]) (simp add: tab_def base_def)

text \<open>The last steps of the three operations that make an inode.\<close>

lemma staged_new_dir:
  assumes "roomy v" "map_of (m_inodes (v_meta v)) p = Some parent" "i_kind parent = Directory" "map_of (i_entries parent) n = None"
    and "m_inodes (v_meta w) = m_inodes (v_meta v)" "base w = base v" "m_next_inode (v_meta w) = Suc (m_next_inode (v_meta v))"
    and "c = m_next_inode (v_meta v)" "i_id inode = c" "i_kind inode = Directory" "i_entries inode = []" "i_nlink inode = 2"
  shows "staged v {Created p n c Directory}
    (touch_inode_locked e p True True (on_inode p link_up (on_inode p (set_entry n c) (on_inodes (bt_insert c inode) w))))"
  using create_staged [OF assms(1-4), of inode _ e _ _ w] assms(5-) by simp

lemma staged_new_node:
  assumes "roomy v" "map_of (m_inodes (v_meta v)) p = Some parent" "i_kind parent = Directory" "map_of (i_entries parent) n = None"
    and "m_inodes (v_meta w) = m_inodes (v_meta v)" "base w = base v" "m_next_inode (v_meta w) = Suc (m_next_inode (v_meta v))"
    and "c = m_next_inode (v_meta v)" "i_id inode = c" "i_kind inode = kind" "kind \<noteq> Directory" "i_entries inode = []" "i_nlink inode = 1"
  shows "staged v {Created p n c kind} (touch_inode_locked e p True True (on_inode p (set_entry n c) (on_inodes (bt_insert c inode) w)))"
  using create_staged [OF assms(1-4), of inode _ e _ _ w] assms(5-) by simp

lemma parent_dir_later:
  assumes "is_dir (ns_of (m_inodes (v_meta v))) p" "roomy v"
  shows "is_dir (ns_of (bt_insert (m_next_inode (v_meta v)) inode (m_inodes (v_meta v)))) p"
  using assms by (auto simp: is_dir_of roomy_def meta_ok_def)

lemma new_node_context:
  assumes "roomy v" "dir_inode_locked (v_meta v) parent = Inr inode" "\<not> bt_contains name (i_entries inode)"
  shows "map_of (m_inodes (v_meta v)) parent = Some inode" "i_kind inode = Directory" "map_of (i_entries inode) name = None"
    "is_dir (ns_of (bt_insert (m_next_inode (v_meta v)) fresh (m_inodes (v_meta v)))) parent"
proof -
  show p: "map_of (m_inodes (v_meta v)) parent = Some inode" "i_kind inode = Directory" "map_of (i_entries inode) name = None"
    using assms by (simp_all add: dir_inode_eq bt_contains_None)
  show "is_dir (ns_of (bt_insert (m_next_inode (v_meta v)) fresh (m_inodes (v_meta v)))) parent"
    by (rule parent_dir_later [OF _ assms(1)]) (use p in \<open>auto simp: is_dir_of\<close>)
qed

lemma mkdir_reaches:
  assumes room: "roomy v" and ready: "ensure_block_backend_writable_locked v = Inr ()" "validate_entry_name name = Inr ()"
    and p: "dir_inode_locked (v_meta v) parent = Inr inode" "\<not> bt_contains name (i_entries inode)"
  shows "reaches ((=) (m_next_inode (v_meta v))) v (\<lambda>commit. mkdir_locked commit e parent name mode uid gid) v
    {Created parent name (m_next_inode (v_meta v)) Directory}"
proof -
  note ctx = new_node_context [OF room p]
  show ?thesis
    unfolding mkdir_locked_def
    by (simp add: reaches_step sread_def smodify_def sret_def alloc_eq [OF room] ready p Let_def dir_mut_eq ctx(4) split del: if_split)
      (intro reaches_commit staged_new_dir [OF room ctx(1-3)] tidy_inherit; simp)
qed

lemma mkdir_leads:
  assumes "roomy v"
  shows "leads ((=) (m_next_inode (v_meta v))) v (\<lambda>commit. mkdir_locked commit e parent name mode uid gid) v
    {Created parent name (m_next_inode (v_meta v)) Directory}"
proof (cases "ensure_block_backend_writable_locked v = Inr () \<and> validate_entry_name name = Inr ()
    \<and> (\<exists>inode. dir_inode_locked (v_meta v) parent = Inr inode \<and> \<not> bt_contains name (i_entries inode))")
  case True
  then show ?thesis using reaches_leads [OF mkdir_reaches [OF assms]] by blast
next
  case False
  then show ?thesis unfolding mkdir_locked_def by (intro leads_check leads_if leads_throw) auto
qed

lemma harmless_restore:
  assumes "rollback = None \<or> rollback = Some (v_meta v)"
  shows "harmless v (restore_unless_committed rollback)"
  using assms by (auto simp: harmless_def restore_unless_committed_def)

lemma mknod_kind_not_dir: "mknod_kind mode rdev = Inr kind \<Longrightarrow> kind \<noteq> Directory"
  by (auto simp: mknod_kind_def Let_def split: if_splits)

lemma mknod_leads:
  assumes "roomy v"
  shows "leads ((=) (m_next_inode (v_meta v))) v (\<lambda>commit. mknod_locked commit e parent name mode rdev uid gid) v
    {Created parent name (m_next_inode (v_meta v)) kind |kind. mknod_kind mode rdev = Inr kind}"
  unfolding mknod_locked_def
proof (intro leads_check leads_if leads_throw, goal_cases)
  case (1 _ _ inode rollback kind)
  note ctx = new_node_context [OF assms 1(3,4)]
  have h: "harmless v (restore_unless_committed rollback)"
    by (rule harmless_restore) (use 1(5) in \<open>auto simp: commit_previous_snapshot_def split: if_splits\<close>)
  have sub: "{Created parent name (m_next_inode (v_meta v)) kind} \<subseteq> {Created parent name (m_next_inode (v_meta v)) kind |kind. mknod_kind mode rdev = Inr kind}"
    using 1(6) by blast
  show ?case
    by (rule leads_mono [OF _ sub], simp add: operation alloc_eq [OF assms] 1 Let_def dir_mut_eq ctx(4) split del: if_split)
      (intro leads_guarded_commit staged_new_node [OF assms ctx(1-3)] h tidy_inherit; simp add: mknod_kind_not_dir [OF 1(6)])
qed

lemma symlink_leads:
  assumes "roomy v" "entry_name_from_os (ve_hex e) os_name = Inr name"
  shows "leads anyhow v (\<lambda>commit. symlink_at_with_owner commit e parent os_name target uid gid) v
    {Created parent name (m_next_inode (v_meta v)) Symlink}"
  unfolding symlink_at_with_owner_def
proof (intro leads_check leads_if leads_throw, goal_cases)
  case (1 name' _ inode)
  then have "name' = name" using assms(2) by simp
  note ctx = new_node_context [OF assms(1) 1(3,4)]
  show ?case
    by (simp add: operation alloc_eq [OF assms(1)] 1 Let_def dir_mut_eq ctx(4) \<open>name' = name\<close> [symmetric] split del: if_split)
      (intro leads_commit staged_new_node [OF assms(1) ctx(1-3)] tidy_attr; simp add: touch_view(5))
qed

section \<open>Linking, unlinking and reaping\<close>

lemma only_meta [simp]:
  "(on_inode i f w)\<lparr>v_meta := m\<rparr> = w\<lparr>v_meta := m\<rparr>"
  "(touch_inode_locked e i b c w)\<lparr>v_meta := m\<rparr> = w\<lparr>v_meta := m\<rparr>"
  by (simp_all add: on_inode_def on_inodes_def on_meta_def touch_inode_locked_def)

lemma roomyD: "roomy v \<Longrightarrow> meta_ok (v_meta v)" "roomy v \<Longrightarrow> table_inv (m_inodes (v_meta v))"
  "roomy v \<Longrightarrow> below_limit (m_inodes (v_meta v))"
  by (simp_all add: roomy_def meta_ok_inv)

lemma link_leads:
  assumes room: "roomy v" and name: "entry_name_from_os (ve_hex e) os_name = Inr name"
  shows "leads anyhow v (\<lambda>commit. link_at commit e ino new_parent os_name) v {Linked ino new_parent name}"
  unfolding link_at_def
proof (intro leads_check leads_if leads_throw, goal_cases)
  case (1 name' _ inode parent_inode quota_rollback)
  let ?X = "m_inodes (v_meta v)"
  let ?w = "touch_inode_locked e new_parent True True (on_inode ino (\<lambda>inode. (link_up inode)\<lparr>i_ctime := ve_now e\<rparr>)
      (on_inode new_parent (set_entry name ino) v))"
  have n: "name' = name" using 1(1) name by simp
  have c: "map_of ?X ino = Some inode" using 1(3) by (auto simp: get_inode_def ok_or_def split: option.splits)
  have p: "map_of ?X new_parent = Some parent_inode" "i_kind parent_inode = Directory" "map_of (i_entries parent_inode) name = None"
    using 1(4,5) n by (simp_all add: dir_inode_eq bt_contains_None)
  have pdir: "is_dir (ns_of ?X) new_parent" using p by (auto simp: is_dir_of)
  note t = table_link [OF roomyD(2,3) [OF room] p c 1(6) refl, of "ve_now e"]
  have st: "staged v {Linked ino new_parent name} ?w"
  proof (rule stagedI [OF roomyD(1) [OF room]])
    show "table_inv (m_inodes (v_meta ?w))" by (rule touch_view(4)) (use t in simp)
    have "ns_step ROOT_INO (Linked ino new_parent name) (ns_of ?X) (add_entry new_parent name ino (ns_of ?X))"
      by (rule ns_step.link) (use p c 1(6) in \<open>auto simp: is_dir_of ns_of_simps\<close>)
    then show "ns_step ROOT_INO (Linked ino new_parent name) (ns_of ?X) (ns_of (m_inodes (v_meta ?w)))"
      using t by (simp add: touch_view(1))
  qed (simp_all add: touch_view(5) subset_insertI)
  have dom: "ino \<in> dom (map_of (m_inodes (v_meta ?w)))" using c by (auto simp: touch_view(5))
  have k: "tidy anyhow ?w (\<lambda>_. sbind rebuild_quota_runtime_locked (\<lambda>_. sread (attr_inode ino)))"
    by (intro tidy_bind tidy_rebuild tidy_attr dom) (use st in \<open>simp add: staged_def\<close>)
  have go: "leads anyhow v (\<lambda>commit. sbind (commit None ''link'' d) (\<lambda>_. sbind rebuild_quota_runtime_locked (\<lambda>_. sread (attr_inode ino))))
      ?w {Linked ino new_parent name}" for d
    by (rule leads_commit [OF st k])
  show ?case
  proof (cases quota_rollback)
    case None
    then show ?thesis using go by (simp add: operation dir_mut_eq pdir n)
  next
    case (Some rollback)
    then have "rollback = v_meta v" using 1(7) by (auto split: if_splits)
    then have "?w\<lparr>v_meta := rollback\<rparr> = v" by simp
    then show ?thesis
      using go by (auto simp: operation dir_mut_eq pdir n Some son_error_def leads_throw split: sum.split)
  qed
qed

lemma stage_simps [simp]:
  "m_inodes (v_meta (stage_block_reclamation_locked e blocks w)) = m_inodes (v_meta w)"
  "m_next_inode (v_meta (stage_block_reclamation_locked e blocks w)) = m_next_inode (v_meta w)"
  "base (stage_block_reclamation_locked e blocks w) = base w"
  using stage_keeps [of e blocks w] by (simp_all add: tab_def)

lemma unlink_child_eq:
  assumes "map_of (m_inodes (v_meta w)) c = Some inode"
  shows "unlink_child e c keep w =
    (let w1 = on_inode c (\<lambda>live. (link_down live)\<lparr>i_ctime := ve_now e\<rparr>) w
     in if unat (i_nlink inode) - 1 = 0 \<and> \<not> keep then (on_inodes (bt_remove c) w1, Inr (i_blocks inode)) else (w1, Inr []))"
proof -
  have "(if i_nlink inode = 0 then 0 else i_nlink inode - 1) = 0 \<longleftrightarrow> unat (i_nlink inode) - 1 = 0"
    using unat_minus_one [of "i_nlink inode"] by (auto simp: unat_eq_0 [symmetric])
  then show ?thesis using assms by (simp add: unlink_child_def Let_def bt_get_update link_down_def)
qed

lemma keeps_down [view]:
  "keeps_tree (\<lambda>live. (link_down live)\<lparr>i_ctime := t\<rparr>)" "keeps_shape (\<lambda>live. (link_down live)\<lparr>i_ctime := t\<rparr>)"
  by (simp_all add: keeps_tree_def keeps_shape_def link_down_def)

text \<open>Removing an entry and what it led to, in the two orders in which the code does it.\<close>

lemma dropped_dir:
  assumes inv: "table_inv X"
    and p: "map_of X p = Some parent" "i_kind parent = Directory" "map_of (i_entries parent) n = Some c"
    and c: "map_of X c = Some inode" "i_kind inode = Directory" "i_entries inode = []"
    and f: "keeps_tree f" "keeps_links f" "keeps_shape f"
    and Z: "Z = bt_remove c (bt_update p dir_link_down (bt_update p f (bt_update p (remove_entry n) X)))
      \<or> Z = bt_update p dir_link_down (bt_remove c (bt_update p (remove_entry n) X))"
  shows "table_inv Z \<and> ns_of Z = drop_entry p n keep (ns_of X)"
proof -
  have ok: "table_ok X" using inv by (simp add: table_inv_def)
  have none: "lk ((ns_of X)\<lparr>lk := (lk (ns_of X))((p, n) := None)\<rparr>) (c, m) = None" for m
    using c by (simp add: ns_of_simps)
  have pc: "p \<noteq> c" using p c by auto
  show ?thesis
  proof (rule table_drop_dir [OF inv p c])
    show "table_ok Z" using Z ok f by (auto simp: view)
    show "ns_of Z = (ns_of X)\<lparr>lk := (lk (ns_of X))((p, n) := None), nk := (nk (ns_of X))(c := None)\<rparr>"
      using Z none f by (auto simp: view)
    show "nlinks Z = ((nlinks X)(p := map_option (\<lambda>c. max (c - 1) 2) (nlinks X p)))(c := None)"
      using Z pc f by (auto simp: view fun_upd_twist)
  qed
qed

lemma dropped_file:
  assumes inv: "table_inv X"
    and p: "map_of X p = Some parent" "i_kind parent = Directory" "map_of (i_entries parent) n = Some c"
    and c: "map_of X c = Some inode" "i_kind inode \<noteq> Directory"
    and w: "m_inodes (v_meta w) = bt_update p f (bt_update p (remove_entry n) X)" "keeps_tree f" "keeps_links f" "keeps_shape f"
  obtains w' blocks where "unlink_child e c keep w = (w', Inr blocks)" "base w' = base w" "m_next_inode (v_meta w') = m_next_inode (v_meta w)"
    "table_inv (m_inodes (v_meta w'))" "ns_of (m_inodes (v_meta w')) = drop_entry p n keep (ns_of X)"
    "dom (map_of (m_inodes (v_meta w'))) \<subseteq> dom (map_of X)"
    "\<And>i x. nlinks (m_inodes (v_meta w')) i = Some x \<Longrightarrow> \<exists>y. nlinks X i = Some y \<and> x \<le> y"
    "\<And>m. w'\<lparr>v_meta := m\<rparr> = w\<lparr>v_meta := m\<rparr>"
proof -
  let ?w = "on_inode c (\<lambda>live. (link_down live)\<lparr>i_ctime := ve_now e\<rparr>) w"
  let ?gone = "unat (i_nlink inode) - 1 = 0 \<and> \<not> keep"
  let ?r = "if ?gone then on_inodes (bt_remove c) ?w else ?w"
  have ok: "table_ok X" and t: "tree_ok ROOT_INO (ns_of X)" using inv by (simp_all add: table_inv_def)
  have pc: "c \<noteq> p" using p c by auto
  have at: "map_of (m_inodes (v_meta w)) c = Some inode" using c pc by (simp add: w bt_get_update)
  have none: "lk ((ns_of X)\<lparr>lk := (lk (ns_of X))((p, n) := None)\<rparr>) (c, m) = None" for m
    using no_entries_in_nondir [OF t, of c] c by (auto simp: is_dir_of)
  have nl: "nlinks (m_inodes (v_meta ?r)) = (nlinks X)(c := (if ?gone then None else map_option (\<lambda>c. c - 1) (nlinks X c)))"
    using w(2-) by (simp add: w(1) view)
  have "table_inv (m_inodes (v_meta ?r)) \<and> ns_of (m_inodes (v_meta ?r)) = drop_entry p n keep (ns_of X)"
  proof (rule table_drop_file [OF inv p c refl _ _ nl])
    show "table_ok (m_inodes (v_meta ?r))" using ok w(2-) by (simp add: w(1) view)
    show "ns_of (m_inodes (v_meta ?r)) = (ns_of X)\<lparr>lk := (lk (ns_of X))((p, n) := None),
        nk := (if ?gone then (nk (ns_of X))(c := None) else nk (ns_of X))\<rparr>"
      using none w(2-) by (simp add: w(1) view)
  qed
  moreover have "unlink_child e c keep w = (?r, Inr (if ?gone then i_blocks inode else []))"
    by (simp add: unlink_child_eq [OF at] Let_def)
  moreover have "base ?r = base w" "m_next_inode (v_meta ?r) = m_next_inode (v_meta w)" by simp_all
  moreover have "dom (map_of (m_inodes (v_meta ?r))) \<subseteq> dom (map_of X)" by (auto simp: w(1))
  moreover have "\<exists>y. nlinks X i = Some y \<and> x \<le> y" if "nlinks (m_inodes (v_meta ?r)) i = Some x" for i x
    using that unfolding nl by (auto split: if_splits)
  moreover have "?r\<lparr>v_meta := m\<rparr> = w\<lparr>v_meta := m\<rparr>" for m by (simp add: on_inodes_def on_meta_def on_inode_def)
  ultimately show thesis using that by blast
qed

lemma get_inode_eq: "get_inode meta i = Inr inode \<longleftrightarrow> map_of (m_inodes meta) i = Some inode"
  by (auto simp: get_inode_def ok_or_def split: option.splits)

lemma ok_or_eq: "ok_or err x = Inr y \<longleftrightarrow> x = Some y"
  by (auto simp: ok_or_def split: option.splits)

lemma drop_step:
  assumes "map_of X p = Some parent" "map_of (i_entries parent) n = Some c"
    and "map_of X c = Some inode" "i_kind inode = Directory \<longrightarrow> i_entries inode = []"
  shows "ns_step ROOT_INO (Dropped p n keep) (ns_of X) (drop_entry p n keep (ns_of X))"
  by (rule ns_step.drop [where c = c]) (use assms in \<open>auto simp: ns_of_simps is_dir_of empty_dir_def\<close>)

lemma tidy_finish:
  assumes "meta_ok (v_meta w)"
  shows "tidy anyhow w (\<lambda>_. sbind rebuild_quota_runtime_locked (\<lambda>_. smodify (finish_block_reclamation_locked e blocks)))"
  by (intro tidy_bind tidy_rebuild tidy_modify assms finish_keeps)

lemma staged_ok: "staged v C w \<Longrightarrow> meta_ok (v_meta w)"
  by (simp add: staged_def)

lemma unlink_leads:
  assumes room: "roomy v"
  shows "leads anyhow v (\<lambda>commit. unlink_locked commit e parent name dir uid keep) v {Dropped parent name keep}"
  unfolding unlink_locked_def
proof (intro leads_check, goal_cases)
  case (1 _ inode child child_inode)
  let ?X = "m_inodes (v_meta v)"
  let ?w = "touch_inode_locked e parent True True (on_inode parent (remove_entry name) v)"
  have p: "map_of ?X parent = Some inode" "i_kind inode = Directory" "map_of (i_entries inode) name = Some child"
    and c: "map_of ?X child = Some child_inode"
    using 1(2-4) by (simp_all add: dir_inode_eq ok_or_eq get_inode_eq)
  have pdir: "is_dir (ns_of ?X) parent" using p by (auto simp: is_dir_of)
  have removable: "i_kind child_inode = Directory \<longrightarrow> i_entries child_inode = []"
    using 1(7) by (auto simp: check_removable_def split: if_splits)
  note step = drop_step [OF p(1,3) c removable, of keep]
  have go: "leads anyhow v (\<lambda>commit. sbind (commit None a d) (\<lambda>_. sbind rebuild_quota_runtime_locked
      (\<lambda>_. smodify (finish_block_reclamation_locked e blocks)))) (stage_block_reclamation_locked e blocks w) {Dropped parent name keep}"
    if "base w = base v" "m_next_inode (v_meta w) = m_next_inode (v_meta v)" "table_inv (m_inodes (v_meta w))"
      "ns_of (m_inodes (v_meta w)) = drop_entry parent name keep (ns_of ?X)" "dom (map_of (m_inodes (v_meta w))) \<subseteq> dom (map_of ?X)"
    for w blocks a d
  proof -
    have "staged v {Dropped parent name keep} (stage_block_reclamation_locked e blocks w)"
      by (rule stagedI [OF roomyD(1) [OF room], where change = "Dropped parent name keep"]) (use that step in auto)
    then show ?thesis using leads_commit tidy_finish staged_ok by blast
  qed
  show ?case
  proof (cases "i_kind child_inode = Directory")
    case True
    let ?r = "on_inodes (bt_remove child) (on_inode parent dir_link_down ?w)"
    have "table_inv (m_inodes (v_meta ?r)) \<and> ns_of (m_inodes (v_meta ?r)) = drop_entry parent name keep (ns_of ?X)"
      by (rule dropped_dir [OF roomyD(2) [OF room] p c True _ touch_keeps [of "\<lambda>_. ve_now e" "\<lambda>_. ve_now e"]]) (use removable True in \<open>simp_all add: touch_inode_locked_def\<close>)
    moreover have "dom (map_of (m_inodes (v_meta ?r))) \<subseteq> dom (map_of ?X)" by (auto simp: touch_view(5))
    ultimately have "leads anyhow v (\<lambda>commit. sbind (commit None a d) (\<lambda>_. sbind rebuild_quota_runtime_locked
      (\<lambda>_. smodify (finish_block_reclamation_locked e [])))) (stage_block_reclamation_locked e [] ?r) {Dropped parent name keep}" for a d
      by (intro go) simp_all
    then show ?thesis using True by (simp add: operation dir_mut_eq pdir sbind_def)
  next
    case False
    obtain w blocks where "unlink_child e child keep ?w = (w, Inr blocks)" "base w = base ?w"
      "m_next_inode (v_meta w) = m_next_inode (v_meta ?w)" "table_inv (m_inodes (v_meta w))"
      "ns_of (m_inodes (v_meta w)) = drop_entry parent name keep (ns_of ?X)" "dom (map_of (m_inodes (v_meta w))) \<subseteq> dom (map_of ?X)"
      by (rule dropped_file [OF roomyD(2) [OF room] p c False _ touch_keeps [of "\<lambda>_. ve_now e" "\<lambda>_. ve_now e"], of ?w]) (simp_all add: touch_inode_locked_def)
    then show ?thesis using False by (simp add: operation dir_mut_eq pdir go)
  qed
qed

lemma reap_leads:
  assumes room: "roomy v"
  shows "leads anyhow v (\<lambda>commit. reap_unlinked_inode commit e ino) v {Reaped ino, Unchanged}"
  unfolding reap_unlinked_inode_def
proof (intro leads_check, goal_cases)
  case (1 _ found)
  show ?case
  proof (cases found)
    case None
    then show ?thesis by (simp add: leads_ret)
  next
    case (Some inode)
    let ?w = "stage_block_reclamation_locked e (i_blocks inode) (on_inodes (bt_remove ino) v)"
    show ?thesis
    proof (cases "i_nlink inode = 0")
      case True
      note t = table_reap [OF roomyD(2) [OF room], of ino inode]
      have "staged v {Reaped ino, Unchanged} ?w"
        by (rule stagedI [OF roomyD(1) [OF room], where change = "Reaped ino"]) (use 1 Some True t in auto)
      then have "leads anyhow v (\<lambda>commit. sbind (commit None a d) (\<lambda>_. smodify (finish_block_reclamation_locked e (i_blocks inode)))) ?w
          {Reaped ino, Unchanged}" for a d
        by (intro leads_commit tidy_modify finish_keeps)
      then show ?thesis using Some True by (simp add: operation)
    qed (simp add: Some leads_ret)
  qed
qed

section \<open>Renaming\<close>

lemma move_links_simps [simp]:
  "m_inodes (v_meta (move_links p q w)) = bt_update q link_up (bt_update p dir_link_down (m_inodes (v_meta w)))"
  "base (move_links p q w) = base w" "m_next_inode (v_meta (move_links p q w)) = m_next_inode (v_meta w)"
  by (simp_all add: move_links_def)

lemma exchange_leads:
  assumes room: "roomy v"
    and p: "map_of (m_inodes (v_meta v)) p = Some parent" "i_kind parent = Directory" "map_of (i_entries parent) n = Some c"
    and q: "map_of (m_inodes (v_meta v)) q = Some target" "i_kind target = Directory" "map_of (i_entries target) m = found"
    and c: "map_of (m_inodes (v_meta v)) c = Some inode" "\<not> below_or_self (ns_of (m_inodes (v_meta v))) c q"
  shows "leads anyhow v (\<lambda>commit. rename_exchange commit e p n q m uid c inode found) v {Exchanged p n q m}"
  unfolding rename_exchange_def validate_candidate_def
proof (intro leads_check, goal_cases)
  case (1 d _ existing)
  let ?X = "m_inodes (v_meta v)"
  let ?N = "ns_of ?X"
  have d: "map_of (i_entries target) m = Some d" "map_of ?X d = Some existing"
    using 1(1,3) q(3) by (simp_all add: ok_or_eq get_inode_eq)
  have apart: "\<not> below_or_self ?N d p"
    using 1(4) by (simp add: not_into_itself_eq [OF roomyD(2) [OF room] d(2)] split: if_splits)
  have l: "lk ?N (p, n) = Some c" "lk ?N (q, m) = Some d" using p q d by (simp_all add: ns_of_simps)
  have dirs: "is_dir ?N p" "is_dir ?N q" "is_dir ?N c \<longleftrightarrow> i_kind inode = Directory" "is_dir ?N d \<longleftrightarrow> i_kind existing = Directory"
    using p q c d by (auto simp: is_dir_of)
  let ?w1 = "on_inode q (set_entry m c) (on_inode p (set_entry n d) v)"
  let ?w2 = "if p \<noteq> q then let v1 = (if i_kind inode = Directory then move_links p q ?w1 else ?w1)
      in (if i_kind existing = Directory then move_links q p v1 else v1) else ?w1"
  let ?w = "touch_inode_locked e d False True (touch_inode_locked e c False True (touch_inode_locked e q True True (touch_inode_locked e p True True ?w2)))"
  have doms: "p \<in> dom (map_of ?X)" "q \<in> dom (map_of ?X)" using p q by auto
  have ns1: "ns_of (m_inodes (v_meta ?w1)) = ?N\<lparr>lk := (lk ?N)((p, n) \<mapsto> d, (q, m) \<mapsto> c)\<rparr>"
    using doms by (simp add: view) (simp add: add_entry_def)
  have ns: "ns_of (m_inodes (v_meta ?w)) = ?N\<lparr>lk := (lk ?N)((p, n) \<mapsto> d, (q, m) \<mapsto> c)\<rparr>"
    unfolding ns1 [symmetric] by (simp add: view Let_def)
  have ok: "table_ok (m_inodes (v_meta ?w))"
    using roomyD(2) [OF room] by (simp add: view Let_def table_inv_def)
  have "table_inv (m_inodes (v_meta ?w))"
    by (rule table_exchange [OF roomyD(2,3) [OF room] l c(2) apart ok ns])
      (auto simp: view Let_def dirs option.map_comp comp_def option.map_ident)
  moreover have "ns_step ROOT_INO (Exchanged p n q m) ?N (ns_of (m_inodes (v_meta ?w)))"
    unfolding ns by (rule ns_step.exchange [OF l c(2) apart])
  ultimately have "staged v {Exchanged p n q m} ?w"
    by (intro stagedI [OF roomyD(1) [OF room]]) (auto simp: touch_view(5) Let_def base_def [symmetric])
  then have "leads anyhow v (\<lambda>commit. sbind (commit None a x) (\<lambda>_. rebuild_quota_runtime_locked)) ?w {Exchanged p n q m}" for a x
    by (intro leads_commit tidy_rebuild staged_ok)
  then show ?case
    by (simp add: operation swap_entries_def dir_mut_eq dirs(1,2) view doms sbind_def del: Let_def)
qed

text \<open>After the replaced inode has gone, the entry moves to a free name.\<close>

lemma move_commit_leads:
  assumes room: "roomy v" and l: "lk (ns_of (m_inodes (v_meta v))) (p, n) = Some c"
    and cd: "is_dir (ns_of (m_inodes (v_meta v))) c \<longleftrightarrow> i_kind inode = Directory"
    and q: "is_dir (ns_of (m_inodes (v_meta v))) q" "lk (ns_of (m_inodes (v_meta v))) (q, m) \<noteq> Some c"
      "\<not> below_or_self (ns_of (m_inodes (v_meta v))) c q"
    and over: "\<And>d. lk (ns_of (m_inodes (v_meta v))) (q, m) = Some d \<Longrightarrow>
      is_dir (ns_of (m_inodes (v_meta v))) d = is_dir (ns_of (m_inodes (v_meta v))) c
      \<and> (is_dir (ns_of (m_inodes (v_meta v))) d \<longrightarrow> empty_dir (ns_of (m_inodes (v_meta v))) d)"
    and w: "base w = base v" "m_next_inode (v_meta w) = m_next_inode (v_meta v)" "table_inv (m_inodes (v_meta w))"
      "ns_of (m_inodes (v_meta w)) = drop_entry q m keep (ns_of (m_inodes (v_meta v)))"
      "dom (map_of (m_inodes (v_meta w))) \<subseteq> dom (map_of (m_inodes (v_meta v)))" "below_limit (m_inodes (v_meta w))"
  shows "leads anyhow v (\<lambda>commit.
     sbind (smodify (stage_block_reclamation_locked e blocks)) (\<lambda>_.
     sbind (dir_inode_mut_locked p (remove_entry n)) (\<lambda>_.
     sbind (dir_inode_mut_locked q (set_entry m c)) (\<lambda>_.
     sbind (smodify (\<lambda>v. if i_kind inode = Directory \<and> p \<noteq> q then move_links p q v else v)) (\<lambda>_.
     sbind (smodify (touch_inode_locked e p True True)) (\<lambda>_.
     sbind (smodify (touch_inode_locked e q True True)) (\<lambda>_.
     sbind (smodify (touch_inode_locked e c False True)) (\<lambda>_.
     sbind (commit None a d) (\<lambda>_.
     sbind rebuild_quota_runtime_locked (\<lambda>_.
     smodify (finish_block_reclamation_locked e blocks))))))))))) w {Moved p n q m keep, Unchanged}"
proof -
  let ?N = "ns_of (m_inodes (v_meta v))" and ?Y = "m_inodes (v_meta w)"
  let ?M = "ns_of ?Y"
  have t: "tree_ok ROOT_INO ?N" using roomyD(2) [OF room] by (simp add: table_inv_def)
  have M: "lk ?M (p, n) = Some c" "is_dir ?M q" "lk ?M (q, m) = None" "\<not> below_or_self ?M c q" "is_dir ?M c = is_dir ?N c"
    and tM: "tree_ok ROOT_INO ?M"
    using move_after_drop [OF t l q over refl, of keep] by (simp_all add: w(4))
  have pdir: "is_dir ?M p" by (rule tree_okD(3) [OF tM M(1)])
  have doms: "p \<in> dom (map_of ?Y)" "q \<in> dom (map_of ?Y)" using pdir M(2) by (auto simp: is_dir_of)
  let ?w1 = "on_inode q (set_entry m c) (on_inode p (remove_entry n) (stage_block_reclamation_locked e blocks w))"
  let ?w2 = "if i_kind inode = Directory \<and> p \<noteq> q then move_links p q ?w1 else ?w1"
  let ?w = "touch_inode_locked e c False True (touch_inode_locked e q True True (touch_inode_locked e p True True ?w2))"
  have ns1: "ns_of (m_inodes (v_meta ?w1)) = move_entry p n q m c ?M"
    using doms by (simp add: view) (simp add: add_entry_def move_entry_def)
  have ns: "ns_of (m_inodes (v_meta ?w)) = move_entry p n q m c ?M" unfolding ns1 [symmetric] by (simp add: view)
  have ok: "table_ok (m_inodes (v_meta ?w))" using w(3) by (simp add: view table_inv_def)
  have nl: "nlinks (m_inodes (v_meta ?w)) = (if is_dir ?M c \<and> p \<noteq> q
      then (nlinks ?Y)(p := map_option (\<lambda>c. max (c - 1) 2) (nlinks ?Y p), q := map_option u32_up (nlinks ?Y q)) else nlinks ?Y)"
    by (auto simp: view M(5) cd)
  have "table_inv (m_inodes (v_meta ?w))"
    by (rule table_move [OF w(3,6) M(1,3,2,4) ok ns nl])
  moreover have "ns_step ROOT_INO (Moved p n q m keep) ?N (ns_of (m_inodes (v_meta ?w)))"
    unfolding ns w(4) by (rule ns_step.move [OF l q over])
  ultimately have "staged v {Moved p n q m keep, Unchanged} ?w"
    by (intro stagedI [OF roomyD(1) [OF room]]) (use w(1,2,5) in \<open>auto simp: touch_view(5)\<close>)
  then have "leads anyhow v (\<lambda>commit. sbind (commit None a d) (\<lambda>_. sbind rebuild_quota_runtime_locked
      (\<lambda>_. smodify (finish_block_reclamation_locked e blocks)))) ?w {Moved p n q m keep, Unchanged}"
    by (intro leads_commit tidy_finish staged_ok)
  then show ?thesis by (simp add: operation dir_mut_eq view pdir M(2) doms)
qed

lemma replaceable_facts:
  assumes "check_replaceable inode old = Inr ()"
  shows "i_kind old = Directory \<longleftrightarrow> i_kind inode = Directory" "i_kind old = Directory \<Longrightarrow> i_entries old = []"
  using assms by (auto simp: check_replaceable_def split: if_splits)

lemma rename_move_leads:
  assumes room: "roomy v"
    and p: "map_of (m_inodes (v_meta v)) p = Some parent" "i_kind parent = Directory" "map_of (i_entries parent) n = Some c"
    and q: "map_of (m_inodes (v_meta v)) q = Some target" "i_kind target = Directory" "map_of (i_entries target) m = found" "found \<noteq> Some c"
    and c: "map_of (m_inodes (v_meta v)) c = Some inode" "\<not> below_or_self (ns_of (m_inodes (v_meta v))) c q"
  shows "leads anyhow v (\<lambda>commit. rename_move commit e p n q m uid keep c inode found) v {Moved p n q m keep, Unchanged}"
  unfolding rename_move_def validate_candidate_def
proof (intro leads_check, goal_cases)
  case (1 replaced)
  let ?X = "m_inodes (v_meta v)"
  let ?N = "ns_of ?X"
  have l: "lk ?N (p, n) = Some c" "lk ?N (q, m) = found" using p q by (simp_all add: ns_of_simps)
  have dirs: "is_dir ?N q" "is_dir ?N c \<longleftrightarrow> i_kind inode = Directory" using q c by (auto simp: is_dir_of)
  have qc: "lk ?N (q, m) \<noteq> Some c" using l(2) q(4) by simp
  note inv = roomyD(2) [OF room] and lim = roomyD(3) [OF room]
  note go = move_commit_leads [OF room l(1) dirs(2,1) qc c(2)]
  show ?case
  proof (cases found)
    case None
    then have r: "replaced = None" using 1(1) by (simp add: find_replaced_def)
    have "drop_entry q m keep ?N = ?N" using l(2) None by (simp add: drop_entry_def)
    moreover have "remove_replaced e q m keep replaced v = (v, Inr [])" by (simp add: r remove_replaced_def sret_def)
    ultimately show ?thesis
      using l(2) None inv lim by (elim leads_run) (rule go; simp)
  next
    case (Some d)
    then obtain old where old: "map_of ?X d = Some old" "check_replaceable inode old = Inr ()" "replaced = Some (d, old)"
      using 1(1) by (auto simp: find_replaced_def rbind_eq_Inr_iff get_inode_eq)
    note rep = replaceable_facts [OF old(2)]
    have over: "is_dir ?N x = is_dir ?N c \<and> (is_dir ?N x \<longrightarrow> empty_dir ?N x)" if "lk ?N (q, m) = Some x" for x
    proof -
      have "x = d" using that l(2) Some by simp
      then show ?thesis using old(1) dirs(2) rep by (auto simp: is_dir_of empty_dir_def ns_of_simps)
    qed
    have qd: "map_of (i_entries target) m = Some d" using q(3) Some by simp
    let ?w1 = "on_inode q (remove_entry m) v"
    show ?thesis
    proof (cases "i_kind old = Directory")
      case True
      let ?w = "on_inode q dir_link_down (on_inodes (bt_remove d) ?w1)"
      have "table_inv (m_inodes (v_meta ?w)) \<and> ns_of (m_inodes (v_meta ?w)) = drop_entry q m keep ?N"
        by (rule dropped_dir [OF inv q(1,2) qd old(1) True rep(2) [OF True] touch_keeps]) simp
      moreover have "below_limit (m_inodes (v_meta ?w))"
        by (rule drop_below_limit [OF lim]) (fastforce simp: view split: if_splits)
      moreover have "dom (map_of (m_inodes (v_meta ?w))) \<subseteq> dom (map_of ?X)" by auto
      moreover have "remove_replaced e q m keep replaced v = (?w, Inr [])"
        using True by (simp add: old(3) remove_replaced_def dir_mut_eq dirs(1) smodify_def sret_def sbind_def)
      ultimately show ?thesis by (elim leads_run) (rule go [OF over]; simp)
    next
      case False
      have keep_id: "keeps_tree (\<lambda>x. x)" "keeps_links (\<lambda>x. x)" "keeps_shape (\<lambda>x. x)"
        by (simp_all add: keeps_tree_def keeps_links_def keeps_shape_def)
      have id: "m_inodes (v_meta ?w1) = bt_update q (\<lambda>x. x) (bt_update q (remove_entry m) ?X)"
        using inv by (intro bt_ext) (auto simp: bt_get_update table_inv_def table_ok_def fun_eq_iff option.map_ident)
      obtain w blocks where w: "unlink_child e d keep ?w1 = (w, Inr blocks)" "base w = base ?w1"
        "m_next_inode (v_meta w) = m_next_inode (v_meta ?w1)" "table_inv (m_inodes (v_meta w))"
        "ns_of (m_inodes (v_meta w)) = drop_entry q m keep ?N" "dom (map_of (m_inodes (v_meta w))) \<subseteq> dom (map_of ?X)"
        "\<And>i x. nlinks (m_inodes (v_meta w)) i = Some x \<Longrightarrow> \<exists>y. nlinks ?X i = Some y \<and> x \<le> y"
        using dropped_file [OF inv q(1,2) qd old(1) False id keep_id, of e keep] by metis
      have "below_limit (m_inodes (v_meta w))" by (rule drop_below_limit [OF lim]) (use w(7) in blast)
      moreover have "remove_replaced e q m keep replaced v = (w, Inr blocks)"
        using False w(1) by (simp add: old(3) remove_replaced_def dir_mut_eq dirs(1) sbind_def)
      ultimately show ?thesis using w by (elim leads_run) (rule go [OF over]; simp)
    qed
  qed
qed

definition rename_changes :: "inode_id \<Rightarrow> string \<Rightarrow> inode_id \<Rightarrow> string \<Rightarrow> rename_policy \<Rightarrow> ns_change set" where
  "rename_changes p n q m policy =
     (if po_exchange policy then {Exchanged p n q m} else {Moved p n q m (po_preserve_replaced_inode policy), Unchanged})"

lemma rename_leads:
  assumes room: "roomy v"
  shows "leads anyhow v (\<lambda>commit. rename_locked commit e p n q m policy) v (rename_changes p n q m policy)"
  unfolding rename_locked_def Let_def
proof (intro leads_check leads_if leads_throw leads_ret, goal_cases)
  case (5 _ _ inode child child_inode _ _ _ target)
  show ?case using 5
    by (simp add: rename_changes_def)
      (intro exchange_leads [OF room]; simp add: dir_inode_eq ok_or_eq get_inode_eq not_into_itself_eq [OF roomyD(2) [OF room]] split: if_splits)
next
  case (6 _ _ inode child child_inode _ _ _ target)
  show ?case using 6
    by (simp add: rename_changes_def)
      (intro rename_move_leads [OF room]; simp add: dir_inode_eq ok_or_eq get_inode_eq not_into_itself_eq [OF roomyD(2) [OF room]] split: if_splits)
qed (simp_all add: rename_changes_def)

end
