(* ===== verification/Argos_Attributes.thy ===== *)
theory Argos_Attributes
  imports Argos_Namespace
begin

text \<open>
  The operations of \<open>src/volume/namespace.rs\<close> on the attributes of an inode: mode, owner, times, extended
  attributes, access control lists and directory quotas. Those that change an inode check, change it and
  commit, like the operations on the namespace.
\<close>

section \<open>Changing one inode\<close>

text \<open>Look the inode up, let \<open>change\<close> check it and compute the new one, store it, commit.\<close>

definition change_inode :: "commit \<Rightarrow> inode_id \<Rightarrow> (inode \<Rightarrow> inode result) \<Rightarrow> string \<Rightarrow> json \<Rightarrow> unit vop" where
  "change_inode commit ino change action details =
     sbind (sread ensure_block_backend_writable_locked) (\<lambda>_.
     sbind (sread (\<lambda>v. get_inode (v_meta v) ino)) (\<lambda>inode.
     sbind (sread (\<lambda>_. change inode)) (\<lambda>inode'.
     sbind (smodify (on_inode ino (\<lambda>_. inode'))) (\<lambda>_.
     commit None action details))))"

text \<open>\<open>caller\<close> is the uid and the groups of the caller, or \<open>None\<close> for a trusted one.\<close>

type_synonym caller = "(32 word \<times> 32 word list) option"

definition effective_chmod :: "inode \<Rightarrow> 32 word \<Rightarrow> caller \<Rightarrow> 32 word result" where
  "effective_chmod inode mode caller =
     (let effective_mode = mode AND 0xFFF
      in case caller of
           None \<Rightarrow> Inr effective_mode
         | Some (uid, gids) \<Rightarrow>
             if uid \<noteq> 0 \<and> uid \<noteq> i_uid inode then Inl PermissionDenied
             else if uid \<noteq> 0 \<and> effective_mode AND S_ISGID \<noteq> 0 \<and> i_gid inode \<notin> set gids then Inr (effective_mode AND NOT S_ISGID)
             else Inr effective_mode)"

definition chmod_inode_checked :: "commit \<Rightarrow> venv \<Rightarrow> inode_id \<Rightarrow> 32 word \<Rightarrow> caller \<Rightarrow> node_attr vop" where
  "chmod_inode_checked commit e ino mode caller =
     sbind (sread ensure_block_backend_writable_locked) (\<lambda>_.
     sbind (sread (\<lambda>v. get_inode (v_meta v) ino)) (\<lambda>inode.
     sbind (sread (\<lambda>_. effective_chmod inode mode caller)) (\<lambda>effective_mode.
     sbind (smodify (on_inode ino (\<lambda>inode. inode\<lparr>i_mode := (i_mode inode AND NOT 0xFFF) OR effective_mode,
              i_posix_acl_access := map_option (\<lambda>acl. apply_mode_to_access_acl acl effective_mode) (i_posix_acl_access inode),
              i_ctime := ve_now e\<rparr>))) (\<lambda>_.
     sbind (commit None ''chmod'' (JObject [(''inode'', jnum ino), (''mode'', jnum (unat effective_mode))])) (\<lambda>_.
     sread (attr_inode ino))))))"

definition chmod_inode :: "commit \<Rightarrow> venv \<Rightarrow> inode_id \<Rightarrow> 32 word \<Rightarrow> node_attr vop" where
  "chmod_inode commit e ino mode = chmod_inode_checked commit e ino mode None"

definition chmod_inode_as :: "commit \<Rightarrow> venv \<Rightarrow> inode_id \<Rightarrow> 32 word \<Rightarrow> 32 word \<Rightarrow> 32 word list \<Rightarrow> node_attr vop" where
  "chmod_inode_as commit e ino mode uid gids = chmod_inode_checked commit e ino mode (Some (uid, gids))"

definition chmod_path :: "commit \<Rightarrow> venv \<Rightarrow> string \<Rightarrow> 32 word \<Rightarrow> unit vop" where
  "chmod_path commit e path mode =
     sbind (sread (resolve_path e path True)) (\<lambda>ino. sbind (chmod_inode commit e ino mode) (\<lambda>_. sret ()))"

definition check_chown :: "inode \<Rightarrow> 32 word option \<Rightarrow> 32 word option \<Rightarrow> caller \<Rightarrow> unit result" where
  "check_chown inode uid gid caller =
     (case caller of
        None \<Rightarrow> Inr ()
      | Some (caller_uid, caller_gids) \<Rightarrow>
          if caller_uid = 0 then Inr ()
          else if caller_uid \<noteq> i_uid inode then Inl PermissionDenied
          else if (case uid of Some u \<Rightarrow> u \<noteq> i_uid inode | None \<Rightarrow> False) then Inl PermissionDenied
          else if (case gid of Some g \<Rightarrow> g \<notin> set caller_gids | None \<Rightarrow> False) then Inl PermissionDenied
          else Inr ())"

definition opt_num :: "32 word option \<Rightarrow> json" where
  "opt_num x = (case x of Some n \<Rightarrow> jnum (unat n) | None \<Rightarrow> JNull)"

definition chown_inode_checked ::
  "commit \<Rightarrow> venv \<Rightarrow> inode_id \<Rightarrow> 32 word option \<Rightarrow> 32 word option \<Rightarrow> caller \<Rightarrow> node_attr vop" where
  "chown_inode_checked commit e ino uid gid caller =
     sbind (sread ensure_block_backend_writable_locked) (\<lambda>_.
     sbind (sread (\<lambda>v. get_inode (v_meta v) ino)) (\<lambda>inode.
     if uid = None \<and> gid = None then sread (attr_inode ino)
     else
       sbind (sread (\<lambda>_. check_chown inode uid gid caller)) (\<lambda>_.
       sbind (smodify (on_inode ino (\<lambda>inode. inode\<lparr>
                i_uid := (case uid of Some u \<Rightarrow> u | None \<Rightarrow> i_uid inode), i_gid := (case gid of Some g \<Rightarrow> g | None \<Rightarrow> i_gid inode),
                i_mode := i_mode inode AND NOT (0x800 OR S_ISGID), i_ctime := ve_now e\<rparr>))) (\<lambda>_.
       sbind (commit None ''chown'' (JObject [(''gid'', opt_num gid), (''inode'', jnum ino), (''uid'', opt_num uid)])) (\<lambda>_.
       sread (attr_inode ino))))))"

definition chown_inode :: "commit \<Rightarrow> venv \<Rightarrow> inode_id \<Rightarrow> 32 word option \<Rightarrow> 32 word option \<Rightarrow> node_attr vop" where
  "chown_inode commit e ino uid gid = chown_inode_checked commit e ino uid gid None"

definition chown_inode_as ::
  "commit \<Rightarrow> venv \<Rightarrow> inode_id \<Rightarrow> 32 word option \<Rightarrow> 32 word option \<Rightarrow> 32 word \<Rightarrow> 32 word list \<Rightarrow> node_attr vop" where
  "chown_inode_as commit e ino uid gid caller_uid caller_gids = chown_inode_checked commit e ino uid gid (Some (caller_uid, caller_gids))"

definition utimens_inode :: "commit \<Rightarrow> venv \<Rightarrow> inode_id \<Rightarrow> f64 \<Rightarrow> f64 \<Rightarrow> node_attr vop" where
  "utimens_inode commit e ino atime mtime =
     sbind (change_inode commit ino (\<lambda>inode. Inr (inode\<lparr>i_atime := atime, i_mtime := mtime, i_ctime := ve_now e\<rparr>)) ''utimens''
       (JObject [(''atime'', JNumber (Float atime)), (''inode'', jnum ino), (''mtime'', JNumber (Float mtime))])) (\<lambda>_.
     sread (attr_inode ino))"

section \<open>Extended attributes\<close>

definition parse_nfs4_acl_json :: "venv \<Rightarrow> string \<Rightarrow> nfs4_acl result" where
  "parse_nfs4_acl_json e spec = (if trim spec = [] then Inr \<lparr>n_entries = []\<rparr> else ok_or Json (ve_nfs4_parse e spec))"

definition access_acl_name :: "string \<Rightarrow> bool" where
  "access_acl_name name \<longleftrightarrow> name = POSIX_ACL_ACCESS_XATTR \<or> name = ARGOS_POSIX_ACL_ACCESS_XATTR"

definition default_acl_name :: "string \<Rightarrow> bool" where
  "default_acl_name name \<longleftrightarrow> name = POSIX_ACL_DEFAULT_XATTR \<or> name = ARGOS_POSIX_ACL_DEFAULT_XATTR"

definition set_xattr :: "venv \<Rightarrow> string \<Rightarrow> 8 word list \<Rightarrow> inode \<Rightarrow> inode result" where
  "set_xattr e name bytes inode =
     (if access_acl_name name
      then (if is_empty_posix_acl_xattr bytes then Inr (inode\<lparr>i_posix_acl_access := None\<rparr>)
            else rbind (parse_posix_acl_xattr bytes) (\<lambda>acl.
                   Inr (inode\<lparr>i_mode := mode_from_access_acl acl (i_mode inode), i_posix_acl_access := Some acl\<rparr>)))
      else if default_acl_name name
      then (if is_empty_posix_acl_xattr bytes then Inr (inode\<lparr>i_posix_acl_default := None\<rparr>)
            else if i_kind inode \<noteq> Directory then Inl Invalid
            else rbind (parse_posix_acl_xattr bytes) (\<lambda>acl. Inr (inode\<lparr>i_posix_acl_default := Some acl\<rparr>)))
      else if name = NFS4_ACL_XATTR
      then rbind (ok_or Invalid (from_utf8 bytes)) (\<lambda>spec.
           rbind (parse_nfs4_acl_json e spec) (\<lambda>acl. Inr (inode\<lparr>i_nfs4_acl := Some acl\<rparr>)))
      else if name = BOOT_CRITICAL_XATTR
      then rbind (ok_or Invalid (from_utf8 bytes)) (\<lambda>flag.
             let boot = List.member [''1'', ''true'', ''yes'', ''on''] (trim flag)
             in Inr (inode\<lparr>i_boot_critical := boot, i_storage_class := (if boot then Hot else i_storage_class inode)\<rparr>))
      else Inr (inode\<lparr>i_xattrs := bt_insert name (hx_encode (ve_hex e) bytes) (i_xattrs inode)\<rparr>))"

definition setxattr_inode_unchecked :: "commit \<Rightarrow> venv \<Rightarrow> inode_id \<Rightarrow> string \<Rightarrow> 8 word list \<Rightarrow> unit vop" where
  "setxattr_inode_unchecked commit e ino name bytes =
     change_inode commit ino (\<lambda>inode. rbind (set_xattr e name bytes inode) (\<lambda>inode. Inr (inode\<lparr>i_ctime := ve_now e\<rparr>))) ''setxattr''
       (JObject [(''bytes'', jnum (length bytes)), (''inode'', jnum ino), (''name'', JString name)])"

definition setxattr_inode :: "commit \<Rightarrow> venv \<Rightarrow> inode_id \<Rightarrow> string \<Rightarrow> 8 word list \<Rightarrow> unit vop" where
  "setxattr_inode commit e ino name bytes =
     sbind (sread (\<lambda>_. validate_xattr_write name)) (\<lambda>_. setxattr_inode_unchecked commit e ino name bytes)"

definition importxattr_inode :: "commit \<Rightarrow> venv \<Rightarrow> inode_id \<Rightarrow> string \<Rightarrow> 8 word list \<Rightarrow> unit vop" where
  "importxattr_inode commit e ino name bytes =
     sbind (sread (\<lambda>_. xattr_namespace_of name)) (\<lambda>_. setxattr_inode_unchecked commit e ino name bytes)"

definition get_xattr :: "venv \<Rightarrow> string \<Rightarrow> inode \<Rightarrow> 8 word list result" where
  "get_xattr e name inode =
     (if name = POSIX_ACL_ACCESS_XATTR then rbind (ok_or NotFound (i_posix_acl_access inode)) (\<lambda>acl. Inr (posix_acl_to_xattr acl))
      else if name = POSIX_ACL_DEFAULT_XATTR then rbind (ok_or NotFound (i_posix_acl_default inode)) (\<lambda>acl. Inr (posix_acl_to_xattr acl))
      else if name = ARGOS_POSIX_ACL_ACCESS_XATTR
      then rbind (ok_or NotFound (i_posix_acl_access inode)) (\<lambda>acl. Inr (str_bytes (format_posix_acl acl)))
      else if name = ARGOS_POSIX_ACL_DEFAULT_XATTR
      then rbind (ok_or NotFound (i_posix_acl_default inode)) (\<lambda>acl. Inr (str_bytes (format_posix_acl acl)))
      else if name = NFS4_ACL_XATTR then rbind (ok_or NotFound (i_nfs4_acl inode)) (\<lambda>acl. Inr (str_bytes (ve_nfs4_print e acl)))
      else if name = BOOT_CRITICAL_XATTR then (if i_boot_critical inode then Inr (str_bytes ''1'') else Inl NotFound)
      else rbind (ok_or NotFound (map_of (i_xattrs inode) name)) (\<lambda>stored. ok_or Invalid (hx_decode (ve_hex e) stored)))"

definition getxattr_inode :: "venv \<Rightarrow> inode_id \<Rightarrow> string \<Rightarrow> volume \<Rightarrow> 8 word list result" where
  "getxattr_inode e ino name v =
     rbind (validate_xattr_read name) (\<lambda>_. rbind (get_inode (v_meta v) ino) (get_xattr e name))"

definition listxattr_inode :: "inode_id \<Rightarrow> volume \<Rightarrow> string list result" where
  "listxattr_inode ino v =
     rbind (get_inode (v_meta v) ino) (\<lambda>inode.
       let stored = filter (\<lambda>name. is_ok (xattr_namespace_of name)) (map fst (i_xattrs inode));
           names = (if i_posix_acl_access inode \<noteq> None
                    then bs_insert ARGOS_POSIX_ACL_ACCESS_XATTR (bs_insert POSIX_ACL_ACCESS_XATTR stored) else stored);
           names = (if i_posix_acl_default inode \<noteq> None
                    then bs_insert ARGOS_POSIX_ACL_DEFAULT_XATTR (bs_insert POSIX_ACL_DEFAULT_XATTR names) else names);
           names = (if i_nfs4_acl inode \<noteq> None then bs_insert NFS4_ACL_XATTR names else names)
       in Inr (if i_boot_critical inode then bs_insert BOOT_CRITICAL_XATTR names else names))"

definition drop_xattr :: "string \<Rightarrow> inode \<Rightarrow> inode result" where
  "drop_xattr name inode =
     (if access_acl_name name
      then (if i_posix_acl_access inode = None then Inl NotFound else Inr (inode\<lparr>i_posix_acl_access := None\<rparr>))
      else if default_acl_name name
      then (if i_posix_acl_default inode = None then Inl NotFound else Inr (inode\<lparr>i_posix_acl_default := None\<rparr>))
      else if name = NFS4_ACL_XATTR then (if i_nfs4_acl inode = None then Inl NotFound else Inr (inode\<lparr>i_nfs4_acl := None\<rparr>))
      else if name = BOOT_CRITICAL_XATTR then (if i_boot_critical inode then Inr (inode\<lparr>i_boot_critical := False\<rparr>) else Inl NotFound)
      else if map_of (i_xattrs inode) name = None then Inl NotFound else Inr (inode\<lparr>i_xattrs := bt_remove name (i_xattrs inode)\<rparr>))"

definition removexattr_inode :: "commit \<Rightarrow> venv \<Rightarrow> inode_id \<Rightarrow> string \<Rightarrow> unit vop" where
  "removexattr_inode commit e ino name =
     sbind (sread (\<lambda>_. validate_xattr_write name)) (\<lambda>_.
     change_inode commit ino (\<lambda>inode. rbind (drop_xattr name inode) (\<lambda>inode. Inr (inode\<lparr>i_ctime := ve_now e\<rparr>))) ''removexattr''
       (JObject [(''inode'', jnum ino), (''name'', JString name)]))"

section \<open>Access control lists\<close>

definition set_posix_acl_path :: "commit \<Rightarrow> venv \<Rightarrow> string \<Rightarrow> bool \<Rightarrow> posix_acl \<Rightarrow> unit vop" where
  "set_posix_acl_path commit e path default_acl acl =
     sbind (sread (\<lambda>_. validate_posix_acl acl)) (\<lambda>_.
     sbind (sread (resolve_path e path False)) (\<lambda>ino.
     change_inode commit ino (\<lambda>inode.
       if default_acl \<and> i_kind inode \<noteq> Directory then Inl Invalid
       else Inr ((if default_acl then inode\<lparr>i_posix_acl_default := Some acl\<rparr>
                  else inode\<lparr>i_mode := mode_from_access_acl acl (i_mode inode), i_posix_acl_access := Some acl\<rparr>)\<lparr>i_ctime := ve_now e\<rparr>))
       ''set-posix-acl'' (JObject [(''default'', JBool default_acl), (''inode'', jnum ino), (''path'', JString path)])))"

definition get_posix_acl_path :: "venv \<Rightarrow> string \<Rightarrow> bool \<Rightarrow> volume \<Rightarrow> posix_acl option result" where
  "get_posix_acl_path e path default_acl v =
     rbind (resolve_path e path False v) (\<lambda>ino. rbind (get_inode (v_meta v) ino) (\<lambda>inode.
       Inr (if default_acl then i_posix_acl_default inode else i_posix_acl_access inode)))"

definition set_nfs4_acl_path :: "commit \<Rightarrow> venv \<Rightarrow> string \<Rightarrow> nfs4_acl \<Rightarrow> unit vop" where
  "set_nfs4_acl_path commit e path acl =
     sbind (sread (resolve_path e path False)) (\<lambda>ino.
     change_inode commit ino (\<lambda>inode. Inr (inode\<lparr>i_nfs4_acl := Some acl, i_ctime := ve_now e\<rparr>)) ''set-nfs4-acl''
       (JObject [(''inode'', jnum ino), (''path'', JString path)]))"

definition get_nfs4_acl_path :: "venv \<Rightarrow> string \<Rightarrow> volume \<Rightarrow> nfs4_acl option result" where
  "get_nfs4_acl_path e path v =
     rbind (resolve_path e path False v) (\<lambda>ino. rbind (get_inode (v_meta v) ino) (\<lambda>inode. Inr (i_nfs4_acl inode)))"

definition check_access_inode_with_groups :: "inode_id \<Rightarrow> 32 word \<Rightarrow> 32 word list \<Rightarrow> 32 word \<Rightarrow> volume \<Rightarrow> unit result" where
  "check_access_inode_with_groups ino uid gids want v =
     rbind (get_inode (v_meta v) ino) (\<lambda>inode.
       if evaluate_access_with_groups inode uid gids want then Inr () else Inl PermissionDenied)"

definition check_access_inode :: "inode_id \<Rightarrow> 32 word \<Rightarrow> 32 word \<Rightarrow> 32 word \<Rightarrow> volume \<Rightarrow> unit result" where
  "check_access_inode ino uid gid want = check_access_inode_with_groups ino uid [gid] want"

section \<open>Directory quotas\<close>

definition directory_quota :: "venv \<Rightarrow> string \<Rightarrow> volume \<Rightarrow> (nat option \<times> nat) result" where
  "directory_quota e path v =
     rbind (resolve_path e path True v) (\<lambda>ino.
     rbind (dir_inode_locked (v_meta v) ino) (\<lambda>inode.
     rbind (subtree_logical_usage_locked (v_meta v) ino) (\<lambda>used. Inr (i_quota_bytes inode, used))))"

definition restore_on_error :: "metadata option \<Rightarrow> argos_error \<Rightarrow> volume \<Rightarrow> volume" where
  "restore_on_error rollback err v =
     (if \<not> transaction_error_is_committed err then (case rollback of Some meta \<Rightarrow> v\<lparr>v_meta := meta\<rparr> | None \<Rightarrow> v) else v)"

definition store_quota :: "commit \<Rightarrow> venv \<Rightarrow> inode_id \<Rightarrow> nat option \<Rightarrow> string \<Rightarrow> json \<Rightarrow> unit vop" where
  "store_quota commit e ino limit action details =
     sbind (sread (\<lambda>v. Inr (commit_previous_snapshot (v_meta v)))) (\<lambda>rollback.
     sbind (dir_inode_mut_locked ino (\<lambda>inode. inode\<lparr>i_quota_bytes := limit, i_ctime := ve_now e\<rparr>)) (\<lambda>_.
     sbind (son_error (commit rollback action details) (restore_on_error rollback)) (\<lambda>_.
     rebuild_quota_runtime_locked)))"

definition set_directory_quota :: "commit \<Rightarrow> venv \<Rightarrow> string \<Rightarrow> nat \<Rightarrow> unit vop" where
  "set_directory_quota commit e path limit =
     sbind (sread ensure_block_backend_writable_locked) (\<lambda>_.
     sbind (sread (resolve_path e path True)) (\<lambda>ino.
     sbind (sread (\<lambda>v. dir_inode_locked (v_meta v) ino)) (\<lambda>_.
     sbind (sread (\<lambda>v. subtree_logical_usage_locked (v_meta v) ino)) (\<lambda>used.
     if used > limit then sthrow (QuotaExceeded ino used limit)
     else store_quota commit e ino (Some limit) ''set-directory-quota''
            (JObject [(''inode'', jnum ino), (''limit'', jnum limit), (''path'', JString path), (''used'', jnum used)])))))"

definition clear_directory_quota :: "commit \<Rightarrow> venv \<Rightarrow> string \<Rightarrow> unit vop" where
  "clear_directory_quota commit e path =
     sbind (sread ensure_block_backend_writable_locked) (\<lambda>_.
     sbind (sread (resolve_path e path True)) (\<lambda>ino.
     sbind (sread (\<lambda>v. dir_inode_locked (v_meta v) ino)) (\<lambda>_.
     store_quota commit e ino None ''clear-directory-quota'' (JObject [(''inode'', jnum ino), (''path'', JString path)]))))"

end
