(* ===== verification/Argos_Requests.thy ===== *)
theory Argos_Requests
  imports Argos_Atomic Argos_Attributes
begin

text \<open>
  The requests a volume serves, as data, and the changes of the namespace each of them may make. Every request
  leads to its changes around one commit, in the sense of \<open>Argos_Atomic\<close>.
\<close>

section \<open>Requests\<close>

datatype (plugins only:) request =
    Mkdir string "32 word"
  | Mkdir_At inode_id "8 word list" "32 word" "32 word" "32 word"
  | Mknod string "32 word" nat
  | Mknod_At inode_id "8 word list" "32 word" nat "32 word" "32 word"
  | Create_File string "32 word"
  | Create_File_At inode_id "8 word list" "32 word" "32 word" "32 word"
  | Symlink_Path string string
  | Symlink_At inode_id "8 word list" "8 word list" "32 word" "32 word"
  | Link_At inode_id inode_id "8 word list"
  | Unlink string
  | Unlink_At inode_id "8 word list" "32 word"
  | Unlink_Open inode_id "8 word list" "32 word"
  | Rmdir string
  | Rmdir_At inode_id "8 word list" "32 word"
  | Rename string string
  | Rename_At inode_id "8 word list" inode_id "8 word list" rename_policy
  | Reap inode_id
  | Chmod inode_id "32 word" caller
  | Chown inode_id "32 word option" "32 word option" caller
  | Utimens inode_id f64 f64
  | Set_Xattr inode_id string "8 word list"
  | Import_Xattr inode_id string "8 word list"
  | Remove_Xattr inode_id string
  | Set_Posix_Acl string bool posix_acl
  | Set_Nfs4_Acl string nfs4_acl
  | Set_Quota string nat
  | Clear_Quota string

definition silently :: "'a vop \<Rightarrow> unit vop" where
  "silently c = sbind c (\<lambda>_. sret ())"

fun perform :: "commit \<Rightarrow> venv \<Rightarrow> request \<Rightarrow> unit vop" where
  "perform c e (Mkdir path mode) = silently (mkdir c e path mode)"
| "perform c e (Mkdir_At p n mode uid gid) = silently (mkdir_at_with_owner c e p n mode uid gid)"
| "perform c e (Mknod path mode rdev) = silently (mknod_path c e path mode rdev)"
| "perform c e (Mknod_At p n mode rdev uid gid) = silently (mknod_at_with_owner c e p n mode rdev uid gid)"
| "perform c e (Create_File path mode) = silently (create_file_path c e path mode)"
| "perform c e (Create_File_At p n mode uid gid) = silently (create_file_at_with_owner c e p n mode uid gid)"
| "perform c e (Symlink_Path target path) = symlink_path c e target path"
| "perform c e (Symlink_At p n target uid gid) = silently (symlink_at_with_owner c e p n target uid gid)"
| "perform c e (Link_At ino p n) = silently (link_at c e ino p n)"
| "perform c e (Unlink path) = unlink_path c e path"
| "perform c e (Unlink_At p n uid) = unlink_at_as c e p n uid"
| "perform c e (Unlink_Open p n uid) = unlink_at_as_preserving_open c e p n uid"
| "perform c e (Rmdir path) = rmdir_path c e path"
| "perform c e (Rmdir_At p n uid) = rmdir_at_as c e p n uid"
| "perform c e (Rename old new) = rename_path c e old new"
| "perform c e (Rename_At p n q m policy) = rename_at_with_policy c e p n q m policy"
| "perform c e (Reap ino) = reap_unlinked_inode c e ino"
| "perform c e (Chmod ino mode who) = silently (chmod_inode_checked c e ino mode who)"
| "perform c e (Chown ino uid gid who) = silently (chown_inode_checked c e ino uid gid who)"
| "perform c e (Utimens ino atime mtime) = silently (utimens_inode c e ino atime mtime)"
| "perform c e (Set_Xattr ino name bytes) = setxattr_inode c e ino name bytes"
| "perform c e (Import_Xattr ino name bytes) = importxattr_inode c e ino name bytes"
| "perform c e (Remove_Xattr ino name) = removexattr_inode c e ino name"
| "perform c e (Set_Posix_Acl path default_acl acl) = set_posix_acl_path c e path default_acl acl"
| "perform c e (Set_Nfs4_Acl path acl) = set_nfs4_acl_path c e path acl"
| "perform c e (Set_Quota path limit) = set_directory_quota c e path limit"
| "perform c e (Clear_Quota path) = clear_directory_quota c e path"

section \<open>What a request may change\<close>

definition named :: "venv \<Rightarrow> volume \<Rightarrow> string \<Rightarrow> (inode_id \<times> string) set" where
  "named e v path = {pn. parent_of_path e path v = (v, Inr pn)}"

definition os_named :: "venv \<Rightarrow> inode_id \<Rightarrow> 8 word list \<Rightarrow> (inode_id \<times> string) set" where
  "os_named e p os_name = {(p, n) |n. entry_name_from_os (ve_hex e) os_name = Inr n}"

definition creating :: "volume \<Rightarrow> (node_kind \<Rightarrow> bool) \<Rightarrow> (inode_id \<times> string) set \<Rightarrow> ns_change set" where
  "creating v kinds places = {Created p n (m_next_inode (v_meta v)) kind |p n kind. (p, n) \<in> places \<and> kinds kind}"

definition dropping :: "bool \<Rightarrow> (inode_id \<times> string) set \<Rightarrow> ns_change set" where
  "dropping keep places = {Dropped p n keep |p n. (p, n) \<in> places}"

definition renaming :: "rename_policy \<Rightarrow> (inode_id \<times> string) set \<Rightarrow> (inode_id \<times> string) set \<Rightarrow> ns_change set" where
  "renaming policy places target = (\<Union>(p, n) \<in> places. \<Union>(q, m) \<in> target. rename_changes p n q m policy)"

fun changes :: "venv \<Rightarrow> volume \<Rightarrow> request \<Rightarrow> ns_change set" where
  "changes e v (Mkdir path mode) = creating v (\<lambda>k. k = Directory) (named e v path)"
| "changes e v (Mkdir_At p n mode uid gid) = creating v (\<lambda>k. k = Directory) (os_named e p n)"
| "changes e v (Mknod path mode rdev) = creating v (\<lambda>k. mknod_kind mode rdev = Inr k) (named e v path)"
| "changes e v (Mknod_At p n mode rdev uid gid) = creating v (\<lambda>k. mknod_kind mode rdev = Inr k) (os_named e p n)"
| "changes e v (Create_File path mode) = creating v (\<lambda>k. k = File) (named e v path)"
| "changes e v (Create_File_At p n mode uid gid) = creating v (\<lambda>k. k = File) (os_named e p n)"
| "changes e v (Symlink_Path target path) =
     creating v (\<lambda>k. k = Symlink) {(p, n) |p n d b. parent_name path = Inr (d, b) \<and> resolve_path e d True v = Inr p
       \<and> entry_name_from_os (ve_hex e) (str_bytes b) = Inr n}"
| "changes e v (Symlink_At p n target uid gid) = creating v (\<lambda>k. k = Symlink) (os_named e p n)"
| "changes e v (Link_At ino p n) = {Linked ino q m |q m. (q, m) \<in> os_named e p n}"
| "changes e v (Unlink path) = dropping False (named e v path)"
| "changes e v (Unlink_At p n uid) = dropping False (os_named e p n)"
| "changes e v (Unlink_Open p n uid) = dropping True (os_named e p n)"
| "changes e v (Rmdir path) = dropping False (named e v path)"
| "changes e v (Rmdir_At p n uid) = dropping False (os_named e p n)"
| "changes e v (Rename old new) = renaming default_policy (named e v old) (named e v new)"
| "changes e v (Rename_At p n q m policy) = renaming policy (os_named e p n) (os_named e q m)"
| "changes e v (Reap ino) = {Reaped ino, Unchanged}"
| "changes e v _ = {Unchanged}"

section \<open>Around the commit\<close>

text \<open>What is done with the result of an operation that commits.\<close>

lemma leads_bind:
  assumes F: "leads R v F w C" and "Unchanged \<notin> C"
    and g: "\<And>v1 x. staged v C v1 \<Longrightarrow> R x \<Longrightarrow> tidy Q v1 (\<lambda>_. g x)"
  shows "leads Q v (\<lambda>commit. sbind (F commit) g) w C"
  unfolding leads_def
proof
  fix commit
  consider err where "F commit w = (v, Inl err)"
    | v1 p a d h k where "staged v C v1" "harmless v h" "tidy R v1 k" "F commit w = sbind (son_error (commit p a d) h) k v1"
    using F assms(2) unfolding leads_def by blast
  then show "(\<exists>err. sbind (F commit) g w = (v, Inl err)) \<or> (\<exists>x. sbind (F commit) g w = (v, Inr x) \<and> Q x \<and> Unchanged \<in> C)
     \<or> (\<exists>v1 p a d h k. staged v C v1 \<and> harmless v h \<and> tidy Q v1 k \<and> sbind (F commit) g w = sbind (son_error (commit p a d) h) k v1)"
  proof cases
    case 1
    then show ?thesis by (simp add: sbind_def)
  next
    case (2 v1 p a d h k)
    have "tidy Q v1 (\<lambda>u. sbind (k u) g)"
    proof (rule tidyI)
      fix w1 assume w1: "tab w1 = tab v1"
      then obtain w2 x where k: "k () w1 = (w2, Inr x)" "R x" "tab w2 = tab w1" "base w2 = base w1" using 2(3) by (auto simp: tidy_def)
      moreover obtain w3 y where "g x w2 = (w3, Inr y)" "Q y" "tab w3 = tab w2" "base w3 = base w2"
        using g [OF 2(1) k(2)] w1 k(3) by (fastforce simp: tidy_def)
      ultimately show "\<exists>w' y. sbind (k ()) g w1 = (w', Inr y) \<and> Q y \<and> tab w' = tab w1 \<and> base w' = base w1"
        by (simp add: sbind_def)
    qed
    moreover have "sbind (F commit) g w = sbind (son_error (commit p a d) h) (\<lambda>u. sbind (k u) g) v1"
      using 2(4) by (auto simp: sbind_def split: prod.split sum.split)
    ultimately show ?thesis using 2(1,2) by blast
  qed
qed

lemma silently_leads:
  assumes F: "leads R v F w C"
  shows "leads anyhow v (\<lambda>commit. silently (F commit)) w C"
  unfolding leads_def silently_def
proof
  fix commit
  consider err where "F commit w = (v, Inl err)" | x where "F commit w = (v, Inr x)" "Unchanged \<in> C"
    | v1 p a d h k where "staged v C v1" "harmless v h" "tidy R v1 k" "F commit w = sbind (son_error (commit p a d) h) k v1"
    using F unfolding leads_def by blast
  then show "(\<exists>err. sbind (F commit) (\<lambda>_. sret ()) w = (v, Inl err)) \<or> (\<exists>x. sbind (F commit) (\<lambda>_. sret ()) w = (v, Inr x) \<and> True \<and> Unchanged \<in> C)
     \<or> (\<exists>v1 p a d h k. staged v C v1 \<and> harmless v h \<and> tidy anyhow v1 k \<and> sbind (F commit) (\<lambda>_. sret ()) w = sbind (son_error (commit p a d) h) k v1)"
  proof cases
    case (3 v1 p a d h k)
    have "tidy anyhow v1 (\<lambda>u. sbind (k u) (\<lambda>_. sret ()))"
      using 3(3) by (fastforce simp: tidy_def sbind_def sret_def)
    moreover have "sbind (F commit) (\<lambda>_. sret ()) w = sbind (son_error (commit p a d) h) (\<lambda>u. sbind (k u) (\<lambda>_. sret ())) v1"
      using 3(4) by (auto simp: sbind_def split: prod.split sum.split)
    ultimately show ?thesis using 3(1,2) by blast
  qed (simp_all add: sbind_def sret_def)
qed

text \<open>The attributes of a new inode can be read.\<close>

lemma created_there:
  assumes "staged v {Created p n c kind |kind. K kind} w"
  shows "c \<in> dom (map_of (m_inodes (v_meta w)))"
proof -
  obtain kind where "ns_step ROOT_INO (Created p n c kind) (vns v) (vns w)" using assms by (auto simp: staged_def)
  then have "c \<in> dom (nk (vns w))" by cases (auto simp: add_entry_def)
  then show ?thesis by (simp add: vns_def ns_of_simps)
qed

lemma with_attr_leads:
  assumes "leads ((=) c) v F v {Created p n c kind |kind. K kind}"
  shows "leads anyhow v (\<lambda>commit. sbind (F commit) (\<lambda>ino. sread (attr_inode ino))) v {Created p n c kind |kind. K kind}"
  by (rule leads_bind [OF assms]) (auto intro!: tidy_attr dest: created_there)

section \<open>Attributes\<close>

definition shape :: "inode \<Rightarrow> nat \<times> node_kind \<times> (string, inode_id) btree \<times> 32 word" where
  "shape inode = (i_id inode, i_kind inode, i_entries inode, i_nlink inode)"

lemma same_shape_staged:
  assumes room: "roomy v" and i: "map_of (m_inodes (v_meta v)) ino = Some inode" "shape (f inode) = shape inode"
  shows "staged v {Unchanged} (on_inode ino f v)"
proof -
  let ?g = "\<lambda>x. if x = inode then f inode else x" and ?X = "m_inodes (v_meta v)"
  have X: "bt_update ino f ?X = bt_update ino ?g ?X" using i by (simp add: bt_update_def)
  have g: "keeps_tree ?g" "keeps_links ?g" "keeps_shape ?g"
    using i(2) by (auto simp: keeps_tree_def keeps_links_def keeps_shape_def shape_def)
  have "table_inv (bt_update ino f ?X)" unfolding X by (rule table_inv_keep [OF g roomyD(2) [OF room]])
  moreover have "ns_of (bt_update ino f ?X) = ns_of ?X" unfolding X by (rule ns_update_keeps [OF g(1)])
  ultimately show ?thesis
    using i(1) by (intro stagedI [OF roomyD(1) [OF room]]) (auto simp: bt_get_update intro: ns_step.unchanged)
qed

lemma change_inode_leads:
  assumes room: "roomy v" and keep: "\<And>inode inode'. change inode = Inr inode' \<Longrightarrow> shape inode' = shape inode"
    and k: "\<And>w. ino \<in> dom (map_of (m_inodes (v_meta w))) \<Longrightarrow> tidy anyhow w k"
  shows "leads anyhow v (\<lambda>commit. sbind (change_inode commit ino change action details) k) v {Unchanged}"
proof -
  have eq: "sbind (change_inode commit ino change action details) k =
     sbind (sread ensure_block_backend_writable_locked) (\<lambda>_.
     sbind (sread (\<lambda>v. get_inode (v_meta v) ino)) (\<lambda>inode.
     sbind (sread (\<lambda>_. change inode)) (\<lambda>inode'.
     sbind (smodify (on_inode ino (\<lambda>_. inode'))) (\<lambda>_.
     sbind (commit None action details) k))))" for commit
    by (auto simp: change_inode_def sbind_def sread_def smodify_def fun_eq_iff split: sum.split prod.split)
  show ?thesis unfolding eq
  proof (intro leads_check leads_modify leads_commit)
    fix u inode inode' assume i: "get_inode (v_meta v) ino = Inr inode" "change inode = Inr inode'"
    then have m: "map_of (m_inodes (v_meta v)) ino = Some inode" by (simp add: get_inode_eq)
    show "staged v {Unchanged} (on_inode ino (\<lambda>_. inode') v)" by (rule same_shape_staged [OF room m]) (rule keep [OF i(2)])
    show "tidy anyhow (on_inode ino (\<lambda>_. inode') v) k" by (rule k) (use m in \<open>auto simp: bt_get_update\<close>)
  qed
qed

lemma tidy_unit: "tidy anyhow w (\<lambda>_. sret ())"
  by (rule tidy_ret) simp

lemma plain_change_leads:
  assumes "roomy v" "\<And>inode inode'. change inode = Inr inode' \<Longrightarrow> shape inode' = shape inode"
  shows "leads anyhow v (\<lambda>commit. change_inode commit ino change action details) v {Unchanged}"
proof -
  have "sbind c (\<lambda>u. sret ()) = c" for c :: "unit vop"
    by (auto simp: sbind_def sret_def fun_eq_iff split: prod.split sum.split)
  then show ?thesis
    using change_inode_leads [OF assms, where k = "\<lambda>_. sret ()" and ino = ino and action = action and details = details] tidy_unit
    by simp
qed

lemma result_shape:
  "rbind r (\<lambda>x. Inr (f x)) = Inr inode' \<Longrightarrow> (\<And>x. shape (f x) = shape inode) \<Longrightarrow> shape inode' = shape inode"
  by (auto simp: rbind_eq_Inr_iff)

lemma boot_shape: "shape (inode\<lparr>i_boot_critical := b, i_storage_class := c\<rparr>) = shape inode"
  by (simp add: shape_def)

lemma set_xattr_shape:
  assumes "set_xattr e name bytes inode = Inr inode'"
  shows "shape inode' = shape inode"
proof -
  consider (access) "access_acl_name name" | (default) "\<not> access_acl_name name" "default_acl_name name"
    | (nfs4) "\<not> access_acl_name name" "\<not> default_acl_name name" "name = NFS4_ACL_XATTR"
    | (boot) "\<not> access_acl_name name" "\<not> default_acl_name name" "name \<noteq> NFS4_ACL_XATTR" "name = BOOT_CRITICAL_XATTR"
    | (plain) "\<not> access_acl_name name" "\<not> default_acl_name name" "name \<noteq> NFS4_ACL_XATTR" "name \<noteq> BOOT_CRITICAL_XATTR"
    by blast
  then show ?thesis
  proof cases
    case access
    then show ?thesis using assms by (auto simp: set_xattr_def shape_def rbind_eq_Inr_iff split: if_splits)
  next
    case default
    then show ?thesis using assms by (auto simp: set_xattr_def shape_def rbind_eq_Inr_iff split: if_splits)
  next
    case nfs4
    then show ?thesis using assms by (auto simp: set_xattr_def shape_def rbind_eq_Inr_iff)
  next
    case boot
    then show ?thesis
      using assms unfolding set_xattr_def Let_def
      by (simp only: if_False if_True refl simp_thms) (erule result_shape, rule boot_shape)
  next
    case plain
    then show ?thesis using assms by (auto simp: set_xattr_def shape_def)
  qed
qed

lemma drop_xattr_shape: "drop_xattr name inode = Inr inode' \<Longrightarrow> shape inode' = shape inode"
  by (auto simp: drop_xattr_def shape_def split: if_splits)

lemma ctime_shape [simp]: "shape (inode\<lparr>i_ctime := t\<rparr>) = shape inode"
  by (simp add: shape_def)

lemma setxattr_leads:
  assumes "roomy v"
  shows "leads anyhow v (\<lambda>commit. setxattr_inode_unchecked commit e ino name bytes) v {Unchanged}"
  unfolding setxattr_inode_unchecked_def
  by (rule plain_change_leads [OF assms]) (auto simp: rbind_eq_Inr_iff dest: set_xattr_shape)

lemma acl_shape:
  assumes "(if default_acl \<and> i_kind inode \<noteq> Directory then Inl Invalid
       else Inr ((if default_acl then inode\<lparr>i_posix_acl_default := Some acl\<rparr>
                  else inode\<lparr>i_mode := m, i_posix_acl_access := Some acl\<rparr>)\<lparr>i_ctime := t\<rparr>)) = Inr inode'"
  shows "shape inode' = shape inode"
  using assms by (auto simp: shape_def split: if_splits)

lemma committed_attr_leads:
  assumes room: "roomy v" and i: "map_of (m_inodes (v_meta v)) ino = Some inode" "shape (f inode) = shape inode"
  shows "leads anyhow v (\<lambda>commit. sbind (smodify (on_inode ino f)) (\<lambda>_. sbind (commit None a d) (\<lambda>_. sread (attr_inode ino)))) v {Unchanged}"
  by (intro leads_modify leads_commit same_shape_staged [OF room i(1), where f = f] tidy_attr) (use i in \<open>auto simp: bt_get_update\<close>)

lemma chmod_leads:
  assumes room: "roomy v"
  shows "leads anyhow v (\<lambda>commit. chmod_inode_checked commit e ino mode who) v {Unchanged}"
  unfolding chmod_inode_checked_def
  by (intro leads_check committed_attr_leads [OF room]) (auto simp: get_inode_eq shape_def)

lemma leads_peek: "g v = Inr x \<Longrightarrow> Unchanged \<in> C \<Longrightarrow> leads anyhow v (\<lambda>commit. sread g) v C"
  by (simp add: leads_def sread_def)

lemma chown_leads:
  assumes room: "roomy v"
  shows "leads anyhow v (\<lambda>commit. chown_inode_checked commit e ino uid gid who) v {Unchanged}"
  unfolding chown_inode_checked_def
  by (intro leads_check leads_if committed_attr_leads [OF room] leads_peek) (auto simp: get_inode_eq shape_def attr_inode_def rbind_eq_Inr_iff)

lemma quota_leads:
  assumes room: "roomy v" and d: "dir_inode_locked (v_meta v) ino = Inr inode"
  shows "leads anyhow v (\<lambda>commit. store_quota commit e ino limit action details) v {Unchanged}"
  unfolding store_quota_def
proof (intro leads_check, goal_cases)
  case (1 rollback)
  let ?f = "\<lambda>inode. inode\<lparr>i_quota_bytes := limit, i_ctime := ve_now e\<rparr>"
  have m: "map_of (m_inodes (v_meta v)) ino = Some inode" "i_kind inode = Directory" using d by (simp_all add: dir_inode_eq)
  have st: "staged v {Unchanged} (on_inode ino ?f v)"
    by (rule same_shape_staged [OF room m(1)]) (simp add: shape_def)
  have h: "harmless v (restore_on_error rollback)"
    using 1 by (auto simp: harmless_def restore_on_error_def commit_previous_snapshot_def split: if_splits)
  have run: "dir_inode_mut_locked ino ?f v = (on_inode ino ?f v, Inr ())"
    by (rule dir_mut_eq) (use m in \<open>auto simp: is_dir_of\<close>)
  show ?case using run
    by (elim leads_run) (rule leads_guarded_commit [OF st h], rule tidy_rebuild [OF staged_ok [OF st]])
qed

section \<open>Every request\<close>

lemma leads_named:
  assumes "\<And>p n. (p, n) \<in> named e v path \<Longrightarrow> leads R v (F p n) v C"
  shows "leads R v (\<lambda>commit. sbind (parent_of_path e path) (\<lambda>(p, n). F p n commit)) v C"
proof (cases "parent_of_path e path v")
  case (Pair w r)
  have w: "w = v"
    using Pair by (auto simp: parent_of_path_def sbind_def sread_def sret_def split: sum.splits prod.splits)
  show ?thesis
  proof (cases r)
    case (Inl err)
    then show ?thesis using Pair w by (simp add: leads_def sbind_def)
  next
    case (Inr pn)
    then have "leads R v (F (fst pn) (snd pn)) v C" using Pair w by (intro assms) (simp add: named_def)
    then show ?thesis using Pair w Inr by (simp add: leads_def sbind_def split_beta)
  qed
qed

lemma leads_os:
  assumes "\<And>n. (p, n) \<in> os_named e p os_name \<Longrightarrow> leads R v (F n) v C"
  shows "leads R v (\<lambda>commit. sbind (sread (\<lambda>_. entry_name_from_os (ve_hex e) os_name)) (\<lambda>n. F n commit)) v C"
  by (rule leads_check) (auto intro: assms simp: os_named_def)

lemma mkdir_there:
  assumes "roomy v" "(p, n) \<in> places"
  shows "leads ((=) (m_next_inode (v_meta v))) v (\<lambda>commit. mkdir_locked commit e p n mode uid gid) v
    (creating v (\<lambda>k. k = Directory) places)"
  by (rule leads_mono [OF mkdir_leads [OF assms(1)]]) (use assms(2) in \<open>auto simp: creating_def\<close>)

lemma mknod_there:
  assumes "roomy v" "(p, n) \<in> places" "\<And>k. mknod_kind mode rdev = Inr k \<Longrightarrow> K k"
  shows "leads ((=) (m_next_inode (v_meta v))) v (\<lambda>commit. mknod_locked commit e p n mode rdev uid gid) v (creating v K places)"
  by (rule leads_mono [OF mknod_leads [OF assms(1)]]) (use assms(2,3) in \<open>auto simp: creating_def\<close>)

lemma mkdir_attr_there:
  assumes "roomy v" "(p, n) \<in> places"
  shows "leads anyhow v (\<lambda>commit. sbind (mkdir_locked commit e p n mode uid gid) (\<lambda>ino. sread (attr_inode ino))) v
    (creating v (\<lambda>k. k = Directory) places)"
proof -
  have "leads ((=) (m_next_inode (v_meta v))) v (\<lambda>commit. mkdir_locked commit e p n mode uid gid) v
      {Created p n (m_next_inode (v_meta v)) kind |kind. kind = Directory}"
    by (rule leads_mono [OF mkdir_leads [OF assms(1)]]) auto
  then show ?thesis
    by (rule leads_mono [OF with_attr_leads]) (use assms(2) in \<open>auto simp: creating_def\<close>)
qed

lemma mknod_attr_there:
  assumes "roomy v" "(p, n) \<in> places" "\<And>k. mknod_kind mode rdev = Inr k \<Longrightarrow> K k"
  shows "leads anyhow v (\<lambda>commit. sbind (mknod_locked commit e p n mode rdev uid gid) (\<lambda>ino. sread (attr_inode ino))) v
    (creating v K places)"
  by (rule leads_mono [OF with_attr_leads [OF mknod_leads [OF assms(1)]]]) (use assms(2,3) in \<open>auto simp: creating_def\<close>)

lemma unlink_there:
  assumes "roomy v" "(p, n) \<in> places"
  shows "leads anyhow v (\<lambda>commit. unlink_locked commit e p n dir uid keep) v (dropping keep places)"
  by (rule leads_mono [OF unlink_leads [OF assms(1)]]) (use assms(2) in \<open>auto simp: dropping_def\<close>)

lemma rename_there:
  assumes "roomy v" "(p, n) \<in> places" "(q, m) \<in> targets" "po_exchange policy = po_exchange policy'"
    "po_preserve_replaced_inode policy = po_preserve_replaced_inode policy'"
  shows "leads anyhow v (\<lambda>commit. rename_locked commit e p n q m policy) v (renaming policy' places targets)"
  by (rule leads_mono [OF rename_leads [OF assms(1)]]) (use assms(2-) in \<open>auto simp: renaming_def rename_changes_def\<close>)

lemma regular_kind: "mknod_kind (S_IFREG OR (mode AND 0xFFF)) 0 = Inr k \<Longrightarrow> k = File"
proof -
  have "(S_IFREG OR (mode AND 0xFFF)) AND S_IFMT = S_IFREG"
    by (simp add: bit.conj_disj_distrib2 and.assoc)
  then show "mknod_kind (S_IFREG OR (mode AND 0xFFF)) 0 = Inr k \<Longrightarrow> k = File"
    by (simp add: mknod_kind_def)
qed

lemma leads_check_pair:
  assumes "\<And>a b. g v = Inr (a, b) \<Longrightarrow> leads R v (F a b) v C"
  shows "leads R v (\<lambda>commit. sbind (sread g) (\<lambda>(a, b). F a b commit)) v C"
  using leads_check [of g v R "\<lambda>x. F (fst x) (snd x)" C] assms by (simp add: case_prod_unfold)

lemma namedI:
  "parent_name path = Inr (d, b) \<Longrightarrow> entry_name_from_str (ve_hex e) b = Inr n \<Longrightarrow> resolve_path e d True v = Inr p
    \<Longrightarrow> (p, n) \<in> named e v path"
  by (simp add: named_def parent_of_path_def sbind_def sread_def sret_def)

lemma rename_path_leads:
  assumes "roomy v"
  shows "leads anyhow v (\<lambda>commit. rename_path commit e old new) v (renaming default_policy (named e v old) (named e v new))"
  unfolding rename_path_def
  by (intro leads_check leads_check_pair rename_there [OF assms]) (auto intro: namedI simp: default_policy_def)

lemma symlink_path_leads:
  assumes "roomy v"
  shows "leads anyhow v (\<lambda>commit. symlink_path commit e target path) v (changes e v (Symlink_Path target path))"
  unfolding symlink_path_def silently_def [symmetric] symlink_at_def
proof (rule leads_check_pair, rule leads_check)
  fix d b p assume d: "parent_name path = Inr (d, b)" "resolve_path e d True v = Inr p"
  have "leads anyhow v (\<lambda>commit. symlink_at_with_owner commit e p (str_bytes b) (str_bytes target) (ve_uid e) (ve_gid e)) v
      (changes e v (Symlink_Path target path))"
  proof (cases "entry_name_from_os (ve_hex e) (str_bytes b)")
    case (Inl err)
    then show ?thesis by (simp add: symlink_at_with_owner_def leads_def sbind_def sread_def)
  next
    case (Inr n)
    show ?thesis by (rule leads_mono [OF symlink_leads [OF assms Inr]]) (use d Inr in \<open>auto simp: creating_def\<close>)
  qed
  then show "leads anyhow v (\<lambda>commit. silently (symlink_at_with_owner commit e p (str_bytes b) (str_bytes target) (ve_uid e) (ve_gid e))) v
      (changes e v (Symlink_Path target path))"
    by (rule silently_leads)
qed

lemma os_error_leads:
  assumes "\<And>n. (p, n) \<in> os_named e p os_name \<Longrightarrow> leads anyhow v F v C"
    and "\<And>commit err. entry_name_from_os (ve_hex e) os_name = Inl err \<Longrightarrow> F commit v = (v, Inl err)"
  shows "leads anyhow v F v C"
proof (cases "entry_name_from_os (ve_hex e) os_name")
  case (Inl err)
  then show ?thesis using assms(2) by (simp add: leads_def)
next
  case (Inr n)
  then show ?thesis by (intro assms(1)) (simp add: os_named_def)
qed

lemma symlink_at_leads:
  assumes "roomy v"
  shows "leads anyhow v (\<lambda>commit. symlink_at_with_owner commit e p os_name target uid gid) v (creating v (\<lambda>k. k = Symlink) (os_named e p os_name))"
  by (rule os_error_leads, rule leads_mono [OF symlink_leads [OF assms]])
    (auto simp: os_named_def creating_def symlink_at_with_owner_def sbind_def sread_def)

lemma link_at_leads:
  assumes "roomy v"
  shows "leads anyhow v (\<lambda>commit. link_at commit e ino p os_name) v {Linked ino q m |q m. (q, m) \<in> os_named e p os_name}"
  by (rule os_error_leads, rule leads_mono [OF link_leads [OF assms]]) (auto simp: os_named_def link_at_def sbind_def sread_def)

lemma attribute_leads:
  assumes "roomy v"
  shows "leads anyhow v (\<lambda>commit. utimens_inode commit e ino atime mtime) v {Unchanged}"
    "leads anyhow v (\<lambda>commit. setxattr_inode commit e ino name bytes) v {Unchanged}"
    "leads anyhow v (\<lambda>commit. importxattr_inode commit e ino name bytes) v {Unchanged}"
    "leads anyhow v (\<lambda>commit. removexattr_inode commit e ino name) v {Unchanged}"
    "leads anyhow v (\<lambda>commit. set_posix_acl_path commit e path default_acl acl) v {Unchanged}"
    "leads anyhow v (\<lambda>commit. set_nfs4_acl_path commit e path nfs4) v {Unchanged}"
    "leads anyhow v (\<lambda>commit. set_directory_quota commit e path limit) v {Unchanged}"
    "leads anyhow v (\<lambda>commit. clear_directory_quota commit e path) v {Unchanged}"
  subgoal unfolding utimens_inode_def by (rule change_inode_leads [OF assms]) (auto simp: shape_def intro: tidy_attr)
  subgoal unfolding setxattr_inode_def by (intro leads_check setxattr_leads [OF assms])
  subgoal unfolding importxattr_inode_def by (intro leads_check setxattr_leads [OF assms])
  subgoal unfolding removexattr_inode_def
    by (intro leads_check plain_change_leads [OF assms]) (auto simp: rbind_eq_Inr_iff dest: drop_xattr_shape)
  subgoal unfolding set_posix_acl_path_def by (intro leads_check plain_change_leads [OF assms]) (erule acl_shape)
  subgoal unfolding set_nfs4_acl_path_def by (intro leads_check plain_change_leads [OF assms]) (auto simp: shape_def)
  subgoal unfolding set_directory_quota_def by (intro leads_check leads_if leads_throw quota_leads [OF assms])
  subgoal unfolding clear_directory_quota_def by (intro leads_check quota_leads [OF assms])
  done

text \<open>Every request is atomic around its commit, whatever the commit does.\<close>

lemma request_leads:
  assumes room: "roomy v"
  shows "leads anyhow v (\<lambda>commit. perform commit e req) v (changes e v req)"
proof (cases req)
  case (Mkdir path mode)
  then show ?thesis by (simp add: mkdir_def) (rule silently_leads, rule leads_named, rule mkdir_there [OF room])
next
  case (Mkdir_At p n mode uid gid)
  then show ?thesis by (simp add: mkdir_at_with_owner_def) (rule silently_leads, rule leads_os, rule mkdir_attr_there [OF room])
next
  case (Mknod path mode rdev)
  then show ?thesis by (simp add: mknod_path_def) (rule silently_leads, rule leads_named, rule mknod_there [OF room])
next
  case (Mknod_At p n mode rdev uid gid)
  then show ?thesis by (simp add: mknod_at_with_owner_def) (rule silently_leads, rule leads_os, rule mknod_attr_there [OF room])
next
  case (Create_File path mode)
  then show ?thesis by (simp add: create_file_path_def) (rule silently_leads, rule leads_named, rule mknod_there [OF room], assumption, rule regular_kind)
next
  case (Create_File_At p n mode uid gid)
  then show ?thesis
    by (simp add: create_file_at_with_owner_def) (rule silently_leads, rule leads_os, rule mknod_attr_there [OF room], assumption, rule regular_kind)
next
  case (Symlink_Path target path)
  then show ?thesis using symlink_path_leads [OF room] by simp
next
  case (Unlink path)
  then show ?thesis by (simp add: unlink_path_def) (intro leads_named unlink_there [OF room])
next
  case (Unlink_At p n uid)
  then show ?thesis by (simp add: unlink_at_as_def) (intro leads_os unlink_there [OF room])
next
  case (Unlink_Open p n uid)
  then show ?thesis by (simp add: unlink_at_as_preserving_open_def) (intro leads_os unlink_there [OF room])
next
  case (Rmdir path)
  then show ?thesis by (simp add: rmdir_path_def) (intro leads_named unlink_there [OF room])
next
  case (Rmdir_At p n uid)
  then show ?thesis by (simp add: rmdir_at_as_def) (intro leads_os unlink_there [OF room])
next
  case (Rename_At p n q m policy)
  then show ?thesis by (simp add: rename_at_with_policy_def) (intro leads_os rename_there [OF room] refl)
qed (simp_all add: silently_leads [where R = anyhow] symlink_at_leads link_at_leads rename_path_leads reap_leads chmod_leads chown_leads attribute_leads room)

end
