(* ===== verification/Argos_Erasure.thy ===== *)
theory Argos_Erasure
  imports Argos_Error
begin

text \<open>
  \<open>src/data/erasure.rs\<close>: the erasure code of a stripe. The Reed-Solomon crate is a parameter: whether it
  accepts a geometry, what it writes into the parity shards and what it makes of a stripe with missing
  shards. \<open>rs_law\<close> is what its documentation promises.
\<close>

section \<open>The code\<close>

type_synonym shard_data = "8 word list"

record reed_solomon =
  rs_accepts :: "nat \<Rightarrow> nat \<Rightarrow> bool"
  rs_encode :: "nat \<Rightarrow> nat \<Rightarrow> shard_data list \<Rightarrow> shard_data list option"
  rs_reconstruct :: "nat \<Rightarrow> nat \<Rightarrow> shard_data option list \<Rightarrow> shard_data option list option"

record rs_codec =
  rs_k :: nat
  rs_m :: nat
  rs_total :: nat

definition rs_codec_new :: "reed_solomon \<Rightarrow> nat \<Rightarrow> nat \<Rightarrow> rs_codec result" where
  "rs_codec_new rs k m =
     (if k = 0 then Inl Invalid
      else rbind (ok_or Invalid (checked_add k m)) (\<lambda>total.
        if m \<noteq> 0 \<and> \<not> rs_accepts rs k m then Inl Erasure else Inr \<lparr>rs_k = k, rs_m = m, rs_total = total\<rparr>))"

definition encode_stripe :: "reed_solomon \<Rightarrow> rs_codec \<Rightarrow> shard_data list \<Rightarrow> shard_data list result" where
  "encode_stripe rs c data_shards =
     (if length data_shards \<noteq> rs_k c then Inl Invalid
      else let shard_size = (case data_shards of [] \<Rightarrow> 0 | sh # _ \<Rightarrow> length sh)
           in if (\<exists>sh \<in> set data_shards. length sh \<noteq> shard_size) then Inl Invalid
              else if rs_m c = 0 then Inr data_shards
              else ok_or Erasure (rs_encode rs (rs_k c) (rs_m c) (data_shards @ replicate (rs_m c) (replicate shard_size 0))))"

fun all_present :: "'a option list \<Rightarrow> 'a list result" where
  "all_present [] = Inr []"
| "all_present (None # rest) = Inl Erasure"
| "all_present (Some x # rest) = rbind (all_present rest) (\<lambda>xs. Inr (x # xs))"

definition reconstruct_stripe :: "reed_solomon \<Rightarrow> rs_codec \<Rightarrow> shard_data option list \<Rightarrow> shard_data list result" where
  "reconstruct_stripe rs c shards =
     (if length shards \<noteq> rs_total c then Inl Invalid
      else rbind (if rs_m c = 0
                  then (if None \<in> set shards then Inl Erasure else Inr shards)
                  else ok_or Erasure (rs_reconstruct rs (rs_k c) (rs_m c) shards)) all_present)"

section \<open>What the crate promises\<close>

text \<open>\<open>ss\<close> is the stripe \<open>xs\<close> with shards missing.\<close>

definition remains :: "'a option list \<Rightarrow> 'a list \<Rightarrow> bool" where
  "remains ss xs \<longleftrightarrow> list_all2 (\<lambda>s x. s = None \<or> s = Some x) ss xs"

definition left :: "'a option list \<Rightarrow> nat" where
  "left ss = length (filter (\<lambda>s. s \<noteq> None) ss)"

text \<open>Encoding leaves the data shards as they are and fills the parity shards; from any \<open>k\<close> shards of an encoded
  stripe the whole stripe is rebuilt; a stripe with fewer shards is refused.\<close>

definition rs_law :: "reed_solomon \<Rightarrow> bool" where
  "rs_law rs \<longleftrightarrow> (\<forall>k m n d. 0 < k \<longrightarrow> 0 < m \<longrightarrow> rs_accepts rs k m \<longrightarrow> length d = k \<longrightarrow> (\<forall>sh \<in> set d. length sh = n) \<longrightarrow>
     (\<exists>p. rs_encode rs k m (d @ replicate m (replicate n 0)) = Some (d @ p) \<and> length p = m \<and> (\<forall>sh \<in> set p. length sh = n)
        \<and> (\<forall>ss. remains ss (d @ p) \<longrightarrow>
             rs_reconstruct rs k m ss = (if k \<le> left ss then Some (map Some (d @ p)) else None))))"

lemma all_present_map [simp]: "all_present (map Some xs) = Inr xs"
  by (induction xs) simp_all

lemma remains_full: "remains ss xs \<Longrightarrow> None \<notin> set ss \<longleftrightarrow> ss = map Some xs"
  unfolding remains_def by (induction rule: list_all2_induct) auto

lemma remains_length: "remains ss xs \<Longrightarrow> length ss = length xs"
  by (simp add: remains_def list_all2_lengthD)

lemma left_full: "length ss \<le> left ss \<longleftrightarrow> None \<notin> set ss"
  unfolding left_def
proof (induction ss)
  case (Cons a ss)
  have "length (filter (\<lambda>s. s \<noteq> None) ss) \<le> length ss" by (rule length_filter_le)
  then have "\<not> Suc (length ss) \<le> length (filter (\<lambda>s. s \<noteq> None) ss)" by linarith
  then show ?case using Cons by (cases a) (simp_all del: not_None_eq)
qed simp

lemma rs_codec_newD:
  assumes "rs_codec_new rs k m = Inr c"
  shows "rs_k c = k" "rs_m c = m" "rs_total c = k + m" "0 < k" "m \<noteq> 0 \<Longrightarrow> rs_accepts rs k m" "k + m \<le> u64_max"
  using assms by (auto simp: rs_codec_new_def rbind_eq_Inr_iff ok_or_def checked_add_def split: if_splits)

lemma encode_stripeD:
  assumes "rs_law rs" "rs_codec_new rs k m = Inr c" "encode_stripe rs c d = Inr xs"
  obtains p n where "xs = d @ p" "length d = k" "length p = m" "\<forall>sh \<in> set (d @ p). length sh = n"
    "\<And>ss. m \<noteq> 0 \<Longrightarrow> remains ss (d @ p) \<Longrightarrow>
       rs_reconstruct rs k m ss = (if k \<le> left ss then Some (map Some (d @ p)) else None)"
proof -
  note c = rs_codec_newD [OF assms(2)]
  define n where "n = (case d of [] \<Rightarrow> 0 | sh # _ \<Rightarrow> length sh)"
  have d: "length d = k" "\<forall>sh \<in> set d. length sh = n"
    using assms(3) by (auto simp: encode_stripe_def c Let_def n_def split: if_splits)
  show thesis
  proof (cases "m = 0")
    case True
    then have "xs = d" using assms(3) by (simp add: encode_stripe_def c Let_def split: if_splits)
    then show thesis using that [of "[]" n] d True by simp
  next
    case False
    then have enc: "rs_encode rs k m (d @ replicate m (replicate n 0)) = Some xs"
      using assms(3) by (auto simp: encode_stripe_def c Let_def n_def ok_or_def split: if_splits option.splits)
    have acc: "rs_accepts rs k m" using c(5) False by simp
    obtain p where p: "rs_encode rs k m (d @ replicate m (replicate n 0)) = Some (d @ p)" "length p = m" "\<forall>sh \<in> set p. length sh = n"
      "\<And>ss. remains ss (d @ p) \<Longrightarrow>
         rs_reconstruct rs k m ss = (if k \<le> left ss then Some (map Some (d @ p)) else None)"
      using assms(1) c(4) False acc d unfolding rs_law_def by (metis gr0I)
    then show thesis using that [of p n] enc d by auto
  qed
qed

section \<open>An example code\<close>

text \<open>One data shard, copied.\<close>

definition mirror :: reed_solomon where
  "mirror = \<lparr>rs_accepts = (\<lambda>k m. k = 1), rs_encode = (\<lambda>k m shards. Some (replicate (1 + m) (hd shards))),
     rs_reconstruct = (\<lambda>k m shards. map_option (\<lambda>s. replicate (1 + m) s) (find (\<lambda>s. s \<noteq> None) shards))\<rparr>"

lemma find_remains:
  "remains ss (replicate n x) \<Longrightarrow> find (\<lambda>s. s \<noteq> None) ss = (if 1 \<le> left ss then Some (Some x) else None)"
proof (induction ss arbitrary: n)
  case (Cons a ss)
  then obtain k where k: "n = Suc k" "a = None \<or> a = Some x" "remains ss (replicate k x)"
    by (cases n) (auto simp: remains_def)
  then show ?case using Cons.IH [OF k(3)] by (auto simp: left_def)
qed (simp add: left_def)

lemma mirror_law: "rs_law mirror"
  unfolding rs_law_def
proof (intro allI impI, goal_cases)
  case (1 k m n d)
  then obtain x where d: "d = [x]" "k = 1" by (auto simp: mirror_def length_Suc_conv)
  have "remains ss (replicate (Suc m) x) \<Longrightarrow>
      rs_reconstruct mirror k m ss = (if k \<le> left ss then Some (map Some (replicate (Suc m) x)) else None)" for ss
    using find_remains [of ss "Suc m" x] d(2) by (simp add: mirror_def map_replicate)
  moreover have "rs_encode mirror k m (d @ replicate m (replicate n 0)) = Some (d @ replicate m x)"
    by (simp add: mirror_def d)
  ultimately show ?case using 1(5) d by (intro exI [of _ "replicate m x"]) auto
qed

section \<open>The claim\<close>



end
