(* ===== verification/Argos_Mount.thy ===== *)
theory Argos_Mount
  imports Argos_Volume Argos_Erasure
begin

text \<open>
  \<open>ArgosFs::create\<close> and \<open>ArgosFs::open\<close> of \<open>src/volume/mod.rs\<close>: making a volume in a host directory and opening
  one. What the host gives is in \<open>host_env\<close>: the new UUID, what probing a disk directory measured, the settings
  of the second-level cache and the files found. Making directories, their permissions and the marker
  file of a disk are host I/O that the metadata does not depend on.
\<close>

record host_env =
  he_rs :: reed_solomon
  he_uuid :: string
  he_probe :: "nat \<Rightarrow> disk_probe"
  he_l2_disable :: "string option"
  he_l2_size :: "string option"
  he_cache_files :: "(string, 8 word list) btree"
  he_files :: "(string, 8 word list) btree"
  he_bulk_import :: bool

definition default_health :: health_counters where
  "default_health = \<lparr>h_reallocated_sectors = 0, h_pending_sectors = 0, h_crc_errors = 0, h_io_errors = 0, h_latency_ms = 0,
     h_wear_percent = 0, h_temperature_c = 0, h_last_smart_refresh_at = 0, h_smart_device_type = [],
     h_smart_fields_observed = [], h_smart_fields_missing = [], h_smart_status_failed = False, h_smart_evidence_score = 0,
     h_smart_evidence_updated_at = 0, h_recent_reallocated_delta = 0, h_recent_reallocated_delta_at = 0,
     h_recent_crc_delta = 0, h_recent_crc_delta_at = 0, h_recent_io_error_delta = 0, h_recent_io_error_delta_at = 0\<rparr>"

definition disk_name :: "nat \<Rightarrow> string" where
  "disk_name index = ''disk-'' @ dec_pad4 index"

definition new_disk :: "disk_probe \<Rightarrow> f64 \<Rightarrow> nat \<Rightarrow> disk" where
  "new_disk probe created_at index =
     \<lparr>d_id = disk_name index, d_path = ''.argosfs/devices/'' @ disk_name index, d_tier = p_recommended_tier probe,
      d_weight = p_recommended_weight probe, d_status = Online, d_manually_offline = False,
      d_capacity_bytes = p_capacity_bytes probe, d_capacity_source = AutoProbe, d_used_bytes = 0,
      d_health = default_health\<lparr>h_temperature_c := 30\<rparr>, d_class = p_class probe,
      d_backing_device = p_backing_device probe, d_backing_fs_id = p_backing_fs_id probe,
      d_failure_domain = (case p_backing_fs_id probe of Some fs \<Rightarrow> fs | None \<Rightarrow> disk_name index),
      d_sysfs_block = p_sysfs_block probe, d_rotational = p_rotational probe, d_numa_node = p_numa_node probe,
      d_read_latency_ewma_ms = p_measured_read_latency_ms probe, d_write_latency_ewma_ms = p_measured_write_latency_ms probe,
      d_observed_read_mib_s = p_measured_read_mib_s probe, d_observed_write_mib_s = p_measured_write_mib_s probe,
      d_io_samples = (if p_measured_read_mib_s probe > 0 \<or> p_measured_write_mib_s probe > 0 then 1 else 0),
      d_last_probe = probe, d_created_at = created_at\<rparr>"

definition new_disks :: "(nat \<Rightarrow> disk_probe) \<Rightarrow> f64 \<Rightarrow> nat \<Rightarrow> (string, disk) btree" where
  "new_disks probe created_at disk_count =
     fold (\<lambda>index. bt_insert (disk_name index) (new_disk (probe index) created_at index)) [0..<disk_count] []"

definition new_metadata :: "venv \<Rightarrow> host_env \<Rightarrow> volume_config \<Rightarrow> nat \<Rightarrow> metadata" where
  "new_metadata e h config disk_count =
     \<lparr>m_format = FORMAT_VERSION, m_uuid = he_uuid h, m_backend = Host,
      m_raw_pool = \<lparr>rp_pool_name = [], rp_format_version = 0, rp_clean = False, rp_dirty_since_txid = 0,
        rp_mount_generation = 0, rp_allocators = []\<rparr>,
      m_created_at = ve_now e, m_updated_at = ve_now e, m_txid = 0, m_next_inode = ROOT_INO + 1, m_next_stripe = 1,
      m_config = config, m_layouts = [], m_current_write_layout = [], m_reshape = None,
      m_encryption = default_encryption_config, m_integrity = default_integrity,
      m_disks = new_disks (he_probe h) (ve_now e) disk_count,
      m_inodes = [(ROOT_INO, root_inode (ve_now e) (ve_uid e) (ve_gid e))]\<rparr>"

definition open_host :: "venv \<Rightarrow> host_env \<Rightarrow> string \<Rightarrow> meta_store \<Rightarrow> volume result" where
  "open_host e h directory st =
     rbind (load_or_recover (ve_codec e) st) (\<lambda>(recovered, report, st').
     let meta = recompute_disk_usage_from_metadata (normalize_metadata_layouts (recovered\<lparr>m_backend := Host\<rparr>))
     in if m_format meta \<noteq> FORMAT_VERSION then Inl Invalid
        else rbind (rs_codec_new (he_rs h) (c_k (m_config meta)) (c_m (m_config meta))) (\<lambda>_.
             rbind (quota_from_metadata meta) (\<lambda>quota.
             Inr \<lparr>v_root = directory, v_meta = meta, v_quota = quota, v_backend_writable = True, v_write_fence = False,
                  v_bulk_import = he_bulk_import h, v_pending_reclaims = [],
                  v_cache = cache_new (path_join directory ''.argosfs/cache/l2'') (64 * 1024 * 1024)
                    (c_l2_cache_bytes (m_config meta)) (he_l2_disable h) (he_l2_size h) (he_cache_files h),
                  v_verify = None, v_host_files = he_files h, v_store = st'\<rparr>)))"

text \<open>\<open>existing\<close>: what the directory \<open>.argosfs\<close> holds, if it is there. A new volume starts with an empty one.\<close>

definition no_store :: meta_store where
  "no_store = \<lparr>ms_journal = None, ms_primary = None, ms_secondary = None, ms_compat = None\<rparr>"

definition with_chunk_size :: "volume_config \<Rightarrow> volume_config" where
  "with_chunk_size config = (if c_chunk_size config = 0 then config\<lparr>c_chunk_size := c_chunk_size default_volume_config\<rparr> else config)"

definition create_host ::
  "venv \<Rightarrow> host_env \<Rightarrow> string \<Rightarrow> volume_config \<Rightarrow> nat \<Rightarrow> bool \<Rightarrow> meta_store option \<Rightarrow> volume result" where
  "create_host e h directory config disk_count force existing =
     (if c_k config = 0 then Inl Invalid
      else rbind (checked_layout_total (c_k config) (c_m config)) (\<lambda>shard_count.
        if disk_count < shard_count then Inl (NotEnoughDisks shard_count disk_count)
        else let config = with_chunk_size config
             in rbind (validate_commit_policy config) (\<lambda>_.
                rbind (rs_codec_new (he_rs h) (c_k config) (c_m config)) (\<lambda>_.
                if existing \<noteq> None \<and> \<not> force then Inl AlreadyExists
                else rbind (initialize_volume (ve_codec e) no_store (normalize_metadata_layouts (new_metadata e h config disk_count)) (ve_now e))
                       (\<lambda>(st, meta). open_host e h directory st)))))"

end
