(* ===== verification/Argos_Codec.thy ===== *)
theory Argos_Codec
  imports Argos_Journal "HOL-Library.Countable"
begin

text \<open>
  Every metadata document and every journal record can be written and read back: their types are countable, and a
  codec that writes the number of a document is exact on all of them. It shows that what the later theories
  rely on of serde can be had.
\<close>

section \<open>Documents are countable\<close>

instance raw_free_extent_ext :: (countable) countable
  by (rule countable_classI [of
    "\<lambda>x. to_nat (fe_offset x, fe_length x, raw_free_extent.more x)"])
    (auto intro: raw_free_extent.equality)

instance raw_allocator_state_ext :: (countable) countable
  by (rule countable_classI [of
    "\<lambda>x. to_nat (block_size x, data_start x, data_end x, next_offset x, free_extents x,
    raw_allocator_state.more x)"])
    (auto intro: raw_allocator_state.equality)

instance physical_extent_ext :: (countable) countable
  by (rule countable_classI [of
    "\<lambda>x. to_nat (ext_disk_id x, ext_offset x, ext_length x, ext_generation x, ext_flags x,
    physical_extent.more x)"])
    (auto intro: physical_extent.equality)

instance backend_kind :: countable
  by countable_datatype

instance compression :: countable
  by countable_datatype

instance storage_tier :: countable
  by countable_datatype

instance disk_status :: countable
  by countable_datatype

instance disk_class :: countable
  by countable_datatype

instance capacity_source :: countable
  by countable_datatype

instance io_mode :: countable
  by countable_datatype

instance posix_acl_tag :: countable
  by countable_datatype

instance posix_acl_entry_ext :: (countable) countable
  by (rule countable_classI [of
    "\<lambda>x. to_nat (a_tag x, a_id x, a_perms x, posix_acl_entry.more x)"])
    (auto intro: posix_acl_entry.equality)

instance posix_acl_ext :: (countable) countable
  by (rule countable_classI [of
    "\<lambda>x. to_nat (a_entries x, posix_acl.more x)"])
    (auto intro: posix_acl.equality)

instance nfs4_ace_type :: countable
  by countable_datatype

instance nfs4_ace_ext :: (countable) countable
  by (rule countable_classI [of
    "\<lambda>x. to_nat (ace_type x, ace_principal x, ace_flags x, ace_permissions x, nfs4_ace.more x)"])
    (auto intro: nfs4_ace.equality)

instance nfs4_acl_ext :: (countable) countable
  by (rule countable_classI [of
    "\<lambda>x. to_nat (n_entries x, nfs4_acl.more x)"])
    (auto intro: nfs4_acl.equality)

instance encryption_config_ext :: (countable) countable
  by (rule countable_classI [of
    "\<lambda>x. to_nat (e_enabled x, e_kdf x, e_salt_hex x, e_key_check_nonce_hex x, e_key_check_ciphertext_hex x,
    encryption_config.more x)"])
    (auto intro: encryption_config.equality)

instance volume_config_ext :: (countable) countable
  by (rule countable_classI [of
    "\<lambda>x. to_nat (c_k x, c_m x, c_chunk_size x, c_compression x, c_compression_level x, c_l2_cache_bytes x,
    c_fsname x, c_io_mode x, c_direct_io x, c_zero_copy x, c_numa_aware x, c_defer_journal_flush x,
    c_defer_metadata_commit x, c_defer_data_flush x, c_deferred_commit_interval_ms x,
    c_deferred_commit_max_transactions x, volume_config.more x)"])
    (auto intro: volume_config.equality)

instance layout_config_ext :: (countable) countable
  by (rule countable_classI [of
    "\<lambda>x. to_nat (l_id x, l_k x, l_m x, l_chunk_size x, l_created_txid x, l_sealed x, layout_config.more x)"])
    (auto intro: layout_config.equality)

instance reshape_state_ext :: (countable) countable
  by (rule countable_classI [of
    "\<lambda>x. to_nat (r_id x, r_target_layout x, r_from_layouts x, r_cursor x, r_rewritten_files x, r_complete x,
    reshape_state.more x)"])
    (auto intro: reshape_state.equality)

instance health_counters_ext :: (countable) countable
  by (rule countable_classI [of
    "\<lambda>x. to_nat (h_reallocated_sectors x, h_pending_sectors x, h_crc_errors x, h_io_errors x, h_latency_ms x,
    h_wear_percent x, h_temperature_c x, h_last_smart_refresh_at x, h_smart_device_type x, h_smart_fields_observed x,
    h_smart_fields_missing x, h_smart_status_failed x, h_smart_evidence_score x, h_smart_evidence_updated_at x,
    h_recent_reallocated_delta x, h_recent_reallocated_delta_at x, h_recent_crc_delta x, h_recent_crc_delta_at x,
    h_recent_io_error_delta x, h_recent_io_error_delta_at x, health_counters.more x)"])
    (auto intro: health_counters.equality)

instance disk_probe_ext :: (countable) countable
  by (rule countable_classI [of
    "\<lambda>x. to_nat (p_class x, p_backing_device x, p_backing_fs_id x, p_sysfs_block x, p_rotational x, p_numa_node x,
    p_capacity_bytes x, p_available_bytes x, p_measured_read_mib_s x, p_measured_write_mib_s x,
    p_measured_read_latency_ms x, p_measured_write_latency_ms x, p_recommended_weight x, p_recommended_tier x,
    disk_probe.more x)"])
    (auto intro: disk_probe.equality)

instance disk_ext :: (countable) countable
  by (rule countable_classI [of
    "\<lambda>x. to_nat (d_id x, d_path x, d_tier x, d_weight x, d_status x, d_manually_offline x, d_capacity_bytes x,
    d_capacity_source x, d_used_bytes x, d_health x, d_class x, d_backing_device x, d_backing_fs_id x, d_failure_domain x,
    d_sysfs_block x, d_rotational x, d_numa_node x, d_read_latency_ewma_ms x, d_write_latency_ewma_ms x,
    d_observed_read_mib_s x, d_observed_write_mib_s x, d_io_samples x, d_last_probe x, d_created_at x, disk.more x)"])
    (auto intro: disk.equality)

instance shard_location :: countable
  by countable_datatype

instance shard_ext :: (countable) countable
  by (rule countable_classI [of
    "\<lambda>x. to_nat (s_slot x, s_disk_id x, s_location x, s_relpath x, s_sha256 x, s_checksum_block_size x,
    s_subblock_sha256 x, s_size x, shard.more x)"])
    (auto intro: shard.equality)

instance file_block_ext :: (countable) countable
  by (rule countable_classI [of
    "\<lambda>x. to_nat (b_layout_id x, b_stripe_id x, b_raw_offset x, b_raw_size x, b_raw_sha256 x, b_codec x,
    b_encrypted x, b_nonce_hex x, b_compressed_size x, b_shard_size x, b_shards x, b_storage_class x,
    file_block.more x)"])
    (auto intro: file_block.equality)

instance node_kind :: countable
  by countable_datatype

instance inode_ext :: (countable) countable
  by (rule countable_classI [of
    "\<lambda>x. to_nat (i_id x, i_kind x, i_mode x, i_uid x, i_gid x, i_nlink x, i_size x, i_rdev x, i_atime x,
    i_mtime x, i_ctime x, i_entries x, i_target x, i_inline_data x, i_inline_sha256 x, i_blocks x, i_xattrs x,
    i_quota_bytes x, i_posix_acl_access x, i_posix_acl_default x, i_nfs4_acl x, i_access_count x, i_write_count x,
    i_read_bytes x, i_write_bytes x, i_storage_class x, i_boot_critical x, i_workload_score x, i_last_accessed_at x,
    i_last_written_at x, inode.more x)"])
    (auto intro: inode.equality)

instance raw_pool_metadata_ext :: (countable) countable
  by (rule countable_classI [of
    "\<lambda>x. to_nat (rp_pool_name x, rp_format_version x, rp_clean x, rp_dirty_since_txid x, rp_mount_generation x,
    rp_allocators x, raw_pool_metadata.more x)"])
    (auto intro: raw_pool_metadata.equality)

instance metadata_integrity_ext :: (countable) countable
  by (rule countable_classI [of
    "\<lambda>x. to_nat (mi_generation x, mi_previous_meta_hash x, mi_meta_hash x, metadata_integrity.more x)"])
    (auto intro: metadata_integrity.equality)

instance metadata_ext :: (countable) countable
  by (rule countable_classI [of
    "\<lambda>x. to_nat (m_format x, m_uuid x, m_backend x, m_raw_pool x, m_created_at x, m_updated_at x, m_txid x,
    m_next_inode x, m_next_stripe x, m_config x, m_layouts x, m_current_write_layout x, m_reshape x, m_encryption x,
    m_integrity x, m_disks x, m_inodes x, metadata.more x)"])
    (auto intro: metadata.equality)

instance json_number :: countable
  by countable_datatype

instance json :: countable
  by countable_datatype

instance delta_op :: countable
  by countable_datatype

instance journal_record_kind :: countable
  by countable_datatype

instance journal_record_ext :: (countable) countable
  by (rule countable_classI [of
    "\<lambda>x. to_nat (jr_version x, jr_record_type x, jr_time x, jr_volume_uuid x, jr_txid x, jr_generation x,
    jr_action x, jr_details x, jr_previous_record_hash x, jr_previous_meta_hash x, jr_meta_hash x, jr_metadata x,
    jr_metadata_delta x, jr_record_hash x, journal_record.more x)"])
    (auto intro: journal_record.equality)

section \<open>A codec that numbers documents\<close>

text \<open>What is relied on of serde: it reads back every document and record it wrote.\<close>

definition serde_exact :: "codec \<Rightarrow> bool" where
  "serde_exact cd \<longleftrightarrow> codec_ok cd \<and> (\<forall>m. meta_exact cd m) \<and> (\<forall>r. record_exact cd r)"

definition number_line :: "nat \<Rightarrow> string" where
  "number_line n = replicate (Suc n) (CHR ''x'')"

definition line_number :: "string \<Rightarrow> nat" where
  "line_number line = length line - 1"

definition number_bytes :: "nat \<Rightarrow> byte list" where
  "number_bytes n = replicate n 0"

definition meta_json :: "metadata \<Rightarrow> json" where
  "meta_json m = JNumber (PosInt (to_nat m))"

definition json_meta :: "json \<Rightarrow> metadata option" where
  "json_meta v = (case v of JNumber (PosInt n) \<Rightarrow> Some (from_nat n) | _ \<Rightarrow> None)"

definition line_json :: "string \<Rightarrow> json option" where
  "line_json line =
     (if trim line = [] then None
      else Some (JObject ((''line'', JString line)
        # (case jr_metadata (from_nat (line_number line) :: journal_record) of Some m \<Rightarrow> [(''metadata'', meta_json m)] | None \<Rightarrow> []))))"

definition json_record :: "json \<Rightarrow> journal_record option" where
  "json_record v = (case v of JObject ((_, JString line) # _) \<Rightarrow> Some (from_nat (line_number line)) | _ \<Rightarrow> None)"

definition number_codec :: codec where
  "number_codec =
     \<lparr>cd_line = (\<lambda>r. number_line (to_nat r)), cd_value = line_json, cd_record = json_record,
      cd_record_pretty = (\<lambda>r. number_bytes (to_nat r)), cd_record_parse = (\<lambda>bs. Some (from_nat (length bs))),
      cd_legacy_pretty = (\<lambda>_. None), cd_meta_pretty = (\<lambda>m. number_bytes (to_nat m)),
      cd_meta_parse = (\<lambda>bs. Some (from_nat (length bs))), cd_meta_to_value = meta_json, cd_meta_from_value = json_meta,
      cd_pointer_mut = ref_pointer, cd_sha256_hex = (\<lambda>_. ''h'')\<rparr>"

lemma number_line_text:
  "CHR 0x0A \<notin> set (number_line n)" "last (number_line n) \<noteq> CHR 0x0D" "trim (number_line n) \<noteq> []" "valid_utf8 (nat_bytes (number_line n))"
  "line_number (number_line n) = n"
proof -
  show "CHR 0x0A \<notin> set (number_line n)" "last (number_line n) \<noteq> CHR 0x0D" "line_number (number_line n) = n"
    by (simp_all add: number_line_def line_number_def)
  have "trim (number_line n) = number_line n" by (rule trim_plain) (simp_all add: number_line_def plain_def)
  then show "trim (number_line n) \<noteq> []" by (simp add: number_line_def)
  show "valid_utf8 (nat_bytes (number_line n))"
    by (induction n) (simp_all add: number_line_def nat_bytes_def)
qed

lemma number_codec_exact: "serde_exact number_codec"
proof -
  have "codec_ok number_codec"
    by (simp add: codec_ok_def number_codec_def line_json_def ref_pointer_rfc6901)
  moreover have "meta_exact number_codec m" for m
    by (simp add: meta_exact_def number_codec_def number_bytes_def meta_json_def json_meta_def Let_def)
  moreover have "record_exact number_codec r" for r
    using number_line_text [of "to_nat r"]
    by (auto simp: record_exact_def number_codec_def number_bytes_def line_json_def json_record_def metadata_member_def meta_json_def
        Let_def split: option.split)
  ultimately show ?thesis by (simp add: serde_exact_def)
qed

end
