(* ===== verification/Argos_Host.thy ===== *)
theory Argos_Host
  imports Argos_Requests Argos_Mount Argos_Recovery Argos_Codec
begin

text \<open>
  Requests on a volume in a host directory: the operations on the namespace, the commit through the journal,
  crashes at any point of the commit, and reopening. The locale \<open>committing\<close> is what the operations rely
  on; \<open>commit_host\<close> and \<open>open_host\<close> provide it.
\<close>

section \<open>What the operations rely on of a commit\<close>

text \<open>
  \<open>ready v\<close>: memory and storage of \<open>v\<close> agree. A commit of a well-formed change of such a volume succeeds and leaves it
  ready; or it fails with an error that says that nothing was written, with the old state back in memory; or
  it fails with an error that says that the new state may be stored, and then reopening finds that.
\<close>

locale committing =
  fixes commit :: commit and ready :: "volume \<Rightarrow> bool" and reopen :: "volume \<Rightarrow> volume result"
  assumes ready_ok: "ready v \<Longrightarrow> meta_ok (v_meta v)"
    and ready_same: "ready v \<Longrightarrow> tab w = tab v \<Longrightarrow> base w = base v \<Longrightarrow> ready w"
    and reopen_ready: "ready v \<Longrightarrow> \<exists>v'. reopen v = Inr v' \<and> ready v' \<and> vns v' = vns v"
    and commit_done: "ready v \<Longrightarrow> meta_ok (v_meta w) \<Longrightarrow> base w = base v \<Longrightarrow> m_txid (v_meta v) < u64_max \<Longrightarrow>
      commit p a d w = (w', Inr ()) \<Longrightarrow> ready w' \<and> tab w' = tab w"
    and commit_undone: "ready v \<Longrightarrow> meta_ok (v_meta w) \<Longrightarrow> base w = base v \<Longrightarrow> m_txid (v_meta v) < u64_max \<Longrightarrow>
      commit p a d w = (w', Inl err) \<Longrightarrow> \<not> transaction_error_is_committed err \<Longrightarrow>
      ready w' \<and> vns w' = vns v \<and> ready (w'\<lparr>v_meta := v_meta v\<rparr>)"
    and commit_unsure: "ready v \<Longrightarrow> meta_ok (v_meta w) \<Longrightarrow> base w = base v \<Longrightarrow> m_txid (v_meta v) < u64_max \<Longrightarrow>
      commit p a d w = (w', Inl err) \<Longrightarrow> transaction_error_is_committed err \<Longrightarrow>
      tab w' = tab w \<and> (\<exists>v'. reopen w' = Inr v' \<and> ready v' \<and> vns v' = vns w)"
begin

lemma vns_tab: "tab w = tab v \<Longrightarrow> vns w = vns v"
  by (simp add: vns_def tab_def)

text \<open>The outcomes of an operation that is atomic around its commit.\<close>

lemma operation_outcome:
  assumes F: "leads R v F v C" and v: "ready v" "m_txid (v_meta v) < u64_max" and run: "F commit v = (w, r)"
  obtains (finished) x change where "r = Inr x" "R x" "ready w" "change \<in> C" "ns_step ROOT_INO change (vns v) (vns w)"
    | (undone) err where "r = Inl err" "\<not> transaction_error_is_committed err \<or> w = v" "ready w" "vns w = vns v"
    | (unsure) err change v' where "r = Inl err" "transaction_error_is_committed err" "change \<in> C"
        "ns_step ROOT_INO change (vns v) (vns w)" "reopen w = Inr v'" "ready v'" "vns v' = vns w"
proof -
  consider err where "F commit v = (v, Inl err)" | x where "F commit v = (v, Inr x)" "R x" "Unchanged \<in> C"
    | v1 p a d h k where "staged v C v1" "harmless v h" "tidy R v1 k" "F commit v = sbind (son_error (commit p a d) h) k v1"
    using F unfolding leads_def by blast
  then show thesis
  proof cases
    case 1
    then show thesis using run v(1) undone by auto
  next
    case 2
    then show thesis using run v(1) finished [of x Unchanged] ns_step.unchanged by auto
  next
    case (3 v1 p a d h k)
    obtain change where ch: "change \<in> C" "ns_step ROOT_INO change (vns v) (vns v1)" and b: "meta_ok (v_meta v1)" "base v1 = base v"
      using 3(1) by (auto simp: staged_def)
    obtain w1 r1 where c: "commit p a d v1 = (w1, r1)" by (cases "commit p a d v1")
    show thesis
    proof (cases r1)
      case (Inr u)
      then have w1: "ready w1" "tab w1 = tab v1" using commit_done [OF v(1) b v(2), of p a d w1] c by simp_all
      then obtain w2 y where w2: "k () w1 = (w2, Inr y)" "R y" "tab w2 = tab w1" "base w2 = base w1"
        using 3(3) unfolding tidy_def by blast
      then have "F commit v = (w2, Inr y)" using 3(4) c Inr by (simp add: sbind_def son_error_def)
      moreover have "ready w2" by (rule ready_same [OF w1(1) w2(3,4)])
      moreover have "vns w2 = vns v1" using w2(3) w1(2) by (intro vns_tab) simp
      ultimately show thesis using finished [of y change] w2(2) ch run by simp
    next
      case (Inl err)
      then have F: "F commit v = (h err w1, Inl err)" using 3(4) c by (simp add: sbind_def son_error_def)
      have h: "h err w1 = w1 \<or> \<not> transaction_error_is_committed err \<and> h err w1 = w1\<lparr>v_meta := v_meta v\<rparr>"
        using 3(2) by (simp add: harmless_def)
      show thesis
      proof (cases "transaction_error_is_committed err")
        case True
        obtain v' where v': "tab w1 = tab v1" "reopen w1 = Inr v'" "ready v'" "vns v' = vns v1"
          using commit_unsure [OF v(1) b v(2) c [unfolded Inl] True] by blast
        have "h err w1 = w1" using h True by simp
        then have "w = w1" "r = Inl err" using F run by simp_all
        then show thesis using unsure [OF _ True ch(1), of v'] ch(2) v' vns_tab [OF v'(1)] by simp
      next
        case False
        have "ready w1" "vns w1 = vns v" "ready (w1\<lparr>v_meta := v_meta v\<rparr>)"
          using commit_undone [OF v(1) b v(2) c [unfolded Inl] False] by simp_all
        moreover have "vns (w1\<lparr>v_meta := v_meta v\<rparr>) = vns v" by (simp add: vns_def)
        ultimately have "ready (h err w1)" "vns (h err w1) = vns v" using h by auto
        moreover have "w = h err w1" "r = Inl err" using F run by simp_all
        ultimately show thesis using undone [of err] False by simp
      qed
    qed
  qed
qed

end

section \<open>The commit through the journal\<close>

text \<open>Two documents that agree on what the namespace and the journal depend on.\<close>

definition same_state :: "metadata \<Rightarrow> metadata \<Rightarrow> bool" where
  "same_state a b \<longleftrightarrow> ns_of (m_inodes a) = ns_of (m_inodes b) \<and> nlinks (m_inodes a) = nlinks (m_inodes b)
     \<and> table_ok (m_inodes a) \<and> table_ok (m_inodes b) \<and> m_next_inode a = m_next_inode b \<and> m_integrity a = m_integrity b
     \<and> m_txid a = m_txid b \<and> m_format a = m_format b \<and> m_config a = m_config b \<and> m_backend a = m_backend b"

definition in_step :: "codec \<Rightarrow> reed_solomon \<Rightarrow> volume \<Rightarrow> bool" where
  "in_step cd rs v \<longleftrightarrow> serde_exact cd \<and> m_backend (v_meta v) = Host \<and> meta_ok (v_meta v)
     \<and> (\<exists>c. rs_codec_new rs (c_k (m_config (v_meta v))) (c_m (m_config (v_meta v))) = Inr c)
     \<and> (\<exists>m. synced cd (v_store v) m \<and> same_state (v_meta v) m)"

lemma same_state_refl: "table_ok (m_inodes m) \<Longrightarrow> same_state m m"
  by (simp add: same_state_def)

lemma same_state_trans: "same_state a b \<Longrightarrow> same_state b c \<Longrightarrow> same_state a c"
  by (simp add: same_state_def)

lemma same_state_sym: "same_state a b \<Longrightarrow> same_state b a"
  by (simp add: same_state_def)

lemma same_state_ok:
  assumes "same_state a b" "meta_ok b"
  shows "meta_ok a"
proof -
  have "dom (map_of (m_inodes a)) = dom (map_of (m_inodes b))"
    using assms(1) ns_of_simps(3) [of "m_inodes a"] ns_of_simps(3) [of "m_inodes b"] by (simp add: same_state_def)
  then show ?thesis using assms by (simp add: same_state_def meta_ok_def counts_ok_def)
qed

lemma map_values_view:
  assumes "\<And>i. i_kind (f i) = i_kind i \<and> i_entries (f i) = i_entries i \<and> i_nlink (f i) = i_nlink i \<and> i_id (f i) = i_id i"
  shows "ns_of (map (\<lambda>(k, i). (k, f i)) X) = ns_of X" "nlinks (map (\<lambda>(k, i). (k, f i)) X) = nlinks X"
    "table_ok X \<Longrightarrow> table_ok (map (\<lambda>(k, i). (k, f i)) X)"
proof -
  have m: "map_of (map (\<lambda>(k, i). (k, f i)) X) k = map_option f (map_of X k)" for k
    by (induction X) auto
  have "lk (ns_of (map (\<lambda>(k, i). (k, f i)) X)) k = lk (ns_of X) k" for k
    using assms by (cases k, cases "map_of X (fst k)") (simp_all add: ns_of_simps m)
  moreover have "nk (ns_of (map (\<lambda>(k, i). (k, f i)) X)) k = nk (ns_of X) k" for k
    using assms by (cases "map_of X k") (simp_all add: ns_of_simps m)
  ultimately show "ns_of (map (\<lambda>(k, i). (k, f i)) X) = ns_of X" by (intro nspace.equality ext) simp_all
  show "nlinks (map (\<lambda>(k, i). (k, f i)) X) = nlinks X"
    using assms by (auto simp: nlinks_def m fun_eq_iff option.map_comp comp_def)
  have "map fst (map (\<lambda>(k, i). (k, f i)) X) = map fst X" by (simp add: case_prod_beta comp_def)
  then have "bt_ok (map (\<lambda>(k, i). (k, f i)) X) = bt_ok X" by (simp only: bt_ok_def)
  then show "table_ok X \<Longrightarrow> table_ok (map (\<lambda>(k, i). (k, f i)) X)"
    using assms by (auto simp: table_ok_def m)
qed

lemma normalize_view: "table_ok (m_inodes m) \<Longrightarrow> same_state (normalize_metadata_layouts m) m"
  by (simp add: same_state_def normalize_metadata_layouts_def Let_def map_values_view)

lemma recompute_view: "table_ok (m_inodes m) \<Longrightarrow> same_state (recompute_disk_usage_from_metadata m) m"
  using normalize_view [of m] by (simp add: same_state_def recompute_disk_usage_from_metadata_def Let_def)

lemma kept_backend [simp]:
  "m_backend (normalize_metadata_layouts m) = m_backend m" "m_backend (recompute_disk_usage_from_metadata m) = m_backend m"
  by (simp_all add: normalize_metadata_layouts_def recompute_disk_usage_from_metadata_def Let_def)

text \<open>The owners of the inodes.\<close>

definition owners :: "metadata \<Rightarrow> inode_id \<rightharpoonup> 32 word" where
  "owners m i = map_option i_uid (map_of (m_inodes m) i)"

lemma owners_normalize [simp]: "owners (normalize_metadata_layouts m) = owners m" "owners (recompute_disk_usage_from_metadata m) = owners m"
proof -
  have "map_of (map (\<lambda>(k, i). (k, i\<lparr>i_blocks := map normalize_block (i_blocks i)\<rparr>)) X) k
      = map_option (\<lambda>i. i\<lparr>i_blocks := map normalize_block (i_blocks i)\<rparr>) (map_of X k)" for X :: "(inode_id, inode) btree" and k
    by (induction X) auto
  then show n: "owners (normalize_metadata_layouts m) = owners m" for m
    by (simp add: owners_def fun_eq_iff normalize_metadata_layouts_def Let_def option.map_comp comp_def)
  show "owners (recompute_disk_usage_from_metadata m) = owners m"
    using n [of m] by (simp add: owners_def fun_eq_iff recompute_disk_usage_from_metadata_def Let_def)
qed

lemma same_state_vns: "same_state a b \<Longrightarrow> ns_of (m_inodes a) = ns_of (m_inodes b)"
  by (simp add: same_state_def)

lemma in_stepI:
  assumes "serde_exact cd" "m_backend m = Host" "synced cd (v_store v) m" "same_state (v_meta v) m" "meta_ok m"
    and "rs_codec_new rs (c_k (m_config m)) (c_m (m_config m)) = Inr c"
  shows "in_step cd rs v"
  using assms same_state_ok [OF assms(4,5)] unfolding in_step_def by (auto simp: same_state_def)

lemma in_stepE:
  assumes "in_step cd rs v"
  obtains m c where "serde_exact cd" "m_backend m = Host" "synced cd (v_store v) m" "same_state (v_meta v) m" "meta_ok m"
    "rs_codec_new rs (c_k (m_config m)) (c_m (m_config m)) = Inr c"
proof -
  obtain m c where m: "synced cd (v_store v) m" "same_state (v_meta v) m"
    "rs_codec_new rs (c_k (m_config (v_meta v))) (c_m (m_config (v_meta v))) = Inr c"
    using assms by (auto simp: in_step_def)
  have "meta_ok m" by (rule same_state_ok [OF same_state_sym [OF m(2)]]) (use assms in \<open>simp add: in_step_def\<close>)
  moreover have "m_backend m = Host" "m_config (v_meta v) = m_config m" "serde_exact cd"
    using m(2) assms by (simp_all add: same_state_def in_step_def)
  ultimately show thesis using that [of m c] m by simp
qed

lemma open_host_ready:
  assumes ser: "serde_exact (ve_codec e)" and st: "load_or_recover (ve_codec e) st = Inr (m, report, st')" "synced (ve_codec e) st' m"
    and ok: "m_backend m = Host" "meta_ok m" "rs_codec_new (he_rs h) (c_k (m_config m)) (c_m (m_config m)) = Inr c"
  shows "\<exists>v. open_host e h directory st = Inr v \<and> in_step (ve_codec e) (he_rs h) v \<and> vns v = ns_of (m_inodes m)
    \<and> same_state (v_meta v) m \<and> owners (v_meta v) = owners m"
proof -
  let ?m = "recompute_disk_usage_from_metadata (normalize_metadata_layouts (m\<lparr>m_backend := Host\<rparr>))"
  have t: "table_ok (m_inodes m)" using ok(2) by (simp add: meta_ok_def)
  have "same_state (m\<lparr>m_backend := Host\<rparr>) m" using t ok(1) by (simp add: same_state_def)
  then have s: "same_state ?m m"
    using recompute_view normalize_view same_state_trans t by (metis same_state_def)
  then have ok': "meta_ok ?m" by (rule same_state_ok [OF _ ok(2)])
  have fmt: "m_format ?m = FORMAT_VERSION" using s st(2) by (simp add: same_state_def synced_def meta_sealed_def)
  obtain quota where q: "quota_from_metadata ?m = Inr quota"
    using quota_from_metadata_total [OF meta_ok_entries_exist [OF meta_ok_inv [OF ok']]] by blast
  have "m_config ?m = m_config m" using s by (simp add: same_state_def)
  then obtain v where v: "open_host e h directory st = Inr v" "v_meta v = ?m" "v_store v = st'"
    using st(1) fmt ok(3) q by (simp add: open_host_def Let_def)
  moreover have "in_step (ve_codec e) (he_rs h) v"
    by (rule in_stepI [OF ser ok(1) _ _ ok(2,3)]) (use v s st(2) in simp_all)
  moreover have "owners ?m = owners m" by (simp add: owners_def [of "m\<lparr>m_backend := Host\<rparr>"] owners_def [of m] fun_eq_iff)
  ultimately show ?thesis using s by (auto simp: vns_def same_state_def)
qed

lemma next_meta_view [simp]:
  "m_inodes (next_meta cd m (next_transaction e meta)) = m_inodes meta"
  "m_next_inode (next_meta cd m (next_transaction e meta)) = m_next_inode meta"
  "m_backend (next_meta cd m (next_transaction e meta)) = m_backend meta"
  "m_config (next_meta cd m (next_transaction e meta)) = m_config meta"
  by (simp_all add: next_meta_def next_transaction_def)

lemma next_meta_ok: "meta_ok (next_meta cd m (next_transaction e meta)) = meta_ok meta"
  by (simp add: meta_ok_def)

lemma committed_points: "point \<in> written_points \<Longrightarrow> transaction_error_is_committed (InjectedCrash point)"
  by (auto simp: written_points_def transaction_error_is_committed_def)

lemma not_committed: "\<not> transaction_error_is_committed Conflict" "\<not> transaction_error_is_committed (InjectedCrash ''before-journal'')"
  by (simp_all add: transaction_error_is_committed_def)

lemma rebuild_succeeds:
  assumes "meta_ok (v_meta w)"
  obtains rt where "rebuild_quota_runtime_locked w = (w\<lparr>v_quota := rt\<rparr>, Inr ())"
  using quota_from_metadata_total [OF meta_ok_entries_exist [OF meta_ok_inv [OF assms]]] by (auto simp: rebuild_quota_runtime_locked_def)

lemma commit_host_run:
  assumes v: "in_step (ve_codec e) rs v" and w: "base w = base v" and lim: "m_txid (v_meta v) < u64_max"
  obtains m c details where "serde_exact (ve_codec e)" "m_backend m = Host" "synced (ve_codec e) (v_store v) m"
    "same_state (v_meta v) m" "meta_ok m" "rs_codec_new rs (c_k (m_config m)) (c_m (m_config m)) = Inr c"
    "m_backend (v_meta w) = Host" "m_config (v_meta w) = m_config m"
    "tx_input m (next_transaction e (v_meta w))" "tx_exact (ve_codec e) (v_store v) m (next_transaction e (v_meta w)) a details (ve_now e)"
    "commit_host e p a d w = finish_commit e w (append_transaction_checked (ve_codec e) (ve_checkpoint_interval e)
       (ve_compaction_disabled e) (ve_inject e) (ve_now e) (v_store v) (next_transaction e (v_meta w)) (Some (m_txid m)) a details)"
proof -
  let ?cd = "ve_codec e" and ?meta = "next_transaction e (v_meta w)"
  obtain m c where m: "serde_exact ?cd" "m_backend m = Host" "synced ?cd (v_store v) m" "same_state (v_meta v) m" "meta_ok m"
    "rs_codec_new rs (c_k (m_config m)) (c_m (m_config m)) = Inr c"
    using in_stepE [OF v] by blast
  have b: "v_store w = v_store v" "m_backend (v_meta w) = Host" "m_integrity (v_meta w) = m_integrity m" "m_txid (v_meta w) = m_txid m"
    "m_format (v_meta w) = m_format m" "m_config (v_meta w) = m_config m"
    using w m(2,4) by (simp_all add: base_def same_state_def)
  have ok: "codec_ok ?cd" using m(1) by (simp add: serde_exact_def)
  have sealed: "meta_sealed ?cd m" using m(3) by (simp add: synced_def)
  have hash: "previous_meta_hash_of e (v_meta w) = Inr (mi_meta_hash (m_integrity m))"
    using meta_sealed_hash [OF ok sealed] b(3) by (simp add: previous_meta_hash_of_def)
  have "m_txid m < u64_max" using lim m(4) by (simp add: same_state_def)
  then have tx: "tx_input m ?meta"
    using b sealed by (simp add: tx_input_def next_transaction_def wrap_add_eq meta_sealed_def)
  define details where "details = JObject [(''details'', d), (''previous_meta_hash'', JString (mi_meta_hash (m_integrity m))),
                                  (''txid'', jnum (m_txid ?meta))]"
  have ex: "tx_exact ?cd (v_store v) m ?meta a details (ve_now e)"
    using m(1) by (simp add: tx_exact_def serde_exact_def)
  show thesis
    by (rule that [OF m b(2,6) tx ex]) (simp add: commit_host_def hash b(1,4) details_def Let_def)
qed

lemma commit_host_uncut:
  assumes v: "in_step (ve_codec e) rs v" and w: "base w = base v" and lim: "m_txid (v_meta v) < u64_max"
    and uncut: "\<And>point. \<not> ve_inject e point"
  shows "\<exists>w'. commit_host e p a d w = (w', Inr ())"
proof (rule commit_host_run [OF v w lim, of a p d])
  fix m :: metadata and details
  let ?run = "append_transaction_checked (ve_codec e) (ve_checkpoint_interval e) (ve_compaction_disabled e) (ve_inject e) (ve_now e)
      (v_store v) (next_transaction e (v_meta w)) (Some (m_txid m)) a details"
  assume m: "serde_exact (ve_codec e)" "synced (ve_codec e) (v_store v) m" "tx_input m (next_transaction e (v_meta w))"
    "tx_exact (ve_codec e) (v_store v) m (next_transaction e (v_meta w)) a details (ve_now e)"
    and run: "commit_host e p a d w = finish_commit e w ?run"
  obtain st mm res where r: "?run = (st, mm, res)" by (metis prod_cases3)
  have "codec_ok (ve_codec e)" using m(1) by (simp add: serde_exact_def)
  then have "res = Inr ()" by (rule transaction_uncut [OF _ m(2-4) r uncut])
  then show ?thesis using run r by (simp add: finish_commit_def)
qed

lemma commit_host_cases:
  assumes v: "in_step (ve_codec e) rs v" and w: "meta_ok (v_meta w)" "base w = base v" and lim: "m_txid (v_meta v) < u64_max"
    and run: "commit_host e p a d w = (w', r)"
  obtains (finished) "r = Inr ()" "in_step (ve_codec e) rs w'" "tab w' = tab w"
    | (undone) err where "r = Inl err" "\<not> transaction_error_is_committed err" "in_step (ve_codec e) rs w'" "vns w' = vns v"
        "in_step (ve_codec e) rs (w'\<lparr>v_meta := v_meta v\<rparr>)"
    | (unsure) err n report st c where "r = Inl err" "transaction_error_is_committed err" "tab w' = tab w"
        "load_or_recover (ve_codec e) (v_store w') = Inr (n, report, st)" "synced (ve_codec e) st n" "m_inodes n = m_inodes (v_meta w)"
        "m_backend n = Host" "meta_ok n" "rs_codec_new rs (c_k (m_config n)) (c_m (m_config n)) = Inr c"
proof -
  let ?cd = "ve_codec e" and ?meta = "next_transaction e (v_meta w)"
  obtain m c details where m: "serde_exact ?cd" "m_backend m = Host" "synced ?cd (v_store v) m" "same_state (v_meta v) m" "meta_ok m"
    "rs_codec_new rs (c_k (m_config m)) (c_m (m_config m)) = Inr c"
    and b: "m_backend (v_meta w) = Host" "m_config (v_meta w) = m_config m"
    and tx: "tx_input m ?meta" and ex: "tx_exact ?cd (v_store v) m ?meta a details (ve_now e)"
    and com: "commit_host e p a d w = finish_commit e w (append_transaction_checked ?cd (ve_checkpoint_interval e)
       (ve_compaction_disabled e) (ve_inject e) (ve_now e) (v_store v) ?meta (Some (m_txid m)) a details)"
    by (rule commit_host_run [OF v w(2) lim, of a p d])
  let ?n = "next_meta ?cd m ?meta"
  have ok: "codec_ok ?cd" using m(1) by (simp add: serde_exact_def)
  obtain st1 meta2 res where app: "append_transaction_checked ?cd (ve_checkpoint_interval e) (ve_compaction_disabled e) (ve_inject e)
      (ve_now e) (v_store v) ?meta (Some (m_txid m)) a details = (st1, meta2, res)"
    by (metis prod_cases3)
  note com = com [unfolded app finish_commit_def]
  show thesis
  proof (rule transaction_recovers [OF ok m(3) tx ex app])
    assume 1: "st1 = v_store v" "res \<noteq> Inr ()" "res = Inl Conflict \<or> res = Inl (InjectedCrash ''before-journal'')"
    then obtain err where err: "res = Inl err" "\<not> transaction_error_is_committed err" using not_committed by auto
    obtain report st' where rec: "load_or_recover ?cd (v_store v) = Inr (m, report, st')" "synced ?cd st' m"
      using load_or_recover_synced [OF ok m(3)] by blast
    let ?v = "w\<lparr>v_meta := recompute_disk_usage_from_metadata m, v_store := st'\<rparr>"
    have t: "table_ok (m_inodes m)" using m(5) by (simp add: meta_ok_def)
    have s: "same_state (recompute_disk_usage_from_metadata m) m" by (rule recompute_view [OF t])
    obtain rt where rt: "rebuild_quota_runtime_locked ?v = (?v\<lparr>v_quota := rt\<rparr>, Inr ())"
      using rebuild_succeeds [of ?v] same_state_ok [OF s m(5)] by auto
    have w': "w' = ?v\<lparr>v_quota := rt\<rparr>" "r = Inl err"
      using run com err rec 1(1) rt by (simp_all add: Let_def sbind_def sthrow_def)
    have w'': "v_meta w' = recompute_disk_usage_from_metadata m" "v_store w' = st'" by (simp_all add: w')
    show thesis
    proof (rule undone [OF w'(2) err(2)])
      show "in_step ?cd rs w'" by (rule in_stepI [OF m(1,2) _ _ m(5,6)]) (use w'' s rec(2) in simp_all)
      show "in_step ?cd rs (w'\<lparr>v_meta := v_meta v\<rparr>)" by (rule in_stepI [OF m(1,2) _ _ m(5,6)]) (use w'' m(4) rec(2) in simp_all)
      show "vns w' = vns v" using s m(4) by (simp add: vns_def w'' same_state_def)
    qed
  next
    assume 2: "res = Inr ()" "meta2 = ?n" "synced ?cd st1 meta2"
    then have w': "w' = w\<lparr>v_meta := ?n, v_store := st1\<rparr>" "r = Inr ()" using run com by simp_all
    show thesis
    proof (rule finished [OF w'(2)])
      show "tab w' = tab w" by (simp add: w' tab_def)
      have "table_ok (m_inodes (v_meta w))" using w(1) by (simp add: meta_ok_def)
      then show "in_step ?cd rs w'"
        by (intro in_stepI [where m = ?n and c = c]) (use 2 w' w(1) m b in \<open>simp_all add: same_state_refl next_meta_ok\<close>)
    qed
  next
    fix report st'' point
    assume 3: "load_or_recover ?cd st1 = Inr (?n, report, st'')" "synced ?cd st'' ?n" "meta2 = ?n" "res = Inl (InjectedCrash point)"
      "point \<in> written_points"
    let ?v = "w\<lparr>v_meta := ?n, v_store := st1\<rparr>"
    obtain rt where rt: "rebuild_quota_runtime_locked ?v = (?v\<lparr>v_quota := rt\<rparr>, Inr ())"
      using rebuild_succeeds [of ?v] w(1) by (auto simp: next_meta_ok)
    have w': "w' = ?v\<lparr>v_quota := rt\<rparr>" "r = Inl (InjectedCrash point)"
      using run com 3(3,4) committed_points [OF 3(5)] rt by (simp_all add: Let_def sbind_def sthrow_def)
    show thesis
    proof (rule unsure [OF w'(2) committed_points [OF 3(5)]])
      show "load_or_recover ?cd (v_store w') = Inr (?n, report, st'')" by (simp add: w' 3(1))
    qed (use 3(2) w(1) m(6) b in \<open>simp_all add: w' tab_def next_meta_ok\<close>)
  qed
qed

lemma in_step_same:
  assumes "in_step cd rs v" "tab w = tab v" "base w = base v"
  shows "in_step cd rs w"
proof -
  obtain m c where m: "serde_exact cd" "m_backend m = Host" "synced cd (v_store v) m" "same_state (v_meta v) m" "meta_ok m"
    "rs_codec_new rs (c_k (m_config m)) (c_m (m_config m)) = Inr c"
    using in_stepE [OF assms(1)] by blast
  have "same_state (v_meta w) m" "v_store w = v_store v"
    using m(4) assms(2,3) by (simp_all add: same_state_def tab_def base_def)
  then show ?thesis by (intro in_stepI [OF m(1,2) _ _ m(5,6)]) (use m(3) in simp_all)
qed

lemma in_step_reopens:
  assumes "in_step (ve_codec e) (he_rs h) v"
  shows "\<exists>v'. open_host e h directory (v_store v) = Inr v' \<and> in_step (ve_codec e) (he_rs h) v' \<and> vns v' = vns v"
proof -
  obtain m c where m: "serde_exact (ve_codec e)" "m_backend m = Host" "synced (ve_codec e) (v_store v) m" "same_state (v_meta v) m"
    "meta_ok m" "rs_codec_new (he_rs h) (c_k (m_config m)) (c_m (m_config m)) = Inr c"
    using in_stepE [OF assms] by blast
  have "codec_ok (ve_codec e)" using m(1) by (simp add: serde_exact_def)
  then obtain report st' where "load_or_recover (ve_codec e) (v_store v) = Inr (m, report, st')" "synced (ve_codec e) st' m"
    using load_or_recover_synced [OF _ m(3)] by blast
  then show ?thesis
    using open_host_ready [OF m(1) _ _ m(2,5,6)] same_state_vns [OF m(4)] unfolding vns_def by fastforce
qed

interpretation hc: committing "commit_host e" "in_step (ve_codec e) (he_rs h)" "\<lambda>v. open_host e h directory (v_store v)"
  for e h directory
proof (unfold_locales, goal_cases)
  case (1 v)
  then show ?case by (simp add: in_step_def)
next
  case (2 v w)
  then show ?case by (rule in_step_same)
next
  case (3 v)
  then show ?case by (rule in_step_reopens)
next
  case (4 v w p a d w')
  show ?case by (rule commit_host_cases [OF 4(1-5)]) simp_all
next
  case (5 v w p a d w' err)
  show ?case by (rule commit_host_cases [OF 5(1-5)]) (use 5(6) in simp_all)
next
  case (6 v w p a d w' err)
  show ?case
  proof (rule commit_host_cases [OF 6(1-5)])
    fix err' n report st c
    assume n: "tab w' = tab w" "load_or_recover (ve_codec e) (v_store w') = Inr (n, report, st)" "synced (ve_codec e) st n"
      "m_inodes n = m_inodes (v_meta w)" "m_backend n = Host" "meta_ok n" "rs_codec_new (he_rs h) (c_k (m_config n)) (c_m (m_config n)) = Inr c"
    have ser: "serde_exact (ve_codec e)" using 6(1) by (simp add: in_step_def)
    show ?case using open_host_ready [OF ser n(2,3) n(5-7), of directory] n(1,4) unfolding vns_def by auto
  qed (use 6(6) in simp_all)
qed

end
