(* ===== verification/Argos_Service.thy ===== *)
theory Argos_Service
  imports Argos_Host
begin

text \<open>
  The life of a volume in a host directory: it is made by \<open>create\<close>, serves requests, is cut off in the middle of a
  commit and opened again, in any order. What holds of its namespace at every point of such a history.
\<close>

section \<open>Making a volume\<close>

text \<open>No counter is at the end of its range, as before any request that would exceed it.\<close>

definition within_limits :: "volume \<Rightarrow> bool" where
  "within_limits v \<longleftrightarrow> m_txid (v_meta v) < u64_max \<and> m_next_inode (v_meta v) < u64_max \<and> below_limit (m_inodes (v_meta v))"

definition only_root :: nspace where
  "only_root = \<lparr>nk = [ROOT_INO \<mapsto> Directory], lk = (\<lambda>_. None)\<rparr>"

lemma root_inode_fields [simp]:
  "i_id (root_inode t uid gid) = ROOT_INO" "i_kind (root_inode t uid gid) = Directory" "i_entries (root_inode t uid gid) = []"
  "i_nlink (root_inode t uid gid) = 2"
  by (simp_all add: root_inode_def)

lemma new_table: "ns_of [(ROOT_INO, root_inode t uid gid)] = only_root" "nlinks [(ROOT_INO, root_inode t uid gid)] = [ROOT_INO \<mapsto> 2]"
  by (auto simp: ns_of_def only_root_def nlinks_def fun_eq_iff)

lemma only_root_ok: "tree_ok ROOT_INO only_root" "link_count only_root ROOT_INO = 2"
  by (simp_all add: only_root_def tree_ok_def is_dir_def link_count_def subdirs_def)

lemma new_metadata_ok: "meta_ok (new_metadata e h config n)"
proof -
  have "table_ok [(ROOT_INO, root_inode (ve_now e) (ve_uid e) (ve_gid e))]"
    by (simp add: table_ok_def bt_ok_def)
  then show ?thesis
    by (simp add: meta_ok_def new_metadata_def counts_ok_def new_table only_root_ok)
qed

lemma initialized_ready:
  assumes ser: "serde_exact (ve_codec e)" and c: "rs_codec_new (he_rs h) (c_k config) (c_m config) = Inr c"
  shows "\<exists>st meta v. initialize_volume (ve_codec e) no_store (normalize_metadata_layouts (new_metadata e h config n)) (ve_now e) = Inr (st, meta)
    \<and> open_host e h directory st = Inr v \<and> in_step (ve_codec e) (he_rs h) v \<and> vns v = only_root \<and> within_limits v \<and> owners (v_meta v) ROOT_INO = Some (ve_uid e)"
proof -
  let ?cd = "ve_codec e" and ?m = "normalize_metadata_layouts (new_metadata e h config n)"
  let ?n = "mkfs_meta ?cd ?m"
  have ok: "codec_ok ?cd" using ser by (simp add: serde_exact_def)
  have t: "table_ok (m_inodes (new_metadata e h config n))" using new_metadata_ok by (simp add: meta_ok_def)
  note s = normalize_view [OF t]
  have f: "m_format ?m = FORMAT_VERSION" "m_backend ?m = Host" "m_config ?m = config"
    "ns_of (m_inodes ?m) = only_root" "nlinks (m_inodes ?m) = [ROOT_INO \<mapsto> 2]" "m_txid ?m = 0" "m_next_inode ?m = ROOT_INO + 1" "meta_ok ?m"
    using s same_state_ok [OF s new_metadata_ok] by (simp_all add: same_state_def new_metadata_def new_table)
  obtain st where i: "initialize_volume ?cd no_store ?m (ve_now e) = Inr (st, ?n)" and sy: "synced ?cd st ?n"
  proof (rule initialize_synced [OF ok _ f(1)])
    show "ms_journal no_store = None" by (simp add: no_store_def)
  qed (use ser in \<open>simp_all add: serde_exact_def\<close>)
  obtain report st2 where l: "load_or_recover ?cd st = Inr (?n, report, st2)" "synced ?cd st2 ?n"
    using load_or_recover_synced [OF ok sy] by blast
  have n: "m_backend ?n = Host" "meta_ok ?n" "rs_codec_new (he_rs h) (c_k (m_config ?n)) (c_m (m_config ?n)) = Inr c"
    "ns_of (m_inodes ?n) = only_root"
    using f c by (simp_all add: mkfs_meta_def meta_ok_def)
  obtain v where v: "open_host e h directory st = Inr v" "in_step ?cd (he_rs h) v" "vns v = only_root" "same_state (v_meta v) ?n"
    "owners (v_meta v) = owners ?n"
    using open_host_ready [OF ser l n(1-3), of directory] n(4) by auto
  have "owners ?n = owners ?m" by (rule ext) (simp add: owners_def mkfs_meta_def del: owners_normalize)
  then have "owners (v_meta v) ROOT_INO = Some (ve_uid e)" using v(5) by simp (simp add: owners_def new_metadata_def root_inode_def)
  moreover
  have "nlinks (m_inodes (v_meta v)) = [ROOT_INO \<mapsto> 2]" "m_txid (v_meta v) = 0" "m_next_inode (v_meta v) = ROOT_INO + 1"
    using v(4) f by (simp_all add: same_state_def mkfs_meta_def)
  then have "within_limits v" by (simp add: within_limits_def below_limit_def u64_max_def ROOT_INO_def)
  ultimately show ?thesis using i v by blast
qed

lemma created_ready:
  assumes ser: "serde_exact (ve_codec e)" and run: "create_host e h directory config n force existing = Inr v"
  shows "in_step (ve_codec e) (he_rs h) v \<and> vns v = only_root \<and> within_limits v \<and> owners (v_meta v) ROOT_INO = Some (ve_uid e)"
proof -
  obtain config' c st meta where c: "rs_codec_new (he_rs h) (c_k config') (c_m config') = Inr c"
    and i: "initialize_volume (ve_codec e) no_store (normalize_metadata_layouts (new_metadata e h config' n)) (ve_now e) = Inr (st, meta)"
    and op: "open_host e h directory st = Inr v"
    using run by (auto simp: create_host_def rbind_eq_Inr_iff Let_def split: if_split_asm)
  then show ?thesis using initialized_ready [OF ser c, of n directory] by auto
qed

section \<open>Histories\<close>

text \<open>A volume is made, serves requests, is cut off in the middle of a commit and opened again, in any order.\<close>

inductive served :: "codec \<Rightarrow> reed_solomon \<Rightarrow> volume \<Rightarrow> bool" for cd rs where
  create: "ve_codec e = cd \<Longrightarrow> he_rs h = rs \<Longrightarrow> create_host e h directory config n force existing = Inr v \<Longrightarrow> served cd rs v"
| request: "served cd rs v \<Longrightarrow> ve_codec e = cd \<Longrightarrow> within_limits v \<Longrightarrow> perform (commit_host e) e req v = (w, r)
    \<Longrightarrow> (\<forall>err. r = Inl err \<longrightarrow> \<not> transaction_error_is_committed err) \<Longrightarrow> served cd rs w"
| crash: "served cd rs v \<Longrightarrow> ve_codec e = cd \<Longrightarrow> within_limits v \<Longrightarrow> perform (commit_host e) e req v = (w, Inl err)
    \<Longrightarrow> ve_codec e' = cd \<Longrightarrow> he_rs h = rs \<Longrightarrow> open_host e' h directory (v_store w) = Inr v' \<Longrightarrow> served cd rs v'"
| reopen: "served cd rs v \<Longrightarrow> ve_codec e = cd \<Longrightarrow> he_rs h = rs \<Longrightarrow> open_host e h directory (v_store v) = Inr v' \<Longrightarrow> served cd rs v'"

lemma roomy_ready: "in_step cd rs v \<Longrightarrow> within_limits v \<Longrightarrow> roomy v"
  by (simp add: in_step_def within_limits_def roomy_def)

lemma request_outcome:
  assumes v: "in_step (ve_codec e) (he_rs h) v" "within_limits v" and run: "perform (commit_host e) e req v = (w, r)"
  obtains (finished) change where "r = Inr ()" "in_step (ve_codec e) (he_rs h) w" "change \<in> changes e v req"
      "ns_step ROOT_INO change (vns v) (vns w)"
    | (undone) err where "r = Inl err" "in_step (ve_codec e) (he_rs h) w" "vns w = vns v"
    | (unsure) err change v' where "r = Inl err" "transaction_error_is_committed err" "change \<in> changes e v req"
        "ns_step ROOT_INO change (vns v) (vns w)" "open_host e h directory (v_store w) = Inr v'" "in_step (ve_codec e) (he_rs h) v'"
        "vns v' = vns w"
proof -
  have l: "m_txid (v_meta v) < u64_max" using v(2) by (simp add: within_limits_def)
  note R = request_leads [OF roomy_ready [OF v], of e req]
  show thesis
  proof (rule hc.operation_outcome [OF R v(1) l run])
    fix x change assume "r = Inr x" "in_step (ve_codec e) (he_rs h) w" "change \<in> changes e v req" "ns_step ROOT_INO change (vns v) (vns w)"
    then show thesis by (intro finished) simp_all
  qed (erule undone, assumption+, erule (6) unsure)
qed

lemma open_host_codec: "ve_codec e = ve_codec e' \<Longrightarrow> open_host e h directory st = open_host e' h directory st"
  by (simp add: open_host_def)

lemma served_ready:
  assumes ser: "serde_exact cd"
  shows "served cd rs v \<Longrightarrow> in_step cd rs v"
proof (induction rule: served.induct)
  case (create e h directory config n force existing v)
  then show ?case using created_ready [of e h directory config n force existing v] ser by simp
next
  case (request v e req w r)
  define h where "h = (undefined :: host_env)\<lparr>he_rs := rs\<rparr>"
  have h: "he_rs h = rs" by (simp add: h_def)
  have v: "in_step (ve_codec e) (he_rs h) v" using request.IH request.hyps(2) h by simp
  have "in_step (ve_codec e) (he_rs h) w"
  proof (rule request_outcome [OF v request.hyps(3,4)])
    fix err assume "r = Inl err" "transaction_error_is_committed err"
    then show ?thesis using request.hyps(5) by simp
  qed
  then show ?case using request.hyps(2) h by simp
next
  case (crash v e req w err e' h directory v')
  have v: "in_step (ve_codec e) (he_rs h) v" using crash.IH crash.hyps(2,6) by simp
  note reopens = in_step_reopens [of e h w directory]
  have "\<exists>v''. open_host e h directory (v_store w) = Inr v'' \<and> in_step (ve_codec e) (he_rs h) v''"
  proof (rule request_outcome [OF v crash.hyps(3,4), where directory = directory], goal_cases)
    case (1 change)
    then show ?case using reopens by blast
  next
    case (2 err)
    then show ?case using reopens by blast
  next
    case (3 err change v'')
    then show ?case by blast
  qed
  then obtain v'' where "open_host e h directory (v_store w) = Inr v''" "in_step (ve_codec e) (he_rs h) v''" by blast
  moreover have "open_host e h directory (v_store w) = Inr v'"
    using crash.hyps(2,5,7) open_host_codec [of e e'] by simp
  ultimately show ?case using crash.hyps(2,6) by simp
next
  case (reopen v e h directory v')
  then show ?case using in_step_reopens [of e h v directory] by auto
qed

section \<open>An example volume\<close>

definition demo_probe :: disk_probe where
  "demo_probe = \<lparr>p_class = Ssd, p_backing_device = None, p_backing_fs_id = None, p_sysfs_block = None, p_rotational = None,
     p_numa_node = None, p_capacity_bytes = 4096, p_available_bytes = 4096, p_measured_read_mib_s = 0, p_measured_write_mib_s = 0,
     p_measured_read_latency_ms = 0, p_measured_write_latency_ms = 0, p_recommended_weight = 1, p_recommended_tier = Warm\<rparr>"

definition demo_venv :: "(string \<Rightarrow> bool) \<Rightarrow> venv" where
  "demo_venv stops = \<lparr>ve_hashes = demo_hashes, ve_hex = demo_hex, ve_codec = number_codec, ve_cache = demo_env,
     ve_nfs4_parse = (\<lambda>_. None), ve_nfs4_print = (\<lambda>_. []), ve_uid = 1000, ve_gid = 1000, ve_now = 0, ve_checkpoint_interval = 100,
     ve_compaction_disabled = False, ve_inject = stops\<rparr>"

definition demo_host_env :: host_env where
  "demo_host_env = \<lparr>he_rs = mirror, he_uuid = ''u'', he_probe = (\<lambda>_. demo_probe), he_l2_disable = None, he_l2_size = None,
     he_cache_files = [], he_files = [], he_bulk_import = False\<rparr>"

definition demo_config :: volume_config where
  "demo_config = default_volume_config\<lparr>c_k := 1, c_m := 1\<rparr>"

definition demo_volume :: volume where
  "demo_volume = (case create_host (demo_venv (\<lambda>_. False)) demo_host_env ''/v'' demo_config 2 False None of Inr v \<Rightarrow> v)"

lemma demo_codecs [simp]: "ve_codec (demo_venv stops) = number_codec" "he_rs demo_host_env = mirror" "ve_inject (demo_venv stops) = stops"
  by (simp_all add: demo_venv_def demo_host_env_def)

lemma demo_created: "create_host (demo_venv (\<lambda>_. False)) demo_host_env ''/v'' demo_config 2 False None = Inr demo_volume"
proof -
  let ?e = "demo_venv (\<lambda>_. False)"
  have c: "rs_codec_new (he_rs demo_host_env) (c_k demo_config) (c_m demo_config) = Inr \<lparr>rs_k = 1, rs_m = 1, rs_total = 2\<rparr>"
    by (simp add: demo_config_def rs_codec_new_def mirror_def ok_or_def checked_add_def u64_max_def)
  obtain st meta v where v: "initialize_volume (ve_codec ?e) no_store (normalize_metadata_layouts (new_metadata ?e demo_host_env demo_config 2)) (ve_now ?e) = Inr (st, meta)"
    "open_host ?e demo_host_env ''/v'' st = Inr v"
    using initialized_ready [OF _ c, of ?e 2 "''/v''"] number_codec_exact by auto
  have "with_chunk_size demo_config = demo_config" by (simp add: with_chunk_size_def demo_config_def default_volume_config_def)
  then have "create_host ?e demo_host_env ''/v'' demo_config 2 False None = Inr v"
    using v c by (simp add: create_host_def checked_layout_total_def ok_or_def checked_add_def u64_max_def demo_config_def
        validate_commit_policy_def default_volume_config_def)
  then show ?thesis by (simp add: demo_volume_def)
qed

lemma demo_served: "served number_codec mirror demo_volume"
  by (rule served.create [OF _ _ demo_created]) simp_all

lemma demo_state: "in_step number_codec mirror demo_volume" "vns demo_volume = only_root" "within_limits demo_volume"
  "owners (v_meta demo_volume) ROOT_INO = Some 1000"
  using created_ready [OF _ demo_created] number_codec_exact by (simp_all add: demo_venv_def)

text \<open>A request that fails: there is no inode 99.\<close>

lemma demo_failure: "perform c e (Chmod 99 0 None) demo_volume = (demo_volume, Inl NotFound)"
proof -
  have "nk (vns demo_volume) 99 = None" by (simp add: demo_state(2) only_root_def ROOT_INO_def)
  then have "map_of (m_inodes (v_meta demo_volume)) 99 = None" by (simp add: vns_def ns_of_simps)
  moreover have "m_backend (v_meta demo_volume) = Host" using demo_state(1) by (simp add: in_step_def)
  ultimately show ?thesis
    by (simp add: silently_def chmod_inode_checked_def sbind_def sread_def ensure_block_backend_writable_locked_def get_inode_def ok_or_def)
qed

section \<open>What holds of every history\<close>

lemma served_step:
  assumes "serde_exact cd" "served cd rs v" "ve_codec e = cd" "he_rs h = rs"
  shows "in_step (ve_codec e) (he_rs h) v"
  using served_ready [OF assms(1,2)] assms(3,4) by simp

text \<open>A commit that is not cut off succeeds, so an operation that reaches its commit does, and one that fails has failed before it, with nothing changed.\<close>

lemma uncut_commit:
  assumes w: "staged v C w" "tidy R w k" and v: "in_step (ve_codec e) rs v" "m_txid (v_meta v) < u64_max"
    and uncut: "\<And>point. \<not> ve_inject e point"
  shows "\<exists>w' x. sbind (son_error (commit_host e p a d) h) k w = (w', Inr x) \<and> R x"
proof -
  have b: "meta_ok (v_meta w)" "base w = base v" using w(1) by (simp_all add: staged_def)
  obtain w1 where w1: "commit_host e p a d w = (w1, Inr ())" using commit_host_uncut [OF v(1) b(2) v(2) uncut] by blast
  have "tab w1 = tab w" by (rule commit_host_cases [OF v(1) b v(2) w1]) simp_all
  then obtain w2 y where "k () w1 = (w2, Inr y)" "R y" using w(2) unfolding tidy_def by blast
  then show ?thesis using w1 by (simp add: sbind_def son_error_def)
qed

lemma uncut_failure:
  assumes F: "leads R v F v C" and v: "in_step (ve_codec e) rs v" "m_txid (v_meta v) < u64_max"
    and uncut: "\<And>point. \<not> ve_inject e point" and run: "F (commit_host e) v = (w, Inl err)"
  shows "w = v"
proof -
  consider err where "F (commit_host e) v = (v, Inl err)" | x where "F (commit_host e) v = (v, Inr x)"
    | v1 p a d h k where "staged v C v1" "tidy R v1 k" "F (commit_host e) v = sbind (son_error (commit_host e p a d) h) k v1"
    using F unfolding leads_def by blast
  then show ?thesis
  proof cases
    case (3 v1 p a d h k)
    then show ?thesis using uncut_commit [OF 3(1,2) v uncut, of p a d h] run by auto
  qed (use run in simp_all)
qed

lemma uncut_success:
  assumes "reaches R v F v C" "in_step (ve_codec e) rs v" "m_txid (v_meta v) < u64_max" "\<And>point. \<not> ve_inject e point"
  shows "\<exists>w x. F (commit_host e) v = (w, Inr x) \<and> R x"
proof -
  obtain v1 p a d h k where "staged v C v1" "tidy R v1 k" "\<forall>commit. F commit v = sbind (son_error (commit p a d) h) k v1"
    using assms(1) unfolding reaches_def by blast
  then show ?thesis using uncut_commit [OF _ _ assms(2-4), of C v1 R k p a d h] by simp
qed

lemma stored_inode:
  assumes "meta_ok (v_meta v)" "map_of (m_inodes (v_meta v)) i = Some inode"
  shows "i_id inode = i" "unat (i_nlink inode) = link_count (vns v) i" "i < m_next_inode (v_meta v)"
  using assms unfolding meta_ok_def table_ok_def counts_ok_def vns_def by (auto simp: nlinks_def)

section \<open>The claims\<close>











end
