(* ===== verification/Argos_Access.thy ===== *)
theory Argos_Access
  imports Argos_Service
begin

text \<open>
  What the operations refuse and what they grant: moves of a directory into itself, removals from sticky directories,
  changes of owner and mode by callers without privilege, and that an extended attribute that was set is read back.
\<close>

section \<open>Refusing a request\<close>

text \<open>\<open>rejects v F\<close>: at \<open>v\<close> the operation ends with an error and \<open>v\<close> as it was. \<open>stays v F\<close>: it ends with \<open>v\<close> as it was.\<close>

definition rejects :: "volume \<Rightarrow> 'a vop \<Rightarrow> bool" where
  "rejects v F \<longleftrightarrow> (\<exists>err. F v = (v, Inl err))"

definition stays :: "volume \<Rightarrow> 'a vop \<Rightarrow> bool" where
  "stays v F \<longleftrightarrow> fst (F v) = v"

lemma rejects_throw: "rejects v (sthrow err)"
  by (simp add: rejects_def sthrow_def)

lemma rejects_check:
  assumes "\<And>x. g v = Inr x \<Longrightarrow> rejects v (F x)"
  shows "rejects v (sbind (sread g) F)"
  using assms by (cases "g v") (simp_all add: rejects_def sbind_def sread_def)

lemma rejects_if: "(b \<Longrightarrow> rejects v F) \<Longrightarrow> (\<not> b \<Longrightarrow> rejects v G) \<Longrightarrow> rejects v (if b then F else G)"
  by simp

lemma stays_check:
  assumes "\<And>x. g v = Inr x \<Longrightarrow> stays v (F x)"
  shows "stays v (sbind (sread g) F)"
  using assms by (cases "g v") (simp_all add: stays_def sbind_def sread_def)

lemma stays_if: "(b \<Longrightarrow> stays v F) \<Longrightarrow> (\<not> b \<Longrightarrow> stays v G) \<Longrightarrow> stays v (if b then F else G)"
  by simp

lemma stays_end: "stays v (sthrow err)" "stays v (sret x)"
  by (simp_all add: stays_def sthrow_def sret_def)

lemma rename_into_itself_rejected:
  assumes inv: "table_inv (m_inodes (v_meta v))" and c: "lk (vns v) (p, n) = Some c" "is_dir (vns v) c" "(c, q) \<in> (tree_edges (vns v))\<^sup>*"
  shows "rejects v (rename_locked commit e p n q m policy)"
proof -
  let ?N = "vns v"
  have t: "tree_ok ROOT_INO ?N" using inv by (simp add: table_inv_def vns_def)
  have "(p, c) \<in> tree_edges ?N" using c(1) by blast
  then have pq: "p \<noteq> q" using tree_acyclic [OF t c(2)] c(3) by auto
  have l: "map_of (i_entries parent) n = Some c" if "dir_inode_locked (v_meta v) p = Inr parent" for parent
    using c(1) that by (simp add: vns_def ns_of_simps dir_inode_eq)
  have ni: "not_into_itself (v_meta v) child c q = Inl Invalid" if "get_inode (v_meta v) c = Inr child" for child
    using not_into_itself_eq [OF inv] that c(2,3) by (simp add: get_inode_eq below_or_self_def vns_def)
  show ?thesis
    unfolding rename_locked_def
  proof (intro rejects_check rejects_if rejects_throw, goal_cases)
    case (2 _ _ parent child inode)
    then show ?case using l [OF 2(5)] ni by (auto simp: ok_or_eq)
  qed (use pq in auto)
qed

section \<open>Sticky directories\<close>

definition sticky_against :: "metadata \<Rightarrow> inode_id \<Rightarrow> string \<Rightarrow> 32 word \<Rightarrow> bool" where
  "sticky_against meta p n uid \<longleftrightarrow>
     (\<exists>parent c child. map_of (m_inodes meta) p = Some parent \<and> i_kind parent = Directory \<and> i_mode parent AND S_ISVTX \<noteq> 0
        \<and> map_of (i_entries parent) n = Some c \<and> map_of (m_inodes meta) c = Some child \<and> uid \<noteq> 0 \<and> uid \<noteq> i_uid parent \<and> uid \<noteq> i_uid child)"

lemma sticky_check:
  assumes "sticky_against meta p n uid" "dir_inode_locked meta p = Inr parent" "ok_or err (map_of (i_entries parent) n) = Inr c"
  shows "check_sticky_locked meta p c (Some uid) = Inl PermissionDenied"
  using assms by (auto simp: sticky_against_def check_sticky_locked_def dir_inode_eq get_inode_eq ok_or_eq rbind_def
      dir_inode_locked_def get_inode_def ok_or_def)

lemma sticky_unlink: "sticky_against (v_meta v) p n uid \<Longrightarrow> rejects v (unlink_locked commit e p n dir (Some uid) keep)"
  unfolding unlink_locked_def
proof (intro rejects_check, goal_cases)
  case (1 _ inode child)
  then show ?case using sticky_check [of "v_meta v" p n uid inode NotFound child] by simp
qed

lemma sticky_rename:
  assumes "sticky_against (v_meta v) p n uid" "po_uid policy = Some uid"
  shows "stays v (rename_locked commit e p n q m policy)"
  unfolding rename_locked_def
proof (intro stays_check stays_if stays_end, goal_cases)
  case (1 _ _ inode child)
  then show ?case using sticky_check [OF assms(1), of inode NotFound child] assms(2) by simp
qed

lemma sticky_replace:
  assumes "sticky_against (v_meta v) q m uid" "po_uid policy = Some uid"
  shows "stays v (rename_locked commit e p n q m policy)"
  unfolding rename_locked_def Let_def
proof (intro stays_check stays_if stays_end, goal_cases)
  case (1 _ _ parent child inode _ _ _ target)
  then show ?case
    using sticky_check [OF assms(1), of target NotFound] assms(2) unfolding rename_exchange_def
    by (intro stays_check) simp
next
  case (2 _ _ parent child inode _ _ _ target)
  obtain d where d: "map_of (i_entries target) m = Some d" using assms(1) 2 by (auto simp: sticky_against_def dir_inode_eq)
  then have "check_sticky_locked (v_meta v) q d (Some uid) = Inl PermissionDenied"
    using sticky_check [OF assms(1), of target NotFound d] 2 by (simp add: ok_or_def)
  then show ?case
    unfolding rename_move_def by (intro stays_check) (simp add: find_replaced_def d assms(2))
qed

section \<open>What a caller without privilege may change\<close>

text \<open>The inode after an operation on one inode that was committed.\<close>

lemma committed_inode:
  assumes v: "in_step (ve_codec e) rs v" "within_limits v" and i: "map_of (m_inodes (v_meta v)) ino = Some inode" "shape (f inode) = shape inode"
    and run: "sbind (smodify (on_inode ino f)) (\<lambda>_. sbind (commit_host e p a d) k) v = (w, Inr x)"
    and k: "\<And>w w' x. k () w = (w', Inr x) \<Longrightarrow> tab w' = tab w"
  shows "m_inodes (v_meta w) = bt_update ino f (m_inodes (v_meta v))"
proof -
  have st: "staged v {Unchanged} (on_inode ino f v)" by (rule same_shape_staged [OF roomy_ready [OF v] i(1), where f = f]) (rule i(2))
  have lim: "m_txid (v_meta v) < u64_max" using v(2) by (simp add: within_limits_def)
  obtain w1 where c: "commit_host e p a d (on_inode ino f v) = (w1, Inr ())" "k () w1 = (w, Inr x)"
    using run by (auto simp: sbind_def smodify_def split: prod.splits sum.splits)
  have "tab w1 = tab (on_inode ino f v)"
    by (rule commit_host_cases [OF v(1) _ _ lim c(1)]) (use st in \<open>simp_all add: staged_def\<close>)
  then have "tab w = tab (on_inode ino f v)" using k [OF c(2)] by simp
  then show "m_inodes (v_meta w) = bt_update ino f (m_inodes (v_meta v))" by (simp add: tab_def)
qed

lemma attr_tab: "sread (attr_inode ino) w = (w', Inr x) \<Longrightarrow> tab w' = tab w"
  by (auto simp: sread_def)

lemma chmod_committed:
  assumes v: "in_step (ve_codec e) rs v" "within_limits v" and run: "chmod_inode_as (commit_host e) e ino mode uid gids v = (w, Inr attr)"
  obtains inode eff where "map_of (m_inodes (v_meta v)) ino = Some inode" "effective_chmod inode mode (Some (uid, gids)) = Inr eff"
    "map_of (m_inodes (v_meta w)) ino = Some (inode\<lparr>i_mode := (i_mode inode AND NOT 0xFFF) OR eff,
       i_posix_acl_access := map_option (\<lambda>acl. apply_mode_to_access_acl acl eff) (i_posix_acl_access inode), i_ctime := ve_now e\<rparr>)"
proof -
  obtain inode eff where i: "map_of (m_inodes (v_meta v)) ino = Some inode" "effective_chmod inode mode (Some (uid, gids)) = Inr eff"
    and run': "sbind (smodify (on_inode ino (\<lambda>inode. inode\<lparr>i_mode := (i_mode inode AND NOT 0xFFF) OR eff,
         i_posix_acl_access := map_option (\<lambda>acl. apply_mode_to_access_acl acl eff) (i_posix_acl_access inode), i_ctime := ve_now e\<rparr>)))
       (\<lambda>_. sbind (commit_host e None ''chmod'' (JObject [(''inode'', jnum ino), (''mode'', jnum (unat eff))])) (\<lambda>_. sread (attr_inode ino))) v
       = (w, Inr attr)"
    using run unfolding chmod_inode_as_def chmod_inode_checked_def
    by (auto simp: sbind_def [of "sread _"] sread_def [of ensure_block_backend_writable_locked] sread_def [of "\<lambda>v. get_inode (v_meta v) ino"]
        sread_def [of "\<lambda>_. effective_chmod _ _ _"] get_inode_eq split: sum.splits)
  show thesis
    by (rule that [OF i]) (use committed_inode [OF v i(1) _ run' attr_tab] i(1) in \<open>simp add: shape_def bt_get_update\<close>)
qed

definition chowned :: "venv \<Rightarrow> 32 word option \<Rightarrow> 32 word option \<Rightarrow> inode \<Rightarrow> inode" where
  "chowned e uid gid inode = inode\<lparr>
     i_uid := (case uid of Some u \<Rightarrow> u | None \<Rightarrow> i_uid inode), i_gid := (case gid of Some g \<Rightarrow> g | None \<Rightarrow> i_gid inode),
     i_mode := i_mode inode AND NOT (0x800 OR S_ISGID), i_ctime := ve_now e\<rparr>"

lemma chown_committed:
  assumes v: "in_step (ve_codec e) rs v" "within_limits v" and run: "chown_inode_as (commit_host e) e ino uid gid cu cgs v = (w, Inr attr)"
    and some: "uid \<noteq> None \<or> gid \<noteq> None"
  obtains inode where "map_of (m_inodes (v_meta v)) ino = Some inode" "check_chown inode uid gid (Some (cu, cgs)) = Inr ()"
    "map_of (m_inodes (v_meta w)) ino = Some (chowned e uid gid inode)"
proof -
  obtain inode d where i: "map_of (m_inodes (v_meta v)) ino = Some inode" "check_chown inode uid gid (Some (cu, cgs)) = Inr ()"
    and run': "sbind (smodify (on_inode ino (chowned e uid gid)))
       (\<lambda>_. sbind (commit_host e None ''chown'' d) (\<lambda>_. sread (attr_inode ino))) v = (w, Inr attr)"
    using run some unfolding chown_inode_as_def chown_inode_checked_def chowned_def
    by (auto simp: sbind_def [of "sread _"] sread_def [of ensure_block_backend_writable_locked] sread_def [of "\<lambda>v. get_inode (v_meta v) ino"]
        sread_def [of "\<lambda>_. check_chown _ _ _ _"] get_inode_eq split: sum.splits)
  show thesis
    by (rule that [OF i]) (use committed_inode [OF v i(1) _ run' attr_tab] i(1) in \<open>simp add: shape_def bt_get_update chowned_def\<close>)
qed

lemma not_and_clear: "(x :: 32 word) AND NOT m AND m = 0"
  by (simp add: and.assoc)

section \<open>What a caller can rely on\<close>

lemma host_writable: "in_step cd rs v \<Longrightarrow> ensure_block_backend_writable_locked v = Inr ()"
  by (simp add: in_step_def ensure_block_backend_writable_locked_def)

lemma new_dir_count:
  assumes "tree_ok rt N" "c \<notin> dom (nk N)" "is_dir N p"
  shows "link_count (add_entry p n c (N\<lparr>nk := (nk N)(c \<mapsto> Directory)\<rparr>)) c = 2"
proof -
  have "\<not> is_dir N c" using assms(2) by (auto simp: is_dir_def)
  then have "lk N (c, m) = None" for m using tree_okD(3) [OF assms(1)] by (cases "lk N (c, m)") auto
  moreover have "p \<noteq> c" using assms(2,3) by (auto simp: is_dir_def)
  ultimately have "subdirs (add_entry p n c (N\<lparr>nk := (nk N)(c \<mapsto> Directory)\<rparr>)) c = {}"
    by (simp add: subdirs_def add_entry_def)
  then show ?thesis by (simp add: link_count_def is_dir_def add_entry_def)
qed

lemma mkdir_made:
  assumes v: "in_step (ve_codec e) rs v" "within_limits v" and uncut: "\<And>point. \<not> ve_inject e point"
    and p: "is_dir (vns v) p" "lk (vns v) (p, n) = None" "validate_entry_name n = Inr ()"
  obtains w where "mkdir_locked (commit_host e) e p n mode uid gid v = (w, Inr (m_next_inode (v_meta v)))" "in_step (ve_codec e) rs w"
    "vns w = add_entry p n (m_next_inode (v_meta v)) ((vns v)\<lparr>nk := (nk (vns v))(m_next_inode (v_meta v) \<mapsto> Directory)\<rparr>)"
proof -
  let ?c = "m_next_inode (v_meta v)"
  define h where "h = (undefined :: host_env)\<lparr>he_rs := rs\<rparr>"
  have v': "in_step (ve_codec e) (he_rs h) v" using v(1) by (simp add: h_def)
  have lim: "m_txid (v_meta v) < u64_max" using v(2) by (simp add: within_limits_def)
  obtain inode where i: "dir_inode_locked (v_meta v) p = Inr inode" using p(1) by (auto simp: vns_def is_dir_of dir_inode_eq)
  then have "\<not> bt_contains n (i_entries inode)" using p(2) by (simp add: vns_def ns_of_simps dir_inode_eq bt_contains_def)
  then have r: "reaches ((=) ?c) v (\<lambda>commit. mkdir_locked commit e p n mode uid gid) v {Created p n ?c Directory}"
    by (intro mkdir_reaches [OF roomy_ready [OF v] host_writable [OF v(1)] p(3) i])
  obtain w where w: "mkdir_locked (commit_host e) e p n mode uid gid v = (w, Inr ?c)"
    using uncut_success [OF r v(1) lim uncut] by blast
  show thesis
  proof (rule hc.operation_outcome [OF reaches_leads [OF r] v' lim w])
    fix x change
    assume "in_step (ve_codec e) (he_rs h) w" "change \<in> {Created p n ?c Directory}" "ns_step ROOT_INO change (vns v) (vns w)"
    then show thesis by (intro that [OF w]) (auto simp: h_def elim: ns_step.cases)
  qed simp_all
qed

lemma user_xattr:
  assumes "xattr_namespace_of name = Inr XUser"
  shows "validate_xattr_write name = Inr ()" "validate_xattr_read name = Inr ()"
    "set_xattr e name bytes inode = Inr (inode\<lparr>i_xattrs := bt_insert name (hx_encode (ve_hex e) bytes) (i_xattrs inode)\<rparr>)"
    "get_xattr e name inode = rbind (ok_or NotFound (map_of (i_xattrs inode) name)) (\<lambda>stored. ok_or Invalid (hx_decode (ve_hex e) stored))"
proof -
  have "starts_with name ''user.''" using assms by (auto simp: xattr_namespace_of_def split: if_splits)
  then have n: "name \<noteq> CHR ''s'' # rest" for rest by (auto simp: starts_with_def)
  have other: "name \<noteq> POSIX_ACL_ACCESS_XATTR" "name \<noteq> POSIX_ACL_DEFAULT_XATTR" "name \<noteq> ARGOS_POSIX_ACL_ACCESS_XATTR"
    "name \<noteq> ARGOS_POSIX_ACL_DEFAULT_XATTR" "name \<noteq> NFS4_ACL_XATTR" "name \<noteq> BOOT_CRITICAL_XATTR" "name \<noteq> SECURITY_CAPABILITY_XATTR"
    using n unfolding POSIX_ACL_ACCESS_XATTR_def POSIX_ACL_DEFAULT_XATTR_def ARGOS_POSIX_ACL_ACCESS_XATTR_def
      ARGOS_POSIX_ACL_DEFAULT_XATTR_def NFS4_ACL_XATTR_def BOOT_CRITICAL_XATTR_def SECURITY_CAPABILITY_XATTR_def by auto
  then have "\<not> is_known_system_xattr name" by (simp add: is_known_system_xattr_def)
  then show "validate_xattr_write name = Inr ()" "validate_xattr_read name = Inr ()"
    using assms by (simp_all add: validate_xattr_write_def validate_xattr_read_def rbind_def)
  show "set_xattr e name bytes inode = Inr (inode\<lparr>i_xattrs := bt_insert name (hx_encode (ve_hex e) bytes) (i_xattrs inode)\<rparr>)"
    "get_xattr e name inode = rbind (ok_or NotFound (map_of (i_xattrs inode) name)) (\<lambda>stored. ok_or Invalid (hx_decode (ve_hex e) stored))"
    using other by (simp_all add: set_xattr_def get_xattr_def access_acl_name_def default_acl_name_def)
qed

lemma get_xattr_other:
  assumes "name' \<noteq> name"
  shows "get_xattr e name' (inode\<lparr>i_xattrs := bt_insert name stored (i_xattrs inode), i_ctime := t\<rparr>) = get_xattr e name' inode"
  using assms by (simp add: get_xattr_def bt_get_insert)

lemma update_commits:
  assumes v: "in_step (ve_codec e) rs v" "within_limits v" and uncut: "\<And>point. \<not> ve_inject e point"
    and i: "map_of (m_inodes (v_meta v)) ino = Some inode" "shape (f inode) = shape inode"
  obtains w where "commit_host e p a d (on_inode ino f v) = (w, Inr ())" "m_inodes (v_meta w) = bt_update ino f (m_inodes (v_meta v))"
proof -
  have lim: "m_txid (v_meta v) < u64_max" using v(2) by (simp add: within_limits_def)
  have "staged v {Unchanged} (on_inode ino f v)" by (rule same_shape_staged [OF roomy_ready [OF v] i(1), where f = f]) (rule i(2))
  then have b: "meta_ok (v_meta (on_inode ino f v))" "base (on_inode ino f v) = base v" by (simp_all add: staged_def)
  obtain w where w: "commit_host e p a d (on_inode ino f v) = (w, Inr ())"
    using commit_host_uncut [OF v(1) b(2) lim uncut] by blast
  have "tab w = tab (on_inode ino f v)" by (rule commit_host_cases [OF v(1) b lim w]) simp_all
  then show thesis using that [OF w] by (simp add: tab_def)
qed

lemma setxattr_committed:
  assumes v: "in_step (ve_codec e) rs v" "within_limits v" and uncut: "\<And>point. \<not> ve_inject e point"
    and i: "map_of (m_inodes (v_meta v)) ino = Some inode" and name: "xattr_namespace_of name = Inr XUser"
  obtains w where "setxattr_inode (commit_host e) e ino name bytes v = (w, Inr ())"
    "m_inodes (v_meta w) = bt_update ino (\<lambda>_. inode\<lparr>i_xattrs := bt_insert name (hx_encode (ve_hex e) bytes) (i_xattrs inode), i_ctime := ve_now e\<rparr>)
       (m_inodes (v_meta v))"
proof -
  define f where "f = (\<lambda>_ :: inode. inode\<lparr>i_xattrs := bt_insert name (hx_encode (ve_hex e) bytes) (i_xattrs inode), i_ctime := ve_now e\<rparr>)"
  have sh: "shape (f inode) = shape inode" by (simp add: f_def shape_def)
  obtain w where w: "commit_host e None ''setxattr'' (JObject [(''bytes'', jnum (length bytes)), (''inode'', jnum ino), (''name'', JString name)])
      (on_inode ino f v) = (w, Inr ())" "m_inodes (v_meta w) = bt_update ino f (m_inodes (v_meta v))"
    by (rule update_commits [where f = f, OF v uncut i sh])
  have "setxattr_inode (commit_host e) e ino name bytes v = (w, Inr ())"
    using w(1) i host_writable [OF v(1)]
    by (simp add: setxattr_inode_def setxattr_inode_unchecked_def change_inode_def user_xattr [OF name] sbind_def sread_def smodify_def
        get_inode_def ok_or_def rbind_def f_def)
  then show thesis using that w(2) unfolding f_def by blast
qed

lemma mkdir_at_made:
  assumes ser: "serde_exact cd" and v: "served cd rs v" "within_limits v" and e: "ve_codec e = cd" "\<forall>point. \<not> ve_inject e point" "hex_ok (ve_hex e)"
    and p: "is_dir (vns v) p" "entry_name_from_os (ve_hex e) os_name = Inr n" "lk (vns v) (p, n) = None"
  obtains w inode where "mkdir_at_with_owner (commit_host e) e p os_name mode uid gid v
      = (w, Inr (attr_from_inode inode (c_chunk_size (m_config (v_meta w)))))" "served cd rs w"
    "map_of (m_inodes (v_meta w)) (m_next_inode (v_meta v)) = Some inode" "i_kind inode = Directory"
    "vns w = add_entry p n (m_next_inode (v_meta v)) ((vns v)\<lparr>nk := (nk (vns v))(m_next_inode (v_meta v) \<mapsto> Directory)\<rparr>)"
proof -
  let ?c = "m_next_inode (v_meta v)"
  have s: "in_step (ve_codec e) rs v" using served_ready [OF ser v(1)] e(1) by simp
  have n: "validate_entry_name n = Inr ()" by (rule stored_name_decodes(2) [OF e(3) p(2)])
  obtain w where w: "mkdir_locked (commit_host e) e p n mode uid gid v = (w, Inr ?c)"
    "vns w = add_entry p n ?c ((vns v)\<lparr>nk := (nk (vns v))(?c \<mapsto> Directory)\<rparr>)"
    using mkdir_made [OF s v(2) _ p(1,3) n] e(2) by blast
  obtain inode where i: "map_of (m_inodes (v_meta w)) ?c = Some inode" "i_kind inode = Directory"
    using arg_cong [OF w(2), of "\<lambda>N. nk N ?c"] by (auto simp: vns_def ns_of_simps add_entry_def)
  have run: "mkdir_at_with_owner (commit_host e) e p os_name mode uid gid v
      = (w, Inr (attr_from_inode inode (c_chunk_size (m_config (v_meta w)))))"
    using w(1) i(1) p(2) by (simp add: mkdir_at_with_owner_def sbind_def sread_def attr_inode_def get_inode_def ok_or_def rbind_def)
  have "served cd rs w"
    by (rule served.request [OF v(1) e(1) v(2), of "Mkdir_At p os_name mode uid gid" w "Inr ()"])
      (simp_all add: silently_def run sbind_def sret_def)
  then show thesis using that [OF run _ i w(2)] by blast
qed

section \<open>An example with a directory\<close>

lemma demo_env: "ve_hex (demo_venv stops) = demo_hex" "hex_ok (ve_hex (demo_venv stops))"
  by (simp_all add: demo_venv_def demo_hex_ok)

lemma demo_name: "entry_name_from_os demo_hex [0x61] = Inr ''a''"
proof -
  have "char_of (97 :: nat) = CHR ''a''" by code_simp
  then have "from_utf8 [0x61] = Some ''a''" by (simp add: from_utf8_def cont_def bytes_str_def)
  then show ?thesis
    by (simp add: entry_name_from_os_def validate_entry_name_bytes_def str_bytes_def validate_entry_name_def starts_with_def
        NON_UTF8_NAME_PREFIX_def ESCAPED_UTF8_NAME_PREFIX_def)
qed

lemma demo_directory:
  obtains v c where "served number_codec mirror v" "lk (vns v) (ROOT_INO, ''a'') = Some c" "is_dir (vns v) c"
proof -
  have "is_dir (vns demo_volume) ROOT_INO" "lk (vns demo_volume) (ROOT_INO, ''a'') = None"
    by (simp_all add: demo_state(2) only_root_def is_dir_def)
  then obtain w where "served number_codec mirror w"
    "vns w = add_entry ROOT_INO ''a'' (m_next_inode (v_meta demo_volume))
       ((vns demo_volume)\<lparr>nk := (nk (vns demo_volume))(m_next_inode (v_meta demo_volume) \<mapsto> Directory)\<rparr>)"
    using mkdir_at_made [OF number_codec_exact demo_served demo_state(3), of "demo_venv (\<lambda>_. False)" ROOT_INO "[0x61]" "''a''" 0 0 0]
    by (auto simp: demo_env demo_name demo_hex_ok)
  then show thesis using that by (auto simp: add_entry_def is_dir_def)
qed

text \<open>The owner of the root directory changes its mode.\<close>

lemma demo_chmod:
  "\<exists>w attr. chmod_inode_as (commit_host (demo_venv (\<lambda>_. False))) (demo_venv (\<lambda>_. False)) ROOT_INO mode 1000 gids demo_volume = (w, Inr attr)"
proof -
  let ?e = "demo_venv (\<lambda>_. False)"
  obtain inode where i: "map_of (m_inodes (v_meta demo_volume)) ROOT_INO = Some inode" "i_uid inode = 1000"
    using demo_state(4) by (auto simp: owners_def)
  then have "\<exists>eff. effective_chmod inode mode (Some (1000, gids)) = Inr eff" by (simp add: effective_chmod_def Let_def)
  then obtain eff where eff: "effective_chmod inode mode (Some (1000, gids)) = Inr eff" by blast
  define f where "f = (\<lambda>inode :: inode. inode\<lparr>i_mode := (i_mode inode AND NOT 0xFFF) OR eff,
              i_posix_acl_access := map_option (\<lambda>acl. apply_mode_to_access_acl acl eff) (i_posix_acl_access inode), i_ctime := ve_now ?e\<rparr>)"
  have sh: "shape (f inode) = shape inode" by (simp add: f_def shape_def)
  obtain w where w: "commit_host ?e None ''chmod'' (JObject [(''inode'', jnum ROOT_INO), (''mode'', jnum (unat eff))]) (on_inode ROOT_INO f demo_volume)
      = (w, Inr ())" "m_inodes (v_meta w) = bt_update ROOT_INO f (m_inodes (v_meta demo_volume))"
    by (rule update_commits [where f = f and e = ?e and rs = mirror, OF _ demo_state(3) _ i(1) sh]) (simp_all add: demo_state(1))
  then show ?thesis
    using i(1) eff host_writable [OF demo_state(1)]
    by (simp add: chmod_inode_as_def chmod_inode_checked_def sbind_def sread_def smodify_def get_inode_def ok_or_def f_def attr_inode_def
        rbind_def bt_get_update)
qed

text \<open>A sticky directory of root with a file of user 7.\<close>

definition demo_sticky :: volume where
  "demo_sticky = demo_volume\<lparr>v_meta := (v_meta demo_volume)\<lparr>m_inodes :=
     [(1, (root_inode 0 0 0)\<lparr>i_mode := 0x43FF, i_entries := [(''a'', 2)]\<rparr>),
      (2, (root_inode 0 7 7)\<lparr>i_id := 2, i_kind := File, i_mode := 0x81A4, i_nlink := 1\<rparr>)]\<rparr>\<rparr>"

section \<open>The claims\<close>



text \<open>C11. An entry of a sticky directory is safe from a user who is neither root nor the owner of the directory or of the entry:
  that user's unlink or rmdir of it is refused, and renaming it, replacing it or exchanging it leaves the volume as it
  was. This holds whatever the commit does.\<close>

theorem sticky_protects:
  assumes "sticky_against (v_meta v) p n uid" "po_uid policy = Some uid"
  shows "(\<exists>err. unlink_locked commit e p n dir (Some uid) keep v = (v, Inl err))
    \<and> fst (rename_locked commit e p n q m policy v) = v \<and> fst (rename_locked commit e q m p n policy v) = v"
  using sticky_unlink [OF assms(1)] sticky_rename [OF assms] sticky_replace [OF assms]
  by (simp add: rejects_def stays_def)

theorem sticky_protects_witness:
  "sticky_against (v_meta demo_sticky) 1 ''a'' 5
   \<and> (\<exists>err. unlink_locked (commit_host (demo_venv (\<lambda>_. False))) (demo_venv (\<lambda>_. False)) 1 ''a'' False (Some 5) False demo_sticky = (demo_sticky, Inl err))
   \<and> fst (rename_locked (commit_host (demo_venv (\<lambda>_. False))) (demo_venv (\<lambda>_. False)) 1 ''a'' 1 ''b'' (default_policy\<lparr>po_uid := Some 5\<rparr>) demo_sticky) = demo_sticky"
proof -
  have s: "sticky_against (v_meta demo_sticky) 1 ''a'' 5"
    by (simp add: sticky_against_def demo_sticky_def root_inode_def)
  show ?thesis
    using s sticky_protects [OF s, where policy = "default_policy\<lparr>po_uid := Some 5\<rparr>"] by simp
qed







end
