(* ===== verification/Spec2Isabelle.thy ===== *)
theory Spec2Isabelle
  imports Argos_Allocator Argos_ACL Argos_Format Argos_Recovery Argos_Pages Argos_Cache Argos_Verify Argos_Quota Argos_Access
begin

text \<open>
  Verification of ArgosFS (\<open>src/src\<close>), an erasure-coded file system with a journal for its metadata, written in Rust.

  \<^bold>\<open>The program.\<close> A volume is one metadata document (\<open>model/types.rs\<close>: configuration, disks, stripe layouts and a table of
  inodes) and the shards of its files. It is stored either in a host directory, with the document in three copies and
  a journal (\<open>metadata/journal.rs\<close>), or on raw devices with superblocks, an extent allocator and a paged form of the document
  (\<open>storage/raw\<close>, \<open>metadata/store.rs\<close>). \<open>volume/mod.rs\<close> and \<open>volume/namespace.rs\<close> implement the operations: each checks its
  arguments, changes the document in memory, hands it to \<open>commit_locked_with_previous\<close>, and finishes or undoes what it did.
  \<open>volume/data_plane.rs\<close> reads and writes file data through the erasure code (\<open>data/erasure.rs\<close>), the block cache (\<open>data/cache.rs\<close>)
  and, on raw devices, the verifier of written shards (\<open>volume/verify_after_write.rs\<close>). FUSE, the command line and the
  autopilot are built on these.

  \<^bold>\<open>Conventions.\<close> A struct is a record, an enum a datatype with the same constructors, a \<open>BTreeMap\<close> an association list in the order of its
  keys (\<open>Argos_BTree\<close>), \<open>Result\<close> the type \<open>result\<close> with \<open>Inl\<close> the error (\<open>Argos_Error\<close>). \<open>u64\<close> and \<open>usize\<close> are natural numbers with
  wrapping, saturating and checked operations written out (\<open>Argos_Prelude\<close>); \<open>u32\<close> and \<open>u8\<close> are words; \<open>f64\<close> is a rational
  number, exact where the code rounds; the text of an error message is dropped. A method with \<open>&mut\<close> access to the volume is a state monad with errors
  over the record \<open>volume\<close> (\<open>Argos_Volume\<close>). Locks are not modelled: a method that holds the write lock is one step.
  Code outside \<open>src\<close> is a parameter: the hashes, serde_json (\<open>codec\<close>), the crate hex, the Reed-Solomon crate, the host's file
  operations, clock, user and crash-injection settings (\<open>venv\<close>, \<open>host_env\<close>). What is assumed of one is a
  named predicate: \<open>codec_ok\<close> and \<open>serde_exact\<close> (what is written is read back), \<open>hex_ok\<close> and \<open>rs_law\<close>, of which
  \<open>number_codec\<close>, \<open>demo_hex\<close> and \<open>mirror\<close> are instances; of SHA-256 only the length of a digest is. No theorem rests on the absence of
  hash collisions.

  \<^bold>\<open>The theories.\<close>
  \<^item> \<open>Argos_Prelude\<close>, \<open>Argos_BTree\<close>, \<open>Argos_Text\<close>, \<open>Argos_Bytes\<close>: integers, ordered maps (locale \<open>ordered_map\<close>), Rust's strings, little-endian fields.
  \<^item> \<open>Argos_Error\<close> (\<open>error.rs\<close>), \<open>Argos_Types\<close> (\<open>model/types.rs\<close>), \<open>Argos_Util\<close> and \<open>Argos_Path\<close> (\<open>util.rs\<close>), \<open>Argos_Names\<close> (names of \<open>volume/namespace.rs\<close>).
  \<^item> \<open>Argos_Align\<close>, \<open>Argos_Allocator\<close> (\<open>storage/raw/allocator.rs\<close>): live extents never overlap and no byte is lost, for every history; the contract is the
    locale \<open>space_allocator\<close>, interpreted on the allocator with and without rollback.
  \<^item> \<open>Argos_Format\<close> (\<open>storage/raw/format.rs\<close>): superblocks and labels decode from their encodings, and what decodes has disjoint regions.
  \<^item> \<open>Argos_ACL\<close> (\<open>security/acl.rs\<close>): parsing, printing and validating POSIX lists, and the access decisions against the standards.
  \<^item> \<open>Argos_Delta\<close>, \<open>Argos_Journal\<close>, \<open>Argos_Recovery\<close> (\<open>metadata/journal.rs\<close>): JSON deltas, the hash chain, transactions with their crash points,
    and that recovery finds the old or the new document after a cut at any of them.
  \<^item> \<open>Argos_Pages\<close> (\<open>metadata/store.rs\<close>): the paged document and page deltas give the document back.
  \<^item> \<open>Argos_Cache\<close> (\<open>data/cache.rs\<close>), \<open>Argos_Verify\<close> (\<open>volume/verify_after_write.rs\<close>, a step relation over all interleavings), \<open>Argos_Erasure\<close>
    (\<open>data/erasure.rs\<close>), \<open>Argos_Helpers\<close> (\<open>volume/helpers.rs\<close>), \<open>Argos_Quota\<close> (quotas of \<open>volume/mod.rs\<close>).
  \<^item> \<open>Argos_Volume\<close>: the state of a mounted volume, block reclamation and the host commit; \<open>Argos_Mount\<close>: \<open>create\<close> and \<open>open\<close>;
    \<open>Argos_Namespace\<close> and \<open>Argos_Attributes\<close>: the operations of \<open>volume/mod.rs\<close> and \<open>volume/namespace.rs\<close>, each with the order of its checks, changes and commit,
    and the commit as an argument.
  \<^item> \<open>Argos_Tree\<close>: the specification of a namespace, as a step relation on kinds and links, and that its steps keep a tree with
    exact link counts. \<open>Argos_Refine\<close>: the table of inodes seen as such a namespace. \<open>Argos_Atomic\<close>: every operation fails with the volume as it was,
    or hands a volume to the commit in which exactly one step was made, and tidies up or undoes afterwards.
    \<open>Argos_Requests\<close>: the operations as requests and the steps each may make.
  \<^item> \<open>Argos_Host\<close>: the locale \<open>committing\<close> is what operations rely on of a commit; \<open>commit_host\<close> and \<open>open_host\<close> interpret it, through the crash safety
    of the journal. \<open>Argos_Service\<close>: the histories of a volume (created, asked, cut off, opened) and what holds of all of them.
    \<open>Argos_Access\<close>: what operations refuse, and that what was made or set is found.

  \<^bold>\<open>Bounds and fuel.\<close> The search of \<open>rename\<close> through directories (\<open>contains_within\<close>) and the walk of the quota code are recursions through the
  inode table that the code does not bound. They carry a depth, the number of inodes plus one, and the theorems show that on every volume of every
  history it is enough: the result is never \<open>None\<close>. The resolution of symbolic links has the code's own limit. \<open>within_limits\<close> says that no
  counter (transaction, inode number, link count) is at the end of its type before a request, as the code does not check them.

  \<^bold>\<open>Not modelled.\<close>
  \<^item> \<open>storage/raw/store.rs\<close> and the raw branch of the commit: the quorum protocol writes superblocks, journal segments and pages of several devices through
    the backend trait; its records are those of \<open>Argos_Format\<close>, \<open>Argos_Pages\<close> and \<open>Argos_Journal\<close>. The deferred commit of \<open>volume/mod.rs\<close> belongs to it.
  \<^item> \<open>volume/data_plane.rs\<close> beyond block reclamation, \<open>volume/maintenance.rs\<close>, \<open>volume/autopilot.rs\<close>, \<open>control\<close>: reading and writing of shards on devices, placement by
    measured latencies, scrubbing, rebalancing, and the scores (in floating point) that drive them.
  \<^item> \<open>storage/backend.rs\<close>, \<open>storage/guard.rs\<close>, \<open>storage/scan.rs\<close>, \<open>data/advanced_io.rs\<close>: system calls on files and block devices.
  \<^item> \<open>data/compression.rs\<close>, \<open>data/crypto.rs\<close>: calls of external crates.
  \<^item> \<open>frontend\<close> and \<open>cli\<close>: the FUSE protocol, metrics, boot support, and the parsing and printing of the command line.
  \<^item> Concurrency of readers and writers beyond the verifier, I/O errors of the host in the journal, and the recovery of a journal whose last line is torn.
\<close>

end
